(* ===== verification/Prelude.thy ===== *)
theory Prelude
  imports Main "HOL-Library.Word"
begin

text \<open>
  Shared vocabulary of the development: the machine-integer and byte types of the Rust
  sources, the 64-bit signed arithmetic the token code uses (\<open>i64\<close> values are \<open>int\<close>s, with
  the two's-complement wrap of a release build written out), big-endian byte strings, and the
  list lemmas that the component theories use.

  Two conventions hold everywhere. A Rust \<open>&str\<close> or \<open>String\<close> is a \<open>string\<close>, one \<open>char\<close>
  per UTF-8 byte, so that \<open>length\<close> is Rust's \<open>len\<close>. A Rust \<open>[u8]\<close> or \<open>Vec<u8>\<close> is a
  list of \<open>u8\<close>; \<open>as_bytes\<close> goes from one to the other.
\<close>

unbundle bit_operations_syntax

subsection \<open>Names of types and fact collections\<close>

type_synonym u8 = "8 word"
type_synonym u16 = "16 word"
type_synonym u32 = "32 word"
type_synonym u64 = "64 word"
type_synonym u128 = "128 word"
type_synonym bytes = "8 word list"
type_synonym i64 = int
type_synonym usize = nat

text \<open>
  \<open>wire_simps\<close> collects unfolding equations of the wire-format helpers, \<open>verify_splits\<close> the
  characterisations of accepting runs of the verification routines, \<open>ledger_intros\<close> the
  preservation lemmas of the stateful components.
\<close>

named_theorems wire_simps
named_theorems verify_splits
named_theorems ledger_intros

subsection \<open>Signed 64-bit integers\<close>

definition i64_min :: int where "i64_min = - (2 ^ 63)"
definition i64_max :: int where "i64_max = 2 ^ 63 - 1"

definition in_i64 :: "int \<Rightarrow> bool" where
  "in_i64 x \<longleftrightarrow> i64_min \<le> x \<and> x \<le> i64_max"

text \<open>The workspace's release profile leaves overflow checks off, so \<open>+\<close> on \<open>i64\<close> wraps.\<close>

definition wrap_i64 :: "int \<Rightarrow> i64" where
  "wrap_i64 x = (x + 2 ^ 63) mod 2 ^ 64 - 2 ^ 63"

definition i64_add :: "i64 \<Rightarrow> i64 \<Rightarrow> i64" where
  "i64_add a b = wrap_i64 (a + b)"

definition i64_checked_sub :: "i64 \<Rightarrow> i64 \<Rightarrow> i64 option" where
  "i64_checked_sub a b = (if in_i64 (a - b) then Some (a - b) else None)"

text \<open>\<open>i64::abs_diff\<close> returns a \<open>u64\<close>: the distance of two \<open>i64\<close>s always fits.\<close>

definition i64_abs_diff :: "i64 \<Rightarrow> i64 \<Rightarrow> nat" where
  "i64_abs_diff a b = nat \<bar>a - b\<bar>"

lemma wrap_i64_id [simp]: "in_i64 x \<Longrightarrow> wrap_i64 x = x"
  by (simp add: wrap_i64_def in_i64_def i64_min_def i64_max_def)

lemma in_i64_wrap [simp]: "in_i64 (wrap_i64 x)"
proof -
  have "0 \<le> (x + 2 ^ 63) mod 2 ^ 64" "(x + 2 ^ 63) mod 2 ^ 64 < 2 ^ 64" by simp_all
  then show ?thesis by (simp add: wrap_i64_def in_i64_def i64_min_def i64_max_def)
qed

lemma wrap_i64_over:
  assumes "i64_max < x" "x < 2 ^ 63 + 2 ^ 32"
  shows "wrap_i64 x = x - 2 ^ 64"
proof -
  have "(x + 2 ^ 63) mod 2 ^ 64 = (x + 2 ^ 63 - 2 ^ 64) mod 2 ^ 64" by (simp only: minus_mod_self2)
  also have "\<dots> = x + 2 ^ 63 - 2 ^ 64"
    using assms by (intro mod_pos_pos_trivial) (simp_all add: i64_max_def)
  finally show ?thesis by (simp add: wrap_i64_def)
qed

lemma i64_add_exact: "in_i64 (a + b) \<Longrightarrow> i64_add a b = a + b"
  by (simp add: i64_add_def)

lemma i64_abs_diff_le: "in_i64 a \<Longrightarrow> in_i64 b \<Longrightarrow> i64_abs_diff a b < 2 ^ 64"
  by (auto simp: i64_abs_diff_def in_i64_def i64_min_def i64_max_def)

subsection \<open>Text as bytes\<close>

definition as_bytes :: "string \<Rightarrow> bytes" where
  "as_bytes s = map of_char s"

definition str_of_bytes :: "bytes \<Rightarrow> string" where
  "str_of_bytes b = map (\<lambda>x. char_of (unat x)) b"

lemma u8_less_256 [simp]: "unat (b :: u8) < 256"
  using unsigned_less [of b] by simp

lemma u64_less: "unat (w :: u64) < 2 ^ 64"
  using unsigned_less [of w] by simp

lemma of_char_char_of_u8 [simp]: "of_char (char_of (unat (b :: u8))) = b"
proof -
  have "(of_char (char_of (unat b)) :: u8) = of_nat (of_char (char_of (unat b)))"
    by (rule of_nat_of_char [symmetric])
  then show ?thesis using u8_less_256 [of b] by (simp add: of_char_of)
qed

lemma unat_of_char_u8 [simp]: "unat (of_char c :: u8) = of_char c"
proof -
  have "(of_char c :: u8) = of_nat (of_char c)" by (rule of_nat_of_char [symmetric])
  then show ?thesis using nat_of_char_less_256 [of c] by (simp add: unat_of_nat)
qed

lemma as_bytes_str_of_bytes [simp]: "as_bytes (str_of_bytes b) = b"
  by (simp add: as_bytes_def str_of_bytes_def comp_def)

lemma str_of_bytes_as_bytes [simp]: "str_of_bytes (as_bytes s) = s"
  by (simp add: as_bytes_def str_of_bytes_def comp_def)

lemma length_as_bytes [simp]: "length (as_bytes s) = length s"
  by (simp add: as_bytes_def)

lemma length_str_of_bytes [simp]: "length (str_of_bytes b) = length b"
  by (simp add: str_of_bytes_def)

lemma as_bytes_append [simp]: "as_bytes (s @ t) = as_bytes s @ as_bytes t"
  by (simp add: as_bytes_def)

lemma as_bytes_Cons: "as_bytes (c # s) = of_char c # as_bytes s"
  by (simp add: as_bytes_def)

lemma as_bytes_Nil [simp]: "as_bytes [] = []"
  by (simp add: as_bytes_def)

lemma as_bytes_inject [simp]: "as_bytes s = as_bytes t \<longleftrightarrow> s = t"
  by (metis str_of_bytes_as_bytes)

lemma as_bytes_Nil_iff [simp]: "as_bytes s = [] \<longleftrightarrow> s = []"
  by (simp add: as_bytes_def)

subsection \<open>Big-endian byte strings\<close>

definition be_val :: "bytes \<Rightarrow> nat" where
  "be_val bs = foldl (\<lambda>acc b. acc * 256 + unat b) 0 bs"

definition to_be_bytes :: "u64 \<Rightarrow> bytes" where
  "to_be_bytes w = map (\<lambda>i. ucast (drop_bit (8 * (7 - i)) w)) [0..<8]"

lemma be_val_Nil [simp]: "be_val [] = 0"
  by (simp add: be_val_def)

lemma be_val_snoc [simp]: "be_val (bs @ [b]) = be_val bs * 256 + unat b"
  by (simp add: be_val_def)

lemma be_val_foldl: "foldl (\<lambda>acc b. acc * 256 + unat b) a (bs :: bytes) = a * 256 ^ length bs + be_val bs"
proof (induction bs rule: rev_induct)
  case (snoc b bs)
  then show ?case by (simp add: be_val_def algebra_simps)
qed simp

lemma be_val_Cons: "be_val (b # bs) = unat b * 256 ^ length bs + be_val bs"
  using be_val_foldl [of "unat b" bs] by (simp add: be_val_def)

lemma be_val_bound: "be_val bs < 256 ^ length bs"
proof (induction bs rule: rev_induct)
  case (snoc b bs)
  have "be_val bs * 256 + unat b < (be_val bs + 1) * 256"
    using u8_less_256 [of b] by simp
  also have "\<dots> \<le> 256 ^ length bs * 256"
    using snoc.IH by (simp only: mult_le_cancel2) simp
  finally show ?case by (simp add: mult.commute)
qed simp

lemma be_val_less_Cons:
  assumes "length xs = length ys" and "unat x < unat y"
  shows "be_val (x # xs) < be_val (y # ys)"
proof -
  have "be_val (x # xs) < (unat x + 1) * 256 ^ length xs"
    using be_val_bound [of xs] by (simp add: be_val_Cons)
  also have "\<dots> \<le> unat y * 256 ^ length xs"
    using assms(2) by (intro mult_right_mono) simp_all
  also have "\<dots> \<le> be_val (y # ys)"
    using assms(1) by (simp add: be_val_Cons)
  finally show ?thesis .
qed

lemma be_val_inject: "length xs = length ys \<Longrightarrow> be_val xs = be_val ys \<longleftrightarrow> xs = ys"
proof (induction xs ys rule: list_induct2)
  case (Cons x xs y ys)
  consider "unat x < unat y" | "unat y < unat x" | "x = y"
    using word_unat_eq_iff nat_neq_iff by blast
  then show ?case
  proof cases
    case 1
    then show ?thesis using be_val_less_Cons [OF Cons.hyps 1] by auto
  next
    case 2
    then show ?thesis using be_val_less_Cons [OF Cons.hyps [symmetric] 2] by auto
  next
    case 3
    then show ?thesis using Cons by (simp add: be_val_Cons)
  qed
qed simp

lemma length_to_be_bytes [simp]: "length (to_be_bytes w) = 8"
  by (simp add: to_be_bytes_def)

lemma to_be_bytes_inject [simp]: "to_be_bytes v = to_be_bytes w \<longleftrightarrow> v = w"
proof
  assume eq: "to_be_bytes v = to_be_bytes w"
  show "v = w"
  proof (rule bit_word_eqI)
    fix n assume n: "n < LENGTH(64)"
    define i where "i = 7 - n div 8"
    have i: "i < 8" "8 * (7 - i) + n mod 8 = n" using n by (auto simp: i_def)
    have byte: "to_be_bytes u ! i = ucast (drop_bit (8 * (7 - i)) u)" for u
      using i(1) by (simp add: to_be_bytes_def)
    have "bit (to_be_bytes u ! i) (n mod 8) = bit u n" for u
      using i(2) unfolding byte by (simp add: bit_ucast_iff bit_drop_bit_eq)
    then show "bit v n = bit w n" using eq by metis
  qed
qed simp

subsection \<open>Lists\<close>

lemma append_eq_same_length:
  "length a = length b \<Longrightarrow> a @ c = b @ d \<longleftrightarrow> a = b \<and> c = d"
  by simp

text \<open>Frames \<open>length prefix @ field\<close> concatenated over a list of fields.\<close>

definition frame :: "bytes \<Rightarrow> bytes" where
  "frame f = to_be_bytes (of_nat (length f)) @ f"

definition frames :: "bytes list \<Rightarrow> bytes" where
  "frames fs = concat (map frame fs)"

lemma frame_prefix_free:
  assumes "length f < 2 ^ 64" "length g < 2 ^ 64" and eq: "frame f @ r = frame g @ s"
  shows "f = g \<and> r = s"
proof -
  from eq have "to_be_bytes (of_nat (length f)) = to_be_bytes (of_nat (length g))"
    and rest: "f @ r = g @ s"
    by (simp_all add: frame_def append_eq_same_length)
  then have "unat (of_nat (length f) :: u64) = unat (of_nat (length g) :: u64)" by simp
  then have "length f = length g" using assms(1,2) by (simp add: unat_of_nat)
  with rest show ?thesis by simp
qed

lemma frame_not_Nil [simp]: "frame f \<noteq> []"
proof
  assume "frame f = []"
  then have "length (frame f) = 0" by simp
  then show False by (simp add: frame_def)
qed

lemma frames_inject:
  assumes "\<forall>f\<in>set fs. length f < 2 ^ 64" "\<forall>g\<in>set gs. length g < 2 ^ 64" "frames fs = frames gs"
  shows "fs = gs"
  using assms
proof (induction fs arbitrary: gs)
  case Nil
  then show ?case by (cases gs) (auto simp: frames_def)
next
  case (Cons f fs)
  from Cons.prems(3) have "gs \<noteq> []" by (auto simp: frames_def)
  then obtain g gs' where gs: "gs = g # gs'" by (auto simp: neq_Nil_conv)
  with Cons.prems have "frame f @ frames fs = frame g @ frames gs'" by (simp add: frames_def)
  moreover have "length f < 2 ^ 64" "length g < 2 ^ 64" using Cons.prems gs by simp_all
  ultimately have "f = g \<and> frames fs = frames gs'" using frame_prefix_free by blast
  moreover have "\<forall>f\<in>set fs. length f < 2 ^ 64" "\<forall>g\<in>set gs'. length g < 2 ^ 64"
    using Cons.prems gs by simp_all
  ultimately show ?case using Cons.IH gs by blast
qed

end
