(* ===== verification/Ledger.thy ===== *)
theory Ledger
  imports Prelude
begin

text \<open>
  The contract of a one-use ledger, which the shared-memory zone and the Redis transaction both
  promise. A run is a list of events applied one after another to a state: the store's lock (or
  the single thread of Redis) serialises them, so every interleaving of the workers is such a
  list.
\<close>

fun trace :: "('ev \<Rightarrow> 's \<Rightarrow> 's) \<Rightarrow> 'ev list \<Rightarrow> 's \<Rightarrow> ('ev \<times> 's) list" where
  "trace step [] s = []"
| "trace step (ev # evs) s = (ev, s) # trace step evs (step ev s)"

lemma trace_append: "trace step (evs @ evs') s = trace step evs s @ trace step evs' (fold step evs s)"
  by (induction evs arbitrary: s) simp_all

definition acceptances ::
  "('ev \<Rightarrow> 's \<Rightarrow> 's) \<Rightarrow> ('ev \<Rightarrow> 's \<Rightarrow> 'id \<Rightarrow> int \<Rightarrow> bool) \<Rightarrow> 'ev list \<Rightarrow> 's \<Rightarrow> 'id \<Rightarrow> int \<Rightarrow> nat" where
  "acceptances step accepts evs s i e = length (filter (\<lambda>(ev, s). accepts ev s i e) (trace step evs s))"

definition admitted :: "('ev \<Rightarrow> 's \<Rightarrow> 's) \<Rightarrow> ('s \<Rightarrow> 'ev \<Rightarrow> bool) \<Rightarrow> 'ev list \<Rightarrow> 's \<Rightarrow> bool" where
  "admitted step admits evs s \<longleftrightarrow> list_all (\<lambda>(ev, s). admits s ev) (trace step evs s)"

lemma acceptances_Nil [simp]: "acceptances step accepts [] s i e = 0"
  by (simp add: acceptances_def)

lemma acceptances_Cons [simp]:
  "acceptances step accepts (ev # evs) s i e =
     (if accepts ev s i e then 1 else 0) + acceptances step accepts evs (step ev s) i e"
  by (simp add: acceptances_def)

lemma admitted_Cons [simp]:
  "admitted step admits (ev # evs) s \<longleftrightarrow> admits s ev \<and> admitted step admits evs (step ev s)"
  by (simp add: admitted_def)

lemma admitted_append:
  "admitted step admits (evs @ evs') s \<longleftrightarrow> admitted step admits evs s \<and> admitted step admits evs' (fold step evs s)"
  by (simp add: admitted_def trace_append)

text \<open>
  \<open>settled s i e\<close> says that the identifier \<open>i\<close> with expiry \<open>e\<close> can never be accepted from \<open>s\<close>
  on: it is marked as spent, or the store's clock has passed \<open>e\<close>. The laws are what a store has
  to promise for that reading.
\<close>

locale one_use_ledger =
  fixes step :: "'ev \<Rightarrow> 's \<Rightarrow> 's"
    and accepts :: "'ev \<Rightarrow> 's \<Rightarrow> 'id \<Rightarrow> int \<Rightarrow> bool"
    and admits :: "'s \<Rightarrow> 'ev \<Rightarrow> bool"
    and inv :: "'s \<Rightarrow> bool"
    and settled :: "'s \<Rightarrow> 'id \<Rightarrow> int \<Rightarrow> bool"
  assumes inv_step: "inv s \<Longrightarrow> admits s ev \<Longrightarrow> inv (step ev s)"
    and accept_settles: "inv s \<Longrightarrow> admits s ev \<Longrightarrow> accepts ev s i e \<Longrightarrow> settled (step ev s) i e"
    and settled_blocks: "inv s \<Longrightarrow> admits s ev \<Longrightarrow> settled s i e \<Longrightarrow> \<not> accepts ev s i e"
    and settled_step: "inv s \<Longrightarrow> admits s ev \<Longrightarrow> settled s i e \<Longrightarrow> settled (step ev s) i e"
begin

lemma trace_inv: "inv s \<Longrightarrow> admitted step admits evs s \<Longrightarrow> (ev, s') \<in> set (trace step evs s) \<Longrightarrow> inv s' \<and> admits s' ev"
proof (induction evs arbitrary: s)
  case (Cons e evs)
  then show ?case using Cons.IH [of "step e s"] inv_step [of s e] by auto
qed simp

lemma settled_never: "inv s \<Longrightarrow> admitted step admits evs s \<Longrightarrow> settled s i e \<Longrightarrow>
    acceptances step accepts evs s i e = 0"
  by (induction evs arbitrary: s) (auto simp: settled_blocks settled_step inv_step)

lemma at_most_once: "inv s \<Longrightarrow> admitted step admits evs s \<Longrightarrow> acceptances step accepts evs s i e \<le> 1"
proof (induction evs arbitrary: s)
  case (Cons ev evs)
  then have ok: "admits s ev" "inv (step ev s)" "admitted step admits evs (step ev s)"
    using inv_step by simp_all
  show ?case
  proof (cases "accepts ev s i e")
    case True
    with Cons.prems ok have "settled (step ev s) i e" by (intro accept_settles) simp_all
    with ok have "acceptances step accepts evs (step ev s) i e = 0" by (intro settled_never)
    then show ?thesis using True by simp
  next
    case False
    then show ?thesis using Cons.IH [OF ok(2,3)] by simp
  qed
qed simp

end

text \<open>
  A system that keeps such a ledger inside. Each of its events leaves the ledger alone and accepts
  nothing, or takes one step of the ledger and accepts no more than that step does. The system is
  then a one-use ledger itself.
\<close>

locale ledger_client = one_use_ledger step accepts admits inv settled
  for step :: "'ev \<Rightarrow> 's \<Rightarrow> 's" and accepts :: "'ev \<Rightarrow> 's \<Rightarrow> 'id \<Rightarrow> int \<Rightarrow> bool" and admits and inv and settled +
  fixes cstep :: "'cev \<Rightarrow> 'c \<Rightarrow> 'c"
    and caccepts :: "'cev \<Rightarrow> 'c \<Rightarrow> 'id \<Rightarrow> int \<Rightarrow> bool"
    and cadmits :: "'c \<Rightarrow> 'cev \<Rightarrow> bool"
    and cinv :: "'c \<Rightarrow> bool"
    and ledger :: "'c \<Rightarrow> 's"
  assumes ledger_inv: "cinv c \<Longrightarrow> inv (ledger c)"
    and cinv_step: "cinv c \<Longrightarrow> cadmits c ev \<Longrightarrow> cinv (cstep ev c)"
    and simulates: "cinv c \<Longrightarrow> cadmits c ev \<Longrightarrow>
      ledger (cstep ev c) = ledger c \<and> (\<forall>i e. \<not> caccepts ev c i e) \<or>
      (\<exists>lev. admits (ledger c) lev \<and> ledger (cstep ev c) = step lev (ledger c) \<and>
         (\<forall>i e. caccepts ev c i e \<longrightarrow> accepts lev (ledger c) i e))"

sublocale ledger_client \<subseteq> client: one_use_ledger cstep caccepts cadmits cinv "\<lambda>c. settled (ledger c)"
proof unfold_locales
  fix c ev i e
  assume now: "cinv c" "cadmits c ev"
  note inv = ledger_inv [OF now(1)]
  show "cinv (cstep ev c)" by (rule cinv_step [OF now])
  show "settled (ledger (cstep ev c)) i e" if "caccepts ev c i e"
    using simulates [OF now] that accept_settles [OF inv] by metis
  show "\<not> caccepts ev c i e" if "settled (ledger c) i e"
    using simulates [OF now] that settled_blocks [OF inv] by blast
  show "settled (ledger (cstep ev c)) i e" if "settled (ledger c) i e"
    using simulates [OF now] that settled_step [OF inv] by metis
qed

end
