(* ===== verification/Rust_Std.thy ===== *)
theory Rust_Std
  imports Prelude
begin

text \<open>
  The parts of Rust's standard library that the sources call on text and numbers: \<open>str::split_once\<close>,
  \<open>rsplit_once\<close>, \<open>split\<close>, \<open>strip_prefix\<close>, \<open>trim\<close> and its relatives, ASCII case folding,
  \<open>parse\<close> and \<open>to_string\<close> of integers, \<open>from_utf8\<close> and \<open>from_utf8_lossy\<close>, and
  \<open>slice::partition_point\<close>. Patterns are ASCII characters, so working on the bytes of the
  UTF-8 text gives the result Rust computes on its \<open>char\<close>s.
\<close>

subsection \<open>Splitting and stripping\<close>

fun split_once :: "char \<Rightarrow> string \<Rightarrow> (string \<times> string) option" where
  "split_once c [] = None"
| "split_once c (x # xs) =
     (if x = c then Some ([], xs)
      else case split_once c xs of None \<Rightarrow> None | Some (a, b) \<Rightarrow> Some (x # a, b))"

definition rsplit_once :: "char \<Rightarrow> string \<Rightarrow> (string \<times> string) option" where
  "rsplit_once c s =
     (case split_once c (rev s) of None \<Rightarrow> None | Some (a, b) \<Rightarrow> Some (rev b, rev a))"

fun split_on :: "char \<Rightarrow> string \<Rightarrow> string list" where
  "split_on c [] = [[]]"
| "split_on c (x # xs) =
     (if x = c then [] # split_on c xs
      else case split_on c xs of [] \<Rightarrow> [[x]] | p # ps \<Rightarrow> (x # p) # ps)"

definition starts_with :: "'a list \<Rightarrow> 'a list \<Rightarrow> bool" where
  "starts_with s p \<longleftrightarrow> take (length p) s = p"

definition ends_with :: "'a list \<Rightarrow> 'a list \<Rightarrow> bool" where
  "ends_with s p \<longleftrightarrow> starts_with (rev s) (rev p)"

definition strip_prefix :: "'a list \<Rightarrow> 'a list \<Rightarrow> 'a list option" where
  "strip_prefix s p = (if starts_with s p then Some (drop (length p) s) else None)"

fun find_sub :: "'a list \<Rightarrow> 'a list \<Rightarrow> nat option" where
  "find_sub [] p = (if p = [] then Some 0 else None)"
| "find_sub (x # xs) p =
     (if starts_with (x # xs) p then Some 0 else map_option Suc (find_sub xs p))"

lemma starts_with_iff: "starts_with s p \<longleftrightarrow> (\<exists>r. s = p @ r)"
  unfolding starts_with_def by (metis append_eq_conv_conj append_take_drop_id)

lemma starts_with_append [simp]: "starts_with (p @ r) p"
  by (simp add: starts_with_def)

lemma starts_with_length: "starts_with s p \<Longrightarrow> length p \<le> length s"
  by (auto simp: starts_with_iff)

lemma starts_with_longer: "starts_with s p \<Longrightarrow> starts_with (s @ r) p"
  by (auto simp: starts_with_iff)

lemma starts_with_shorter: "starts_with (s @ r) p \<Longrightarrow> length p \<le> length s \<Longrightarrow> starts_with s p"
  by (simp add: starts_with_def)

lemma find_sub_bound: "find_sub xs p = Some n \<Longrightarrow> n + length p \<le> length xs"
  by (induction xs arbitrary: n) (auto dest: starts_with_length split: if_splits)

lemma find_sub_append: "find_sub xs p = Some n \<Longrightarrow> find_sub (xs @ ys) p = Some n"
proof (induction xs arbitrary: n)
  case Nil
  then show ?case by (cases ys) (auto simp: starts_with_def split: if_splits)
next
  case (Cons x xs)
  show ?case
  proof (cases "starts_with (x # xs) p")
    case True
    with Cons.prems starts_with_longer [OF True, of ys] show ?thesis by simp
  next
    case False
    then obtain m where m: "find_sub xs p = Some m" "n = Suc m" using Cons.prems by auto
    have "\<not> starts_with ((x # xs) @ ys) p"
      using False find_sub_bound [OF m(1)] starts_with_shorter [of "x # xs" ys p] by auto
    with Cons.IH [OF m(1)] m(2) show ?thesis by simp
  qed
qed

lemma strip_prefix_Some [simp]: "strip_prefix s p = Some r \<longleftrightarrow> s = p @ r"
  by (auto simp: strip_prefix_def starts_with_iff)

lemma ends_with_iff: "ends_with s p \<longleftrightarrow> (\<exists>r. s = r @ p)"
  unfolding ends_with_def starts_with_iff by (metis rev_append rev_rev_ident)

lemma split_once_None: "split_once c s = None \<longleftrightarrow> c \<notin> set s"
  by (induction s) (auto split: option.splits)

lemma split_once_append [simp]: "c \<notin> set a \<Longrightarrow> split_once c (a @ c # b) = Some (a, b)"
  by (induction a) auto

lemma split_once_SomeD: "split_once c s = Some (a, b) \<Longrightarrow> s = a @ c # b \<and> c \<notin> set a"
  by (induction s arbitrary: a) (auto split: if_splits option.splits)

lemma split_once_Some: "split_once c s = Some (a, b) \<longleftrightarrow> s = a @ c # b \<and> c \<notin> set a"
  using split_once_append split_once_SomeD by blast

lemma split_once_unique:
  assumes "(c :: char) \<notin> set a" "c \<notin> set b" "a @ c # r = b @ c # s"
  shows "a = b \<and> r = s"
  using arg_cong [OF assms(3), of "split_once c"] unfolding split_once_append [OF assms(1)]
    split_once_append [OF assms(2)] by simp

lemma split_on_first: "c \<notin> set a \<Longrightarrow> split_on c (a @ c # b) = a # split_on c b"
  by (induction a) auto

lemma rsplit_once_Some: "rsplit_once c s = Some (a, b) \<longleftrightarrow> s = a @ c # b \<and> c \<notin> set b"
proof -
  have "rsplit_once c s = Some (a, b) \<longleftrightarrow> split_once c (rev s) = Some (rev b, rev a)"
    unfolding rsplit_once_def by (cases "split_once c (rev s)") auto
  also have "\<dots> \<longleftrightarrow> rev s = rev b @ c # rev a \<and> c \<notin> set b"
    by (simp add: split_once_Some)
  also have "\<dots> \<longleftrightarrow> s = a @ c # b \<and> c \<notin> set b"
    by (metis append.assoc append_Cons append_Nil rev.simps(2) rev_append rev_rev_ident)
  finally show ?thesis .
qed

lemma split_on_not_Nil: "split_on c s \<noteq> []"
  by (cases s) (auto split: list.split)

lemma split_on_append: "split_on c (a @ c # b) = split_on c a @ split_on c b"
  by (induction a) (auto simp: split_on_not_Nil split: list.split)

lemma split_on_no_sep: "p \<in> set (split_on c s) \<Longrightarrow> c \<notin> set p"
  by (induction s arbitrary: p) (auto split: list.splits if_splits)

subsection \<open>ASCII case\<close>

definition char_lower :: "char \<Rightarrow> char" where
  "char_lower c =
     (let n = of_char c :: nat in if 65 \<le> n \<and> n \<le> 90 then char_of (n + 32) else c)"

definition u8_lower :: "u8 \<Rightarrow> u8" where
  "u8_lower b = (if 65 \<le> b \<and> b \<le> 90 then b + 32 else b)"

definition to_ascii_lowercase :: "string \<Rightarrow> string" where
  "to_ascii_lowercase s = map char_lower s"

definition eq_ignore_ascii_case :: "string \<Rightarrow> string \<Rightarrow> bool" where
  "eq_ignore_ascii_case a b \<longleftrightarrow> map char_lower a = map char_lower b"

definition eq_ignore_ascii_case_u8 :: "bytes \<Rightarrow> bytes \<Rightarrow> bool" where
  "eq_ignore_ascii_case_u8 a b \<longleftrightarrow> map u8_lower a = map u8_lower b"

definition is_ascii_uppercase :: "char \<Rightarrow> bool" where
  "is_ascii_uppercase c \<longleftrightarrow> (let n = of_char c :: nat in 65 \<le> n \<and> n \<le> 90)"

definition is_ascii_alphabetic :: "char \<Rightarrow> bool" where
  "is_ascii_alphabetic c \<longleftrightarrow>
     (let n = of_char c :: nat in (65 \<le> n \<and> n \<le> 90) \<or> (97 \<le> n \<and> n \<le> 122))"

definition is_ascii_digit :: "char \<Rightarrow> bool" where
  "is_ascii_digit c \<longleftrightarrow> (let n = of_char c :: nat in 48 \<le> n \<and> n \<le> 57)"

definition is_ascii_alphanumeric :: "char \<Rightarrow> bool" where
  "is_ascii_alphanumeric c \<longleftrightarrow> is_ascii_alphabetic c \<or> is_ascii_digit c"

definition is_ascii_hexdigit :: "char \<Rightarrow> bool" where
  "is_ascii_hexdigit c \<longleftrightarrow>
     (let n = of_char c :: nat
      in (48 \<le> n \<and> n \<le> 57) \<or> (65 \<le> n \<and> n \<le> 70) \<or> (97 \<le> n \<and> n \<le> 102))"

lemma of_char_char_lower:
  "(of_char (char_lower c) :: nat) =
     (if 65 \<le> (of_char c :: nat) \<and> (of_char c :: nat) \<le> 90 then of_char c + 32 else of_char c)"
  by (simp add: char_lower_def Let_def of_char_of)

lemma char_lower_idem [simp]: "char_lower (char_lower c) = char_lower c"
proof -
  have "\<not> (65 \<le> (of_char (char_lower c) :: nat) \<and> (of_char (char_lower c) :: nat) \<le> 90)"
    by (auto simp: of_char_char_lower)
  then show ?thesis by (simp only: char_lower_def [of "char_lower c"] Let_def if_False)
qed

lemma char_lower_id: "\<not> is_ascii_uppercase c \<Longrightarrow> char_lower c = c"
  by (simp only: char_lower_def is_ascii_uppercase_def Let_def if_False)

lemma to_ascii_lowercase_idem [simp]: "to_ascii_lowercase (to_ascii_lowercase s) = to_ascii_lowercase s"
  by (simp add: to_ascii_lowercase_def comp_def)

lemma to_ascii_lowercase_id:
  "(\<forall>c\<in>set s. \<not> is_ascii_uppercase c) \<Longrightarrow> to_ascii_lowercase s = s"
  by (simp add: to_ascii_lowercase_def char_lower_id map_idI)

lemma to_ascii_lowercase_Nil_iff [simp]: "to_ascii_lowercase s = [] \<longleftrightarrow> s = []"
  by (simp add: to_ascii_lowercase_def)

subsection \<open>Trimming\<close>

text \<open>The UTF-8 encodings of the characters with the Unicode property White_Space.\<close>

definition white_space :: "string list" where
  "white_space =
     map (map (char_of :: nat \<Rightarrow> char))
       ([[9], [10], [11], [12], [13], [32], [194, 133], [194, 160], [225, 154, 128]]
        @ map (\<lambda>n. [226, 128, 128 + n]) [0..<11]
        @ [[226, 128, 168], [226, 128, 169], [226, 128, 175], [226, 129, 159], [227, 128, 128]])"

function strip_any :: "string list \<Rightarrow> string \<Rightarrow> string" where
  "strip_any ws s =
     (case find (\<lambda>w. w \<noteq> [] \<and> starts_with s w) ws of
        None \<Rightarrow> s | Some w \<Rightarrow> strip_any ws (drop (length w) s))"
  by pat_completeness auto
termination
proof (relation "measure (\<lambda>(ws, s). length s)")
  fix ws :: "string list" and s w
  assume "find (\<lambda>w. w \<noteq> [] \<and> starts_with s w) ws = Some w"
  then have "w \<noteq> []" "starts_with s w" by (auto simp: find_Some_iff)
  then have "length w \<le> length s" "0 < length w" by (auto simp: starts_with_iff)
  then show "((ws, drop (length w) s), (ws, s)) \<in> measure (\<lambda>(ws, s). length s)"
    by (simp del: length_greater_0_conv)
qed simp

declare strip_any.simps [simp del]

definition trim_start :: "string \<Rightarrow> string" where
  "trim_start s = strip_any white_space s"

definition trim_end :: "string \<Rightarrow> string" where
  "trim_end s = rev (strip_any (map rev white_space) (rev s))"

definition trim :: "string \<Rightarrow> string" where
  "trim s = trim_end (trim_start s)"

definition trim_start_matches :: "char \<Rightarrow> string \<Rightarrow> string" where
  "trim_start_matches c s = dropWhile (\<lambda>x. x = c) s"

definition trim_end_matches :: "char \<Rightarrow> string \<Rightarrow> string" where
  "trim_end_matches c s = rev (dropWhile (\<lambda>x. x = c) (rev s))"

definition trim_matches :: "char \<Rightarrow> string \<Rightarrow> string" where
  "trim_matches c s = trim_end_matches c (trim_start_matches c s)"

lemma strip_any_suffix: "\<exists>p. s = p @ strip_any ws s"
proof (induction ws s rule: strip_any.induct)
  case (1 ws s)
  show ?case
  proof (cases "find (\<lambda>w. w \<noteq> [] \<and> starts_with s w) ws")
    case None
    then show ?thesis by (simp add: strip_any.simps [of ws s])
  next
    case (Some w)
    with 1 obtain p where "drop (length w) s = p @ strip_any ws (drop (length w) s)" by blast
    then have "s = (take (length w) s @ p) @ strip_any ws (drop (length w) s)"
      by (metis append.assoc append_take_drop_id)
    moreover have "strip_any ws s = strip_any ws (drop (length w) s)"
      using Some by (simp add: strip_any.simps [of ws s])
    ultimately show ?thesis by metis
  qed
qed

lemma strip_any_id: "\<forall>w\<in>set ws. w \<noteq> [] \<longrightarrow> \<not> starts_with s w \<Longrightarrow> strip_any ws s = s"
  by (subst strip_any.simps) (auto simp: find_None_iff split: option.split dest!: find_Some_iff [THEN iffD1])

definition printable :: "char \<Rightarrow> bool" where
  "printable c \<longleftrightarrow> 33 \<le> (of_char c :: nat) \<and> (of_char c :: nat) < 127"

lemma white_space_ends:
  assumes "w \<in> set white_space"
  shows "w \<noteq> [] \<and> \<not> printable (hd w) \<and> \<not> printable (last w)"
proof -
  have "list_all (\<lambda>w. w \<noteq> [] \<and> \<not> printable (hd w) \<and> \<not> printable (last w)) white_space" by code_simp
  then show ?thesis using assms by (simp add: list_all_iff)
qed

lemma starts_with_hd: "starts_with s w \<Longrightarrow> w \<noteq> [] \<Longrightarrow> s \<noteq> [] \<and> hd s = hd w"
  by (auto simp: starts_with_iff)

lemma trim_id: "s \<noteq> [] \<Longrightarrow> printable (hd s) \<Longrightarrow> printable (last s) \<Longrightarrow> trim s = s"
proof -
  assume s: "s \<noteq> []" "printable (hd s)" "printable (last s)"
  have "\<not> starts_with s w" if "w \<in> set white_space" for w
    using s white_space_ends [OF that] starts_with_hd [of s w] by auto
  then have "strip_any white_space s = s" by (intro strip_any_id) blast
  moreover have "\<not> starts_with (rev s) v" if "v \<in> set (map rev white_space)" "v \<noteq> []" for v
    using that s white_space_ends starts_with_hd [of "rev s" v] by (auto simp: hd_rev)
  then have "strip_any (map rev white_space) (rev s) = rev s"
    by (intro strip_any_id) blast
  ultimately show ?thesis by (simp add: trim_def trim_start_def trim_end_def)
qed

lemma trim_start_matches_idem [simp]:
  "trim_start_matches c (trim_start_matches c s) = trim_start_matches c s"
  by (simp add: trim_start_matches_def)

subsection \<open>Integers as text\<close>

definition digit_val :: "char \<Rightarrow> nat option" where
  "digit_val c =
     (let n = of_char c :: nat in if 48 \<le> n \<and> n \<le> 57 then Some (n - 48) else None)"

fun parse_digits :: "nat \<Rightarrow> string \<Rightarrow> nat option" where
  "parse_digits acc [] = Some acc"
| "parse_digits acc (c # cs) =
     (case digit_val c of None \<Rightarrow> None | Some d \<Rightarrow> parse_digits (acc * 10 + d) cs)"

text \<open>
  \<open>str::parse\<close> of an unsigned type with largest value \<open>m\<close>: an optional \<open>+\<close>, then at least
  one digit and nothing else, and no overflow.
\<close>

definition parse_unsigned :: "nat \<Rightarrow> string \<Rightarrow> nat option" where
  "parse_unsigned m s =
     (let ds = (case s of [] \<Rightarrow> [] | c # cs \<Rightarrow> if c = CHR ''+'' then cs else s)
      in if ds = [] then None
         else case parse_digits 0 ds of
                None \<Rightarrow> None
              | Some n \<Rightarrow> if n \<le> m then Some n else None)"

definition parse_u64 :: "string \<Rightarrow> u64 option" where
  "parse_u64 s = map_option of_nat (parse_unsigned (2 ^ 64 - 1) s)"

definition parse_u32 :: "string \<Rightarrow> nat option" where
  "parse_u32 s = parse_unsigned (2 ^ 32 - 1) s"

definition parse_usize :: "string \<Rightarrow> usize option" where
  "parse_usize s = parse_unsigned (2 ^ 64 - 1) s"

definition parse_i64 :: "string \<Rightarrow> i64 option" where
  "parse_i64 s =
     (case s of
        [] \<Rightarrow> None
      | c # cs \<Rightarrow>
          (if c = CHR ''-'' then
             (if cs = [] then None
              else case parse_digits 0 cs of
                     None \<Rightarrow> None
                   | Some n \<Rightarrow> if in_i64 (- int n) then Some (- int n) else None)
           else map_option int (parse_unsigned (2 ^ 63 - 1) s)))"

definition digit_char :: "nat \<Rightarrow> char" where
  "digit_char n = char_of (48 + n)"

fun nat_str :: "nat \<Rightarrow> string" where
  "nat_str n = (if n < 10 then [digit_char n] else nat_str (n div 10) @ [digit_char (n mod 10)])"

declare nat_str.simps [simp del]

definition int_str :: "int \<Rightarrow> string" where
  "int_str i = (if i < 0 then CHR ''-'' # nat_str (nat (- i)) else nat_str (nat i))"

lemma of_char_digit_char [simp]: "n < 10 \<Longrightarrow> (of_char (digit_char n) :: nat) = 48 + n"
  by (simp add: digit_char_def of_char_of)

lemma digit_val_digit_char [simp]: "n < 10 \<Longrightarrow> digit_val (digit_char n) = Some n"
  by (simp add: digit_val_def)

lemma parse_digits_append:
  "parse_digits acc (s @ t) =
     (case parse_digits acc s of None \<Rightarrow> None | Some n \<Rightarrow> parse_digits n t)"
  by (induction s arbitrary: acc) (auto split: option.splits)

lemma parse_digits_nat_str: "parse_digits 0 (nat_str n) = Some n"
proof (induction n rule: nat_str.induct)
  case (1 n)
  show ?case
  proof (cases "n < 10")
    case True
    then show ?thesis by (simp add: nat_str.simps [of n])
  next
    case False
    with 1 show ?thesis by (simp add: nat_str.simps [of n] parse_digits_append)
  qed
qed

lemma nat_str_digits: "c \<in> set (nat_str n) \<Longrightarrow> is_ascii_digit c"
proof (induction n rule: nat_str.induct)
  case (1 n)
  have ex: "is_ascii_digit (digit_char d)" if "d < 10" for d
    using that by (simp add: is_ascii_digit_def)
  show ?case
  proof (cases "n < 10")
    case True
    with 1 ex [OF True] show ?thesis by (simp add: nat_str.simps [of n])
  next
    case False
    then show ?thesis using 1 ex [of "n mod 10"] by (auto simp: nat_str.simps [of n])
  qed
qed

lemma nat_str_not_Nil [simp]: "nat_str n \<noteq> []"
  by (simp add: nat_str.simps [of n])

lemma is_ascii_digit_neq: "is_ascii_digit c \<Longrightarrow> c \<noteq> CHR ''+'' \<and> c \<noteq> CHR ''-'' \<and> c \<noteq> CHR ''.''"
  by (auto simp: is_ascii_digit_def)

lemma length_nat_str: "n < 10 ^ Suc k \<Longrightarrow> length (nat_str n) \<le> Suc k"
proof (induction k arbitrary: n)
  case (Suc k)
  show ?case
  proof (cases "n < 10")
    case False
    have "n div 10 < 10 ^ Suc k" using Suc.prems by (simp add: less_mult_imp_div_less mult.commute)
    with Suc.IH False show ?thesis by (simp add: nat_str.simps [of n])
  qed (simp add: nat_str.simps [of n])
qed (simp add: nat_str.simps)

lemma nat_str_hd: "\<exists>c cs. nat_str n = c # cs \<and> is_ascii_digit c"
  using nat_str_digits [of _ n] by (cases "nat_str n") auto

lemma parse_unsigned_nat_str [simp]: "n \<le> m \<Longrightarrow> parse_unsigned m (nat_str n) = Some n"
proof -
  assume "n \<le> m"
  moreover obtain c cs where "nat_str n = c # cs" "c \<noteq> CHR ''+''"
    using nat_str_hd [of n] is_ascii_digit_neq by auto
  moreover have "parse_digits 0 (nat_str n) = Some n" by (rule parse_digits_nat_str)
  ultimately show ?thesis by (simp add: parse_unsigned_def)
qed

lemma parse_u64_nat_str [simp]: "parse_u64 (nat_str (unat w)) = Some w"
proof -
  have "unat w \<le> 2 ^ 64 - 1" using u64_less [of w] by simp
  then show ?thesis by (simp add: parse_u64_def)
qed

lemma parse_i64_int_str [simp]: "in_i64 i \<Longrightarrow> parse_i64 (int_str i) = Some i"
proof -
  assume i: "in_i64 i"
  show ?thesis
  proof (cases "i < 0")
    case True
    have "parse_digits 0 (nat_str (nat (- i))) = Some (nat (- i))" by (rule parse_digits_nat_str)
    then show ?thesis using i True by (simp add: int_str_def parse_i64_def)
  next
    case False
    moreover obtain c cs where "nat_str (nat i) = c # cs" "c \<noteq> CHR ''-''"
      using nat_str_hd [of "nat i"] is_ascii_digit_neq by auto
    moreover have "nat i \<le> 2 ^ 63 - 1" using i by (auto simp: in_i64_def i64_max_def nat_le_iff)
    then have "parse_unsigned (2 ^ 63 - 1) (nat_str (nat i)) = Some (nat i)" by simp
    ultimately show ?thesis by (simp add: int_str_def parse_i64_def)
  qed
qed

lemma nat_str_inject [simp]: "nat_str m = nat_str n \<longleftrightarrow> m = n"
  by (metis option.inject parse_digits_nat_str)

lemma nat_str_no_minus: "nat_str n \<noteq> CHR ''-'' # s"
  using nat_str_hd [of n] is_ascii_digit_neq [of "CHR ''-''"] by fastforce

lemma int_str_inject [simp]: "int_str i = int_str j \<longleftrightarrow> i = j"
  using nat_str_no_minus [of "nat i"] nat_str_no_minus [of "nat j"]
  by (auto simp: int_str_def eq_commute [of "CHR ''-'' # _"])

lemma parse_unsigned_bound: "parse_unsigned m s = Some n \<Longrightarrow> n \<le> m"
  by (auto simp: parse_unsigned_def Let_def split: if_splits option.splits)

lemma parse_i64_range: "parse_i64 s = Some i \<Longrightarrow> in_i64 i"
  by (auto simp: parse_i64_def in_i64_def i64_min_def i64_max_def
      split: list.splits if_splits option.splits dest: parse_unsigned_bound)

subsection \<open>UTF-8\<close>

text \<open>
  \<open>utf8_next bs\<close> looks at the start of a non-empty byte string: \<open>(True, n)\<close> when its first
  \<open>n\<close> bytes encode one character, \<open>(False, n)\<close> when its first \<open>n\<close> bytes are the maximal
  ill-formed prefix that \<open>from_utf8_lossy\<close> replaces by one U+FFFD.
\<close>

definition cont_byte :: "u8 \<Rightarrow> bool" where
  "cont_byte b \<longleftrightarrow> 128 \<le> b \<and> b \<le> 191"

definition second3 :: "u8 \<Rightarrow> u8 \<Rightarrow> bool" where
  "second3 b c \<longleftrightarrow>
     (if b = 224 then 160 \<le> c \<and> c \<le> 191
      else if b = 237 then 128 \<le> c \<and> c \<le> 159 else cont_byte c)"

definition second4 :: "u8 \<Rightarrow> u8 \<Rightarrow> bool" where
  "second4 b c \<longleftrightarrow>
     (if b = 240 then 144 \<le> c \<and> c \<le> 191
      else if b = 244 then 128 \<le> c \<and> c \<le> 143 else cont_byte c)"

definition safe_get :: "bytes \<Rightarrow> nat \<Rightarrow> u8" where
  "safe_get bs i = (if i < length bs then bs ! i else 0)"

definition utf8_next :: "bytes \<Rightarrow> bool \<times> nat" where
  "utf8_next bs =
     (let b = safe_get bs 0; g = safe_get bs in
      if b < 128 then (True, 1)
      else if 194 \<le> b \<and> b \<le> 223 then (if cont_byte (g 1) then (True, 2) else (False, 1))
      else if 224 \<le> b \<and> b \<le> 239 then
        (if second3 b (g 1) then (if cont_byte (g 2) then (True, 3) else (False, 2))
         else (False, 1))
      else if 240 \<le> b \<and> b \<le> 244 then
        (if second4 b (g 1) then
           (if cont_byte (g 2) then (if cont_byte (g 3) then (True, 4) else (False, 3))
            else (False, 2))
         else (False, 1))
      else (False, 1))"

lemma utf8_next_pos: "utf8_next bs = (ok, n) \<Longrightarrow> 0 < n"
  by (auto simp: utf8_next_def Let_def split: if_splits)

function lossy :: "bytes \<Rightarrow> bytes" where
  "lossy bs =
     (if bs = [] then []
      else case utf8_next bs of
             (ok, n) \<Rightarrow> (if ok then take n bs else [239, 191, 189]) @ lossy (drop n bs))"
  by pat_completeness auto
termination
  by (relation "measure length") (auto dest!: utf8_next_pos [OF sym])

function utf8_valid :: "bytes \<Rightarrow> bool" where
  "utf8_valid bs =
     (if bs = [] then True
      else case utf8_next bs of (ok, n) \<Rightarrow> ok \<and> utf8_valid (drop n bs))"
  by pat_completeness auto
termination
  by (relation "measure length") (auto dest!: utf8_next_pos [OF sym])

declare lossy.simps [simp del] utf8_valid.simps [simp del]

definition from_utf8_lossy :: "bytes \<Rightarrow> string" where
  "from_utf8_lossy bs = str_of_bytes (lossy bs)"

definition from_utf8 :: "bytes \<Rightarrow> string option" where
  "from_utf8 bs = (if utf8_valid bs then Some (str_of_bytes bs) else None)"

lemma lossy_valid_id: "utf8_valid bs \<Longrightarrow> lossy bs = bs"
proof (induction bs rule: utf8_valid.induct)
  case (1 bs)
  show ?case
  proof (cases "bs = []")
    case False
    obtain ok n where n: "utf8_next bs = (ok, n)" by fastforce
    with False "1.prems" have "ok" "utf8_valid (drop n bs)"
      by (simp_all add: utf8_valid.simps [of bs])
    with "1.IH" [OF False n [symmetric]] False n show ?thesis by (simp add: lossy.simps [of bs])
  qed (simp add: lossy.simps)
qed

lemma utf8_next_length: "bs \<noteq> [] \<Longrightarrow> utf8_next bs = (True, n) \<Longrightarrow> n \<le> length bs"
  by (auto simp: utf8_next_def Let_def safe_get_def cont_byte_def second3_def second4_def
      Suc_le_eq split: if_splits)

text \<open>What \<open>utf8_next\<close> accepts does not depend on the bytes after it.\<close>

lemma utf8_next_take:
  assumes "bs \<noteq> []" and acc: "utf8_next bs = (True, n)"
  shows "utf8_next (take n bs @ r) = (True, n)"
proof -
  have n: "0 < n" "n \<le> length bs"
    using utf8_next_pos [OF acc] utf8_next_length [OF assms] by simp_all
  have k: "i < n \<Longrightarrow> safe_get (take n bs @ r) i = safe_get bs i" for i
    using n by (simp add: safe_get_def nth_append)
  from acc have "n = 1 \<or> n = 2 \<or> n = 3 \<or> n = 4"
    by (auto simp: utf8_next_def Let_def split: if_splits)
  then show ?thesis
    using acc n(1) k [of 0] k [of 1] k [of 2] k [of 3] unfolding utf8_next_def Let_def
    by (elim disjE) (simp_all split: if_splits del: One_nat_def, blast?)
qed

lemma utf8_next_ascii: "b < 128 \<Longrightarrow> utf8_next (b # r) = (True, 1)"
  by (simp add: utf8_next_def safe_get_def)

lemma utf8_valid_ascii: "\<forall>b\<in>set bs. b < 128 \<Longrightarrow> utf8_valid bs"
proof (induction bs)
  case (Cons b bs)
  then show ?case by (simp add: utf8_valid.simps [of "b # bs"] utf8_next_ascii)
qed (simp add: utf8_valid.simps)

theorem lossy_valid: "utf8_valid (lossy bs)"
proof (induction bs rule: lossy.induct)
  case (1 bs)
  show ?case
  proof (cases "bs = []")
    case False
    obtain ok n where n: "utf8_next bs = (ok, n)" by fastforce
    have IH: "utf8_valid (lossy (drop n bs))" using "1.IH" [OF False n [symmetric]] .
    show ?thesis
    proof (cases ok)
      case True
      with n have n': "utf8_next bs = (True, n)" by simp
      have "utf8_next (take n bs @ lossy (drop n bs)) = (True, n)"
        by (rule utf8_next_take [OF False n'])
      moreover have "drop n (take n bs @ lossy (drop n bs)) = lossy (drop n bs)"
        using utf8_next_length [OF False n'] by simp
      moreover have "lossy bs = take n bs @ lossy (drop n bs)"
        using False n' by (simp add: lossy.simps [of bs])
      ultimately show ?thesis
        using IH utf8_valid.simps [of "lossy bs"] by (simp del: drop_append)
    next
      case notok: False
      have "lossy bs = [239, 191, 189] @ lossy (drop n bs)"
        using False n notok by (simp add: lossy.simps [of bs])
      moreover have "utf8_next (239 # 191 # 189 # r) = (True, 3)" for r
        by (simp add: utf8_next_def safe_get_def second3_def cont_byte_def)
      ultimately show ?thesis using IH
        by (simp add: utf8_valid.simps [of "239 # 191 # 189 # lossy (drop n bs)"])
    qed
  qed (simp add: lossy.simps utf8_valid.simps)
qed

lemma utf8_valid_Nil [simp]: "utf8_valid []"
  by (simp add: utf8_valid.simps)

lemma utf8_valid_Cons_ascii [simp]: "b < 128 \<Longrightarrow> utf8_valid (b # r) \<longleftrightarrow> utf8_valid r"
  by (simp add: utf8_valid.simps [of "b # r"] utf8_next_ascii)

lemma utf8_valid_append: "utf8_valid a \<Longrightarrow> utf8_valid b \<Longrightarrow> utf8_valid (a @ b)"
proof (induction a rule: utf8_valid.induct)
  case (1 bs)
  show ?case
  proof (cases "bs = []")
    case False
    obtain ok n where n: "utf8_next bs = (ok, n)" by fastforce
    with False "1.prems" have ok: "ok" "utf8_valid (drop n bs)"
      by (simp_all add: utf8_valid.simps [of bs])
    have len: "n \<le> length bs" using utf8_next_length False n ok(1) by simp
    have "utf8_next (take n bs @ drop n bs @ b) = (True, n)"
      using n ok(1) by (intro utf8_next_take [OF False]) simp
    then have "utf8_next (bs @ b) = (True, n)" by (simp only: append_assoc [symmetric] append_take_drop_id)
    moreover have "utf8_valid (drop n bs @ b)"
      using "1.IH" [OF False n [symmetric]] ok "1.prems"(2) by simp
    ultimately show ?thesis using False len by (simp add: utf8_valid.simps [of "bs @ b"])
  qed (use "1.prems" in simp)
qed

text \<open>ASCII case mapping never touches a byte of a multi-byte character.\<close>

lemma u8_lower_high: "128 \<le> b \<Longrightarrow> u8_lower b = b" and u8_lower_low: "b < 128 \<Longrightarrow> u8_lower b < 128"
proof -
  show "128 \<le> b \<Longrightarrow> u8_lower b = b"
    by (auto simp: u8_lower_def word_le_nat_alt word_less_nat_alt)
  show "b < 128 \<Longrightarrow> u8_lower b < 128"
    by (auto simp: u8_lower_def word_le_nat_alt word_less_nat_alt unat_word_ariths(1))
qed

lemma utf8_next_lower: "utf8_next (map u8_lower bs) = utf8_next bs"
proof -
  have g: "safe_get (map u8_lower bs) i = u8_lower (safe_get bs i)" for i
    by (simp add: safe_get_def u8_lower_def)
  have low: "\<not> cont_byte d \<and> \<not> second3 b d \<and> \<not> second4 b d" if "d < 128" for b d
    using that by (simp add: cont_byte_def second3_def second4_def word_le_nat_alt word_less_nat_alt)
  have same: "cont_byte (u8_lower d) = cont_byte d \<and> second3 b (u8_lower d) = second3 b d
      \<and> second4 b (u8_lower d) = second4 b d" for b d
  proof (cases "d < 128")
    case True
    then show ?thesis using low [of d b] low [OF u8_lower_low [of d], of b] by simp
  next
    case False
    then show ?thesis by (simp add: u8_lower_high)
  qed
  have c: "cont_byte (u8_lower d) = cont_byte d" and s3: "second3 b (u8_lower d) = second3 b d"
    and s4: "second4 b (u8_lower d) = second4 b d" for b d using same by simp_all
  show ?thesis
  proof (cases "safe_get bs 0 < 128")
    case True
    then show ?thesis using u8_lower_low by (simp add: utf8_next_def g)
  next
    case False
    then have "u8_lower (safe_get bs 0) = safe_get bs 0" by (simp add: u8_lower_high)
    then show ?thesis unfolding utf8_next_def Let_def g c s3 s4 by (simp add: s3 s4)
  qed
qed

lemma utf8_valid_lower: "utf8_valid bs \<Longrightarrow> utf8_valid (map u8_lower bs)"
proof (induction bs rule: utf8_valid.induct)
  case (1 bs)
  show ?case
  proof (cases "bs = []")
    case False
    obtain ok n where n: "utf8_next bs = (ok, n)" by fastforce
    with False "1.prems" have ok: "ok" "utf8_valid (drop n bs)"
      by (simp_all add: utf8_valid.simps [of bs])
    from "1.IH" [OF False n [symmetric]] ok have "utf8_valid (map u8_lower (drop n bs))" by simp
    then show ?thesis using False n ok
      by (simp add: utf8_valid.simps [of "map u8_lower bs"] utf8_next_lower drop_map)
  qed simp
qed

lemma of_char_char_lower_u8: "(of_char (char_lower c) :: u8) = u8_lower (of_char c)"
proof -
  have "unat (of_char (char_lower c) :: u8) = unat (u8_lower (of_char c))"
    using of_char_char_lower [of c] nat_of_char_less_256 [of c]
    by (auto simp: u8_lower_def word_le_nat_alt unat_word_ariths(1) split: if_splits)
  then show ?thesis by (simp add: word_unat_eq_iff)
qed

lemma as_bytes_lower: "as_bytes (to_ascii_lowercase s) = map u8_lower (as_bytes s)"
  by (simp add: as_bytes_def to_ascii_lowercase_def of_char_char_lower_u8)

lemma utf8_valid_trim_start:
  "(of_char c :: u8) < 128 \<Longrightarrow> utf8_valid (as_bytes s) \<Longrightarrow> utf8_valid (as_bytes (trim_start_matches c s))"
  by (induction s) (auto simp: as_bytes_def trim_start_matches_def)

end
