(* ===== verification/Base64url.thy ===== *)
theory Base64url
  imports Rust_Std
begin

text \<open>
  A concrete base64url coder without padding (RFC 4648, section 5) that refuses non-canonical
  trailing bits. The sources call the \<open>base64\<close> crate for this; the component models take its two
  functions as parameters. This theory is the concrete function those parameters are
  instantiated with, and proves the laws the components rely on.
\<close>

definition b64_digit :: "nat \<Rightarrow> char" where
  "b64_digit n =
     char_of (if n < 26 then 65 + n else if n < 52 then 71 + n
              else if n < 62 then n - 4 else if n = 62 then 45 else 95)"

definition b64_val :: "char \<Rightarrow> nat option" where
  "b64_val c =
     (let n = of_char c :: nat in
      if 65 \<le> n \<and> n \<le> 90 then Some (n - 65)
      else if 97 \<le> n \<and> n \<le> 122 then Some (n - 71)
      else if 48 \<le> n \<and> n \<le> 57 then Some (n + 4)
      else if n = 45 then Some 62 else if n = 95 then Some 63 else None)"

definition b64_char :: "char \<Rightarrow> bool" where
  "b64_char c \<longleftrightarrow> is_ascii_alphanumeric c \<or> c = CHR ''-'' \<or> c = CHR ''_''"

fun sextets :: "nat list \<Rightarrow> nat list" where
  "sextets [] = []"
| "sextets [a] = [a div 4, a mod 4 * 16]"
| "sextets [a, b] = [a div 4, a mod 4 * 16 + b div 16, b mod 16 * 4]"
| "sextets (a # b # c # r) =
     [a div 4, a mod 4 * 16 + b div 16, b mod 16 * 4 + c div 64, c mod 64] @ sextets r"

fun octets :: "nat list \<Rightarrow> nat list option" where
  "octets [] = Some []"
| "octets [w] = None"
| "octets [w, x] = (if x mod 16 = 0 then Some [w * 4 + x div 16] else None)"
| "octets [w, x, y] =
     (if y mod 4 = 0 then Some [w * 4 + x div 16, x mod 16 * 16 + y div 4] else None)"
| "octets (w # x # y # z # r) =
     (case octets r of
        None \<Rightarrow> None
      | Some t \<Rightarrow> Some ([w * 4 + x div 16, x mod 16 * 16 + y div 4, y mod 4 * 64 + z] @ t))"

definition base64url_encode :: "bytes \<Rightarrow> string" where
  "base64url_encode b = map b64_digit (sextets (map unat b))"

definition base64url_decode :: "string \<Rightarrow> bytes option" where
  "base64url_decode s =
     (if \<forall>c\<in>set s. b64_val c \<noteq> None
      then map_option (map of_nat) (octets (map (the \<circ> b64_val) s)) else None)"

definition base64url_decode_slice :: "string \<Rightarrow> nat \<Rightarrow> bytes option" where
  "base64url_decode_slice s n =
     (case base64url_decode s of
        None \<Rightarrow> None | Some b \<Rightarrow> if length b \<le> n then Some b else None)"

subsection \<open>Round trips\<close>

lemma of_char_b64_digit: "n < 64 \<Longrightarrow> (of_char (b64_digit n) :: nat) =
    (if n < 26 then 65 + n else if n < 52 then 71 + n else if n < 62 then n - 4
     else if n = 62 then 45 else 95)"
  by (simp add: b64_digit_def of_char_of)

lemma b64_val_digit [simp]: "n < 64 \<Longrightarrow> b64_val (b64_digit n) = Some n"
  by (auto simp: b64_val_def Let_def of_char_b64_digit)

lemma b64_digit_val: "b64_val c = Some n \<Longrightarrow> b64_digit n = c \<and> n < 64"
proof -
  assume *: "b64_val c = Some n"
  then have "(of_char (b64_digit n) :: nat) = of_char c" and "n < 64"
    by (auto simp: b64_val_def Let_def of_char_b64_digit simp del: of_char_eq_iff split: if_splits)
  then show ?thesis by simp
qed

lemma sextets_bound: "\<forall>b\<in>set bs. b < 256 \<Longrightarrow> n \<in> set (sextets bs) \<Longrightarrow> n < 64"
  by (induction bs rule: sextets.induct) auto

lemma octets_sextets: "\<forall>b\<in>set bs. b < 256 \<Longrightarrow> octets (sextets bs) = Some bs"
  by (induction bs rule: sextets.induct) auto

lemma sextets_octets: "\<forall>b\<in>set ss. b < 64 \<Longrightarrow> octets ss = Some bs \<Longrightarrow> sextets bs = ss"
proof (induction ss arbitrary: bs rule: octets.induct)
  case (3 w x)
  then show ?case by (auto split: if_splits)
next
  case (4 w x y)
  then show ?case by (auto split: if_splits)
next
  case (5 w x y z r)
  then show ?case by (auto split: option.splits)
qed auto

lemma octets_bound: "\<forall>b\<in>set ss. b < 64 \<Longrightarrow> octets ss = Some bs \<Longrightarrow> b \<in> set bs \<Longrightarrow> b < 256"
  by (induction ss arbitrary: bs b rule: octets.induct) (auto split: if_splits option.splits)

lemma base64url_roundtrip: "base64url_decode (base64url_encode b) = Some b"
proof -
  let ?ss = "sextets (map unat b)"
  have small: "n < 64" if "n \<in> set ?ss" for n
    using that sextets_bound [of "map unat b"] by auto
  then have "\<forall>c\<in>set (map b64_digit ?ss). b64_val c \<noteq> None" by auto
  moreover have "map (the \<circ> b64_val) (map b64_digit ?ss) = ?ss"
    using small by (simp add: map_idI)
  moreover have "octets ?ss = Some (map unat b)" by (rule octets_sextets) auto
  ultimately show ?thesis by (simp add: base64url_decode_def base64url_encode_def comp_def)
qed

lemma base64url_canonical: "base64url_decode s = Some b \<Longrightarrow> base64url_encode b = s"
proof -
  assume "base64url_decode s = Some b"
  then obtain os where all: "\<forall>c\<in>set s. b64_val c \<noteq> None"
    and os: "octets (map (the \<circ> b64_val) s) = Some os" and b: "b = map of_nat os"
    by (auto simp: base64url_decode_def split: if_splits)
  have small: "n < 64" if "n \<in> set (map (the \<circ> b64_val) s)" for n
    using that all b64_digit_val by fastforce
  have "o' < 256" if "o' \<in> set os" for o' using octets_bound [OF _ os that] small by blast
  then have "map unat b = os" by (simp add: b unat_of_nat map_idI)
  then have "sextets (map unat b) = map (the \<circ> b64_val) s"
    using sextets_octets [OF _ os] small by blast
  moreover have "map (b64_digit \<circ> (the \<circ> b64_val)) s = s"
    using all b64_digit_val by (intro map_idI) fastforce
  ultimately show ?thesis by (simp add: base64url_encode_def comp_def)
qed

lemma b64_char_digit: "n < 64 \<Longrightarrow> b64_char (b64_digit n)"
proof -
  assume n: "n < 64"
  have eq: "c = CHR ''-'' \<longleftrightarrow> (of_char c :: nat) = 45" "c = CHR ''_'' \<longleftrightarrow> (of_char c :: nat) = 95" for c
    using of_char_eq_iff [of c "CHR ''-''", where 'a = nat] of_char_eq_iff [of c "CHR ''_''", where 'a = nat]
    by simp_all
  show ?thesis using n
    by (auto simp: b64_char_def eq is_ascii_alphanumeric_def is_ascii_alphabetic_def
        is_ascii_digit_def Let_def of_char_b64_digit)
qed

lemma base64url_alphabet: "c \<in> set (base64url_encode b) \<Longrightarrow> b64_char c"
  using sextets_bound [of "map unat b"] by (auto simp: base64url_encode_def intro: b64_char_digit)

lemma length_sextets: "length (sextets bs) = (4 * length bs + 2) div 3"
  by (induction bs rule: sextets.induct) auto

lemma length_base64url_encode: "length (base64url_encode b) = (4 * length b + 2) div 3"
  by (simp add: base64url_encode_def length_sextets)

lemma b64_char_not_dot: "b64_char c \<Longrightarrow> c \<noteq> CHR ''.''"
  by (auto simp: b64_char_def is_ascii_alphanumeric_def is_ascii_alphabetic_def is_ascii_digit_def)

lemma b64_char_ascii: "b64_char c \<Longrightarrow> (of_char c :: u8) < 128"
  by (auto simp: b64_char_def is_ascii_alphanumeric_def is_ascii_alphabetic_def is_ascii_digit_def
      Let_def word_less_nat_alt)

end
