(* ===== verification/Wire.thy ===== *)
theory Wire
  imports Base64url
begin

text \<open>
  The data that travels on the wire, and the third-party code the sources call, as one record of
  functions. A function of another crate has no definition here: every model that uses it takes
  the record \<open>externals\<close> as its first argument, and a theorem that relies on documented
  behaviour of such a function names it as a hypothesis (\<open>base64_laws\<close>, \<open>digest_laws\<close>,
  \<open>serde_laws\<close>, \<open>json_laws\<close>).

  The serialisers and deserialisers that \<open>serde\<close> derives for a struct are functions of that
  record, at the struct's own type.
\<close>

subsection \<open>Structures with derived serialisers\<close>

text \<open>\<open>context::Assurance\<close>, \<open>clearance::Clearance\<close>, \<open>nojs::Grant\<close>, \<open>pow::Challenge\<close> and the
  \<open>Submission\<close> of \<open>engine/pow.rs\<close>. Field names carry a prefix, since a HOL field is a global
  name.\<close>

datatype assurance = Pow u64 | NoJs i64

record clearance =
  cl_version :: u8
  cl_pk :: string
  cl_context :: string
  cl_assurance :: assurance
  cl_iat :: i64
  cl_exp :: i64

record grant =
  gr_path :: string
  gr_context :: string
  gr_id :: string
  gr_version :: u8
  gr_iat :: i64
  gr_delay :: i64

record challenge =
  ch_version :: u8
  ch_salt :: string
  ch_exp :: i64
  ch_difficulty :: u64
  ch_token :: string

record submission =
  sb_version :: u8
  sb_signature :: string
  sb_salt :: string
  sb_exp :: i64
  sb_token :: string
  sb_nonce :: u64
  sb_pubkey :: string
  sb_difficulty :: u64

subsection \<open>Third-party functions\<close>

record externals =
  \<comment> \<open>\<open>sha2::Sha256\<close>, \<open>hmac::Hmac<Sha256>\<close> and \<open>ring::hmac\<close> (key, message)\<close>
  sha256 :: "bytes \<Rightarrow> bytes"
  hmac_sha256 :: "bytes \<Rightarrow> bytes \<Rightarrow> bytes"
  \<comment> \<open>\<open>base64::URL_SAFE_NO_PAD\<close>: \<open>encode\<close>, \<open>decode\<close>, \<open>decode_slice\<close> (text, capacity)\<close>
  b64_encode :: "bytes \<Rightarrow> string"
  b64_decode :: "string \<Rightarrow> bytes option"
  b64_decode_slice :: "string \<Rightarrow> nat \<Rightarrow> bytes option"
  \<comment> \<open>\<open>VerifyingKey::from_sec1_bytes\<close> then \<open>to_encoded_point(false)\<close>; \<open>Signature::from_slice\<close>;
      \<open>VerifyingKey::verify\<close>; \<open>ring::signature::UnparsedPublicKey::verify\<close>\<close>
  p256_from_sec1 :: "bytes \<Rightarrow> bytes option"
  p256_signature :: "bytes \<Rightarrow> bytes option"
  p256_verify :: "bytes \<Rightarrow> bytes \<Rightarrow> bytes \<Rightarrow> bool"
  ring_verify :: "bytes \<Rightarrow> bytes \<Rightarrow> bytes \<Rightarrow> bool"
  \<comment> \<open>\<open>serde_json\<close>: a string, a tuple of strings, the \<open>json!\<close> object of \<open>replay.rs\<close>\<close>
  json_str :: "string \<Rightarrow> string"
  json_tuple :: "string list \<Rightarrow> string"
  json_object :: "(string \<times> string) list \<Rightarrow> string"
  \<comment> \<open>\<open>serde_json\<close> at the types of this protocol\<close>
  ser_binding :: "string \<Rightarrow> string \<Rightarrow> i64 \<Rightarrow> u64 \<Rightarrow> string \<Rightarrow> string \<Rightarrow> bytes"
  ser_clearance :: "clearance \<Rightarrow> bytes"
  de_clearance :: "bytes \<Rightarrow> clearance option"
  ser_grant :: "grant \<Rightarrow> bytes"
  de_grant :: "bytes \<Rightarrow> grant option"
  ser_challenge :: "challenge \<Rightarrow> i64 \<Rightarrow> bytes"
  de_submission :: "bytes \<Rightarrow> submission option"
  de_feed :: "bytes \<Rightarrow> (string option \<times> string option) list option"

subsection \<open>What the sources rely on\<close>

definition base64_laws :: "externals \<Rightarrow> bool" where
  "base64_laws X \<longleftrightarrow>
     (\<forall>b. b64_decode X (b64_encode X b) = Some b) \<and>
     (\<forall>s b. b64_decode X s = Some b \<longrightarrow> b64_encode X b = s) \<and>
     (\<forall>b. \<forall>c\<in>set (b64_encode X b). b64_char c) \<and>
     (\<forall>b. length (b64_encode X b) = (4 * length b + 2) div 3) \<and>
     (\<forall>s n. b64_decode_slice X s n =
        (case b64_decode X s of
           None \<Rightarrow> None | Some b \<Rightarrow> if length b \<le> n then Some b else None))"

definition digest_laws :: "externals \<Rightarrow> bool" where
  "digest_laws X \<longleftrightarrow>
     (\<forall>m. length (sha256 X m) = 32) \<and> (\<forall>k m. length (hmac_sha256 X k m) = 32)"

text \<open>A value that Rust's types admit: text is UTF-8 and an \<open>i64\<close> is in range.\<close>

definition wf_str :: "string \<Rightarrow> bool" where
  "wf_str s \<longleftrightarrow> utf8_valid (as_bytes s)"

fun wf_assurance :: "assurance \<Rightarrow> bool" where
  "wf_assurance (Pow d) = True"
| "wf_assurance (NoJs d) = in_i64 d"

definition wf_clearance :: "clearance \<Rightarrow> bool" where
  "wf_clearance c \<longleftrightarrow>
     wf_str (cl_pk c) \<and> wf_str (cl_context c) \<and> wf_assurance (cl_assurance c) \<and>
     in_i64 (cl_iat c) \<and> in_i64 (cl_exp c)"

definition wf_grant :: "grant \<Rightarrow> bool" where
  "wf_grant g \<longleftrightarrow>
     wf_str (gr_path g) \<and> wf_str (gr_context g) \<and> wf_str (gr_id g) \<and>
     in_i64 (gr_iat g) \<and> in_i64 (gr_delay g)"

text \<open>Deserialising what was serialised gives the value back, and what is deserialised is a
  value of the type.\<close>

definition serde_laws :: "externals \<Rightarrow> bool" where
  "serde_laws X \<longleftrightarrow>
     (\<forall>c. wf_clearance c \<longrightarrow> de_clearance X (ser_clearance X c) = Some c) \<and>
     (\<forall>b c. de_clearance X b = Some c \<longrightarrow> wf_clearance c) \<and>
     (\<forall>g. wf_grant g \<longrightarrow> de_grant X (ser_grant X g) = Some g) \<and>
     (\<forall>b g. de_grant X b = Some g \<longrightarrow> wf_grant g)"

text \<open>JSON text: a tuple is the bracketed, comma-separated list of its strings, a string
  literal is self-delimiting and UTF-8 like its argument, and serialising is injective.\<close>

fun join_comma :: "string list \<Rightarrow> string" where
  "join_comma [] = []"
| "join_comma [s] = s"
| "join_comma (s # t # r) = s @ CHR '','' # join_comma (t # r)"

definition json_laws :: "externals \<Rightarrow> bool" where
  "json_laws X \<longleftrightarrow>
     (\<forall>xs. json_tuple X xs = CHR ''['' # join_comma (map (json_str X) xs) @ '']'') \<and>
     (\<forall>s t u v. json_str X s @ u = json_str X t @ v \<longrightarrow> s = t \<and> u = v) \<and>
     (\<forall>s. wf_str s \<longrightarrow> wf_str (json_str X s)) \<and>
     (\<forall>d s e n p c d' s' e' n' p' c'.
        ser_binding X d s e n p c = ser_binding X d' s' e' n' p' c' \<longrightarrow>
        d = d' \<and> s = s' \<and> e = e' \<and> n = n' \<and> p = p' \<and> c = c')"

subsection \<open>Consequences\<close>

lemma b64_decode_encode [simp]: "base64_laws X \<Longrightarrow> b64_decode X (b64_encode X b) = Some b"
  by (simp add: base64_laws_def)

lemma b64_encode_decode: "base64_laws X \<Longrightarrow> b64_decode X s = Some b \<Longrightarrow> b64_encode X b = s"
  by (simp add: base64_laws_def)

lemma b64_encode_inject [simp]:
  "base64_laws X \<Longrightarrow> b64_encode X a = b64_encode X b \<longleftrightarrow> a = b"
  by (metis b64_decode_encode option.inject)

lemma b64_encode_no_dot [simp]: "base64_laws X \<Longrightarrow> CHR ''.'' \<notin> set (b64_encode X b)"
  unfolding base64_laws_def using b64_char_not_dot by blast

lemma b64_length: "base64_laws X \<Longrightarrow> length (b64_encode X b) = (4 * length b + 2) div 3"
  by (simp add: base64_laws_def)

lemma b64_decode_slice_eq: "base64_laws X \<Longrightarrow> b64_decode_slice X s n =
    (case b64_decode X s of None \<Rightarrow> None | Some b \<Rightarrow> if length b \<le> n then Some b else None)"
  by (simp add: base64_laws_def)

lemma b64_decode_length:
  assumes "base64_laws X" "b64_decode X s = Some b"
  shows "length b = 3 * length s div 4"
  using b64_length [OF assms(1), of b] b64_encode_decode [OF assms] by simp

lemma b64_encode_wf_str: "base64_laws X \<Longrightarrow> wf_str (b64_encode X b)"
  unfolding wf_str_def
  by (rule utf8_valid_ascii) (auto simp: base64_laws_def as_bytes_def intro: b64_char_ascii)

lemma digest_length [simp]: "digest_laws X \<Longrightarrow> length (sha256 X m) = 32"
  "digest_laws X \<Longrightarrow> length (hmac_sha256 X k m) = 32"
  by (simp_all add: digest_laws_def)

lemma json_tuple_eq: "json_laws X \<Longrightarrow>
    json_tuple X xs = CHR ''['' # join_comma (map (json_str X) xs) @ '']''"
  by (simp add: json_laws_def)

lemma json_str_prefix_free:
  "json_laws X \<Longrightarrow> json_str X s @ u = json_str X t @ v \<Longrightarrow> s = t \<and> u = v"
  unfolding json_laws_def by blast

lemma json_str_wf: "json_laws X \<Longrightarrow> wf_str s \<Longrightarrow> wf_str (json_str X s)"
  by (simp add: json_laws_def)

lemma wf_str_append: "wf_str s \<Longrightarrow> wf_str t \<Longrightarrow> wf_str (s @ t)"
  by (simp add: wf_str_def utf8_valid_append)

lemma wf_str_Cons: "(of_char c :: u8) < 128 \<Longrightarrow> wf_str (c # s) \<longleftrightarrow> wf_str s"
  by (simp add: wf_str_def as_bytes_def)

lemma wf_str_Nil [simp]: "wf_str []"
  by (simp add: wf_str_def as_bytes_def)

lemma join_comma_inject:
  assumes "json_laws X" "length xs = length ys"
    and "join_comma (map (json_str X) xs) @ u = join_comma (map (json_str X) ys) @ v"
  shows "xs = ys \<and> u = v"
  using assms(2,3)
proof (induction xs ys rule: list_induct2)
  case (Cons x xs y ys)
  note free = json_str_prefix_free [OF assms(1)]
  show ?case
  proof (cases xs)
    case Nil
    with Cons.hyps have ys: "ys = []" by simp
    with Nil Cons.prems have "json_str X x @ u = json_str X y @ v" by simp
    from free [OF this] Nil ys show ?thesis by simp
  next
    case (Cons x' xs')
    with \<open>length xs = length ys\<close> obtain y' ys' where ys: "ys = y' # ys'" by (cases ys) auto
    let ?j = "\<lambda>zs. join_comma (map (json_str X) zs)"
    from Cons ys Cons.prems have "json_str X x @ CHR '','' # ?j xs @ u = json_str X y @ CHR '','' # ?j ys @ v"
      by simp
    from free [OF this] have "x = y" "?j xs @ u = ?j ys @ v" by simp_all
    with Cons.IH show ?thesis by simp
  qed
qed simp

lemma json_tuple_inject:
  "json_laws X \<Longrightarrow> length xs = length ys \<Longrightarrow> json_tuple X xs = json_tuple X ys \<longleftrightarrow> xs = ys"
  using join_comma_inject [of X xs ys "'']''" "'']''"] by (auto simp: json_tuple_eq)

end
