(* ===== verification/Sample.thy ===== *)
theory Sample
  imports Wire
begin

text \<open>
  One concrete value of the record \<open>externals\<close>, used to show that the laws of the third-party
  functions can hold together and to evaluate the models on concrete inputs. Base64url is the
  real coder of \<open>Base64url\<close>; the digests are checksums of the right width, and the serialisers
  write escaped fields instead of JSON. Nothing in the component theories depends on these
  choices.
\<close>

subsection \<open>Escaped fields\<close>

text \<open>Every byte is preceded by 1 and a field ends with 0, so fields are self-delimiting.\<close>

fun esc_field :: "bytes \<Rightarrow> bytes" where
  "esc_field [] = [0]"
| "esc_field (b # r) = 1 # b # esc_field r"

fun take_field :: "bytes \<Rightarrow> (bytes \<times> bytes) option" where
  "take_field [] = None"
| "take_field (t # r) =
     (if t = 0 then Some ([], r)
      else case r of
             [] \<Rightarrow> None
           | b # r' \<Rightarrow> (case take_field r' of None \<Rightarrow> None | Some (f, q) \<Rightarrow> Some (b # f, q)))"

fun take_fields :: "nat \<Rightarrow> bytes \<Rightarrow> bytes list option" where
  "take_fields 0 bs = (if bs = [] then Some [] else None)"
| "take_fields (Suc n) bs =
     (case take_field bs of
        None \<Rightarrow> None | Some (f, r) \<Rightarrow> map_option (Cons f) (take_fields n r))"

definition esc_fields :: "bytes list \<Rightarrow> bytes" where
  "esc_fields fs = concat (map esc_field fs)"

lemma take_field_esc [simp]: "take_field (esc_field f @ r) = Some (f, r)"
  by (induction f) auto

lemma take_fields_esc: "take_fields (length fs) (esc_fields fs) = Some fs"
  by (induction fs) (auto simp: esc_fields_def)

lemma esc_fields_inject: "length fs = length gs \<Longrightarrow> esc_fields fs = esc_fields gs \<longleftrightarrow> fs = gs"
  by (metis option.inject take_fields_esc)

subsection \<open>Serialisers\<close>

fun sample_assurance :: "assurance \<Rightarrow> bytes list" where
  "sample_assurance (Pow d) = [[0], as_bytes (nat_str (unat d))]"
| "sample_assurance (NoJs d) = [[1], as_bytes (int_str d)]"

definition sample_de_assurance :: "bytes \<Rightarrow> bytes \<Rightarrow> assurance option" where
  "sample_de_assurance k v =
     (if k = [0] then map_option Pow (parse_u64 (str_of_bytes v))
      else map_option NoJs (parse_i64 (str_of_bytes v)))"

definition sample_ser_clearance :: "clearance \<Rightarrow> bytes" where
  "sample_ser_clearance c =
     esc_fields ([[cl_version c], as_bytes (cl_pk c), as_bytes (cl_context c)]
       @ sample_assurance (cl_assurance c)
       @ [as_bytes (int_str (cl_iat c)), as_bytes (int_str (cl_exp c))])"

definition sample_de_clearance :: "bytes \<Rightarrow> clearance option" where
  "sample_de_clearance b =
     (case take_fields 7 b of
        Some [[v], p, x, k, a, i, e] \<Rightarrow>
          (case (sample_de_assurance k a, parse_i64 (str_of_bytes i), parse_i64 (str_of_bytes e)) of
             (Some a', Some i', Some e') \<Rightarrow>
               (let c = \<lparr>cl_version = v, cl_pk = str_of_bytes p, cl_context = str_of_bytes x,
                         cl_assurance = a', cl_iat = i', cl_exp = e'\<rparr>
                in if wf_clearance c then Some c else None)
           | _ \<Rightarrow> None)
      | _ \<Rightarrow> None)"

definition sample_ser_grant :: "grant \<Rightarrow> bytes" where
  "sample_ser_grant g =
     esc_fields [as_bytes (gr_path g), as_bytes (gr_context g), as_bytes (gr_id g),
       [gr_version g], as_bytes (int_str (gr_iat g)), as_bytes (int_str (gr_delay g))]"

definition sample_de_grant :: "bytes \<Rightarrow> grant option" where
  "sample_de_grant b =
     (case take_fields 6 b of
        Some [p, x, n, [v], i, d] \<Rightarrow>
          (case (parse_i64 (str_of_bytes i), parse_i64 (str_of_bytes d)) of
             (Some i', Some d') \<Rightarrow>
               (let g = \<lparr>gr_path = str_of_bytes p, gr_context = str_of_bytes x,
                         gr_id = str_of_bytes n, gr_version = v, gr_iat = i', gr_delay = d'\<rparr>
                in if wf_grant g then Some g else None)
           | _ \<Rightarrow> None)
      | _ \<Rightarrow> None)"

definition sample_ser_submission :: "submission \<Rightarrow> bytes" where
  "sample_ser_submission s =
     esc_fields [[sb_version s], as_bytes (sb_signature s), as_bytes (sb_salt s), as_bytes (int_str (sb_exp s)),
       as_bytes (sb_token s), as_bytes (nat_str (unat (sb_nonce s))), as_bytes (sb_pubkey s),
       as_bytes (nat_str (unat (sb_difficulty s)))]"

definition sample_de_submission :: "bytes \<Rightarrow> submission option" where
  "sample_de_submission b =
     (case take_fields 8 b of
        Some [[v], g, s, e, t, n, p, d] \<Rightarrow>
          (case (parse_i64 (str_of_bytes e), parse_u64 (str_of_bytes n), parse_u64 (str_of_bytes d)) of
             (Some e', Some n', Some d') \<Rightarrow>
               Some \<lparr>sb_version = v, sb_signature = str_of_bytes g, sb_salt = str_of_bytes s, sb_exp = e',
                     sb_token = str_of_bytes t, sb_nonce = n', sb_pubkey = str_of_bytes p, sb_difficulty = d'\<rparr>
           | _ \<Rightarrow> None)
      | _ \<Rightarrow> None)"

lemma take_fields_8: "length fs = 8 \<Longrightarrow> take_fields 8 (esc_fields fs) = Some fs"
  by (metis take_fields_esc)

lemma take_fields_7: "length fs = 7 \<Longrightarrow> take_fields 7 (esc_fields fs) = Some fs"
  by (metis take_fields_esc)

lemma take_fields_6: "length fs = 6 \<Longrightarrow> take_fields 6 (esc_fields fs) = Some fs"
  by (metis take_fields_esc)

lemma sample_clearance_roundtrip:
  "wf_clearance c \<Longrightarrow> sample_de_clearance (sample_ser_clearance c) = Some c"
  by (cases "cl_assurance c")
    (auto simp: sample_de_clearance_def sample_ser_clearance_def take_fields_7
      sample_de_assurance_def wf_clearance_def Let_def)

lemma sample_grant_roundtrip: "wf_grant g \<Longrightarrow> sample_de_grant (sample_ser_grant g) = Some g"
  by (auto simp: sample_de_grant_def sample_ser_grant_def take_fields_6 wf_grant_def Let_def)

lemma sample_submission_roundtrip:
  "in_i64 (sb_exp s) \<Longrightarrow> sample_de_submission (sample_ser_submission s) = Some s"
  by (simp add: sample_de_submission_def sample_ser_submission_def take_fields_8)

lemma sample_de_clearance_wf: "sample_de_clearance b = Some c \<Longrightarrow> wf_clearance c"
  by (auto simp: sample_de_clearance_def Let_def split: option.splits list.splits if_splits)

lemma sample_de_grant_wf: "sample_de_grant b = Some g \<Longrightarrow> wf_grant g"
  by (auto simp: sample_de_grant_def Let_def split: option.splits list.splits if_splits)

subsection \<open>JSON strings\<close>

text \<open>A string literal is the base64url text of its bytes between quotes.\<close>

definition sample_json_str :: "string \<Rightarrow> string" where
  "sample_json_str s = CHR 0x22 # base64url_encode (as_bytes s) @ [CHR 0x22]"

definition sample_json_tuple :: "string list \<Rightarrow> string" where
  "sample_json_tuple xs = CHR ''['' # join_comma (map sample_json_str xs) @ '']''"

definition sample_json_object :: "(string \<times> string) list \<Rightarrow> string" where
  "sample_json_object kvs =
     CHR ''{'' # join_comma (map (\<lambda>(k, v). sample_json_str k @ CHR '':'' # sample_json_str v) kvs)
       @ ''}''"

lemma base64url_encode_inject: "base64url_encode a = base64url_encode b \<Longrightarrow> a = b"
  by (metis base64url_roundtrip option.inject)

lemma b64_char_not_quote: "\<not> b64_char (CHR 0x22)"
  by (simp add: b64_char_def is_ascii_alphanumeric_def is_ascii_alphabetic_def is_ascii_digit_def)

lemma sample_json_str_free:
  assumes "sample_json_str s @ u = sample_json_str t @ v"
  shows "s = t \<and> u = v"
proof -
  have q: "CHR 0x22 \<notin> set (base64url_encode b)" for b
    using base64url_alphabet b64_char_not_quote by blast
  let ?l = "\<lambda>s u. base64url_encode (as_bytes s) @ CHR 0x22 # u"
  from assms have "?l s u = ?l t v" by (simp add: sample_json_str_def)
  then have "split_once (CHR 0x22) (?l s u) = split_once (CHR 0x22) (?l t v)" by simp
  then have "base64url_encode (as_bytes s) = base64url_encode (as_bytes t) \<and> u = v"
    by (simp add: q)
  then show ?thesis by (auto dest: base64url_encode_inject)
qed

lemma sample_json_str_wf: "wf_str (sample_json_str s)"
  unfolding wf_str_def
  by (rule utf8_valid_ascii)
    (auto simp: sample_json_str_def as_bytes_def intro: b64_char_ascii base64url_alphabet)

subsection \<open>The record\<close>

definition checksum :: "bytes \<Rightarrow> u8" where
  "checksum m = foldl (\<lambda>a b. 31 * a + b) 7 m"

definition sample_digest :: "bytes \<Rightarrow> bytes" where
  "sample_digest m = replicate 31 0 @ [checksum m]"

definition sample_sign :: "bytes \<Rightarrow> bytes" where
  "sample_sign m = replicate 63 0 @ [checksum m]"

definition sample_point :: "bytes \<Rightarrow> bytes option" where
  "sample_point b =
     (if length b = 65 \<and> take 1 b = [4] then Some b
      else if length b = 33 then Some (4 # drop 1 b @ replicate 32 0) else None)"

definition sample :: externals where
  "sample =
     \<lparr>sha256 = sample_digest,
      hmac_sha256 = (\<lambda>k m. sample_digest (k @ m)),
      b64_encode = base64url_encode,
      b64_decode = base64url_decode,
      b64_decode_slice = base64url_decode_slice,
      p256_from_sec1 = sample_point,
      p256_signature = (\<lambda>s. if length s = 64 then Some s else None),
      p256_verify = (\<lambda>k m s. s = sample_sign m),
      ring_verify = (\<lambda>k m s. sample_point k \<noteq> None \<and> s = sample_sign m),
      json_str = sample_json_str,
      json_tuple = sample_json_tuple,
      json_object = sample_json_object,
      ser_binding = (\<lambda>d s e n p c.
        esc_fields [as_bytes d, as_bytes s, as_bytes (int_str e), as_bytes (nat_str (unat n)),
                    as_bytes p, as_bytes c]),
      ser_clearance = sample_ser_clearance,
      de_clearance = sample_de_clearance,
      ser_grant = sample_ser_grant,
      de_grant = sample_de_grant,
      ser_challenge = (\<lambda>c n. as_bytes (ch_salt c @ ch_token c @ int_str n)),
      de_submission = sample_de_submission,
      de_feed = (\<lambda>b. Some [(Some (str_of_bytes b), None)])\<rparr>"

lemma sample_base64_laws: "base64_laws sample"
  by (auto simp: base64_laws_def sample_def base64url_roundtrip base64url_decode_slice_def
      length_base64url_encode base64url_canonical intro: base64url_alphabet)

lemma sample_digest_laws: "digest_laws sample"
  by (simp add: digest_laws_def sample_def sample_digest_def)

lemma sample_serde_laws: "serde_laws sample"
  by (auto simp: serde_laws_def sample_def sample_clearance_roundtrip sample_grant_roundtrip
      sample_de_clearance_wf sample_de_grant_wf)

lemma sample_json_laws: "json_laws sample"
proof -
  have "json_str sample s @ u = json_str sample t @ v \<Longrightarrow> s = t \<and> u = v" for s t u v
    by (simp add: sample_def) (rule sample_json_str_free)
  moreover have "json_tuple sample xs = CHR ''['' # join_comma (map (json_str sample) xs) @ '']''" for xs
    by (simp add: sample_def sample_json_tuple_def)
  moreover have "wf_str (json_str sample s)" for s by (simp add: sample_def sample_json_str_wf)
  moreover have "ser_binding sample d s e n p c = ser_binding sample d' s' e' n' p' c' \<Longrightarrow>
      d = d' \<and> s = s' \<and> e = e' \<and> n = n' \<and> p = p' \<and> c = c'" for d s e n p c d' s' e' n' p' c'
    by (auto simp: sample_def esc_fields_inject word_unat_eq_iff)
  ultimately show ?thesis unfolding json_laws_def by blast
qed

lemmas sample_laws = sample_base64_laws sample_digest_laws sample_serde_laws sample_json_laws

text \<open>Sizes of the serialised values, for the length limits of the token verifiers.\<close>

lemma length_esc_fields: "length (esc_fields fs) = sum_list (map (\<lambda>f. 2 * length f + 1) fs)"
proof -
  have "length (esc_field f) = 2 * length f + 1" for f by (induction f) auto
  then show ?thesis by (induction fs) (auto simp: esc_fields_def)
qed

lemma length_ser_clearance_sample:
  "length (ser_clearance sample c) =
     7 + 2 * (1 + length (cl_pk c) + length (cl_context c)
       + (case cl_assurance c of Pow d \<Rightarrow> 1 + length (nat_str (unat d)) | NoJs d \<Rightarrow> 1 + length (int_str d))
       + length (int_str (cl_iat c)) + length (int_str (cl_exp c)))"
  by (simp add: sample_def sample_ser_clearance_def length_esc_fields split: assurance.split)

lemma length_ser_grant_sample:
  "length (ser_grant sample g) =
     6 + 2 * (length (gr_path g) + length (gr_context g) + length (gr_id g) + 1
       + length (int_str (gr_iat g)) + length (int_str (gr_delay g)))"
  by (simp add: sample_def sample_ser_grant_def length_esc_fields)

lemma wf_str_ascii: "\<forall>c\<in>set s. (of_char c :: u8) < 128 \<Longrightarrow> wf_str s"
  unfolding wf_str_def by (intro utf8_valid_ascii) (auto simp: as_bytes_def)

end
