(* ===== verification/Redemption.thy ===== *)
theory Redemption
  imports Ledger Wire Sample
begin

text \<open>
  The local one-use ledger: \<open>pow-gate-core/src/redemption.rs\<close> (a table probed in a window of at
  most 64 slots) and the shared-memory zone of \<open>ngx-http-pow-gate/src/redemption.rs\<close> that holds
  it together with a high-water clock. The slab mutex makes every call one step.
\<close>

record entry =
  en_id :: bytes
  en_expires :: i64

datatype outcome = Accepted | Reused | Full | OutExpired

definition redemption_id :: "externals \<Rightarrow> string \<Rightarrow> bytes" where
  "redemption_id X token = sha256 X (as_bytes token)"

text \<open>The slots a token may use: a window that starts at the first eight bytes of its identifier.\<close>

definition probe_indices :: "nat \<Rightarrow> bytes \<Rightarrow> nat list" where
  "probe_indices len uid =
     (let start = be_val (take 8 uid) mod len
      in map (\<lambda>probe. (start + probe) mod len) [0..<min len 64])"

text \<open>The probing loop: \<open>None\<close> when a live entry with this identifier is met, otherwise the first
  slot that can be reused, if any.\<close>

fun probe_loop :: "entry list \<Rightarrow> bytes \<Rightarrow> i64 \<Rightarrow> nat list \<Rightarrow> nat option \<Rightarrow> nat option option" where
  "probe_loop entries uid now [] free = Some free"
| "probe_loop entries uid now (index # rest) free =
     (let entry = entries ! index in
      if en_expires entry > now \<and> en_id entry = uid then None
      else probe_loop entries uid now rest
             (if en_expires entry \<le> now \<and> free = None then Some index else free))"

definition consume :: "entry list \<Rightarrow> bytes \<Rightarrow> i64 \<Rightarrow> i64 \<Rightarrow> outcome \<times> entry list" where
  "consume entries uid expires now =
     (if expires \<le> now then (OutExpired, entries)
      else if entries = [] then (Full, entries)
      else case probe_loop entries uid now (probe_indices (length entries) uid) None of
          None \<Rightarrow> (Reused, entries)
        | Some (Some index) \<Rightarrow>
            (Accepted, entries[index := \<lparr>en_id = uid, en_expires = expires\<rparr>])
        | Some None \<Rightarrow> (Full, entries))"

subsection \<open>The shared zone\<close>

definition CAPACITY :: nat where "CAPACITY = 32768"

record zone_state =
  zs_issuer :: bytes
  zs_last_now :: i64
  zs_entries :: "entry list"

definition zone_issuer :: "zone_state option \<Rightarrow> bytes option" where
  "zone_issuer z = map_option zs_issuer z"

text \<open>\<open>sampled\<close> is the wall clock read inside the lock.\<close>

definition zone_consume ::
  "externals \<Rightarrow> i64 \<Rightarrow> string \<Rightarrow> i64 \<Rightarrow> zone_state option \<Rightarrow> outcome \<times> zone_state option" where
  "zone_consume X sampled token expires z =
     (let uid = redemption_id X token in
      case z of
        None \<Rightarrow> (Full, None)
      | Some state \<Rightarrow>
          (let now = max sampled (zs_last_now state);
               (result, entries) = consume (zs_entries state) uid expires now
           in (result, Some (state\<lparr>zs_last_now := now, zs_entries := entries\<rparr>))))"

subsection \<open>The probing loop\<close>

definition probe_window :: "entry list \<Rightarrow> bytes \<Rightarrow> nat set" where
  "probe_window es uid = set (probe_indices (length es) uid)"

lemma probe_loop_None_iff:
  "probe_loop es uid now is free = None \<longleftrightarrow>
     (\<exists>k\<in>set is. now < en_expires (es ! k) \<and> en_id (es ! k) = uid)"
  by (induction "is" arbitrary: free) (auto simp: Let_def)

lemma probe_loop_free:
  "probe_loop es uid now is free = Some (Some k) \<Longrightarrow>
   free = Some k \<or> k \<in> set is \<and> en_expires (es ! k) \<le> now"
  by (induction "is" arbitrary: free) (auto simp: Let_def split: if_splits)

lemma probe_loop_full:
  "probe_loop es uid now is free = Some None \<Longrightarrow>
   free = None \<and> (\<forall>k\<in>set is. now < en_expires (es ! k))"
  by (induction "is" arbitrary: free) (auto simp: Let_def not_le split: if_splits)

lemma probe_indices_less: "0 < len \<Longrightarrow> k \<in> set (probe_indices len uid) \<Longrightarrow> k < len"
  by (auto simp: probe_indices_def Let_def)

lemma length_consume [simp]: "length (snd (consume es uid e now)) = length es"
  by (simp add: consume_def split: option.split)

lemma consume_Accepted:
  assumes "consume es uid e now = (Accepted, es')"
  obtains k where "k \<in> set (probe_indices (length es) uid)" "k < length es"
    "en_expires (es ! k) \<le> now" "es' = es[k := \<lparr>en_id = uid, en_expires = e\<rparr>]" "now < e"
    "\<forall>j\<in>set (probe_indices (length es) uid). now < en_expires (es ! j) \<longrightarrow> en_id (es ! j) \<noteq> uid"
proof -
  from assms obtain k where "\<not> e \<le> now" "es \<noteq> []" "es' = es[k := \<lparr>en_id = uid, en_expires = e\<rparr>]"
    and p: "probe_loop es uid now (probe_indices (length es) uid) None = Some (Some k)"
    by (auto simp: consume_def split: if_splits option.splits)
  moreover from probe_loop_free [OF p] have "k \<in> set (probe_indices (length es) uid)"
    "en_expires (es ! k) \<le> now" by auto
  moreover have "\<forall>j\<in>set (probe_indices (length es) uid). now < en_expires (es ! j) \<longrightarrow> en_id (es ! j) \<noteq> uid"
    using probe_loop_None_iff [of es uid now "probe_indices (length es) uid" None] p by auto
  ultimately show thesis using probe_indices_less that by auto
qed

lemma consume_not_Accepted: "fst (consume es uid e now) \<noteq> Accepted \<Longrightarrow> snd (consume es uid e now) = es"
  by (auto simp: consume_def split: option.splits)

lemma consume_keeps_live:
  assumes "k < length es" "now < en_expires (es ! k)"
  shows "snd (consume es uid e now) ! k = es ! k"
proof (cases "fst (consume es uid e now) = Accepted")
  case True
  then obtain es' where acc: "consume es uid e now = (Accepted, es')" by (metis prod.collapse)
  from consume_Accepted [OF acc] obtain j where "en_expires (es ! j) \<le> now"
    "es' = es[j := \<lparr>en_id = uid, en_expires = e\<rparr>]" by blast
  with assms acc show ?thesis by (cases "j = k") auto
qed (simp add: consume_not_Accepted)

subsection \<open>The zone keeps the contract of a one-use ledger\<close>

text \<open>An event is one redemption attempt: sampled clock, token, expiry.\<close>

type_synonym attempt = "i64 \<times> string \<times> i64"

definition zone_step :: "externals \<Rightarrow> attempt \<Rightarrow> zone_state option \<Rightarrow> zone_state option" where
  "zone_step X ev z = (case ev of (sampled, token, expires) \<Rightarrow> snd (zone_consume X sampled token expires z))"

definition zone_accepts :: "externals \<Rightarrow> attempt \<Rightarrow> zone_state option \<Rightarrow> bytes \<Rightarrow> int \<Rightarrow> bool" where
  "zone_accepts X ev z uid e \<longleftrightarrow>
     (case ev of (sampled, token, expires) \<Rightarrow>
        redemption_id X token = uid \<and> expires = e \<and>
        fst (zone_consume X sampled token expires z) = Accepted)"

definition zone_settled :: "zone_state option \<Rightarrow> bytes \<Rightarrow> int \<Rightarrow> bool" where
  "zone_settled z uid e \<longleftrightarrow>
     (case z of
        None \<Rightarrow> True
      | Some st \<Rightarrow>
          e \<le> zs_last_now st \<or>
          (\<exists>k\<in>set (probe_indices (length (zs_entries st)) uid).
             k < length (zs_entries st) \<and> zs_entries st ! k = \<lparr>en_id = uid, en_expires = e\<rparr>))"

lemma zone_accept_settles:
  assumes "zone_accepts X ev z uid e"
  shows "zone_settled (zone_step X ev z) uid e"
proof -
  obtain sampled token expires where ev: "ev = (sampled, token, expires)" by (cases ev)
  from assms obtain st where z: "z = Some st" and uid: "redemption_id X token = uid" "expires = e"
    by (cases z) (auto simp: zone_accepts_def ev zone_consume_def)
  define now where "now = max sampled (zs_last_now st)"
  obtain es' where acc: "consume (zs_entries st) uid e now = (Accepted, es')"
    using assms z uid by (cases "consume (zs_entries st) uid e now")
      (auto simp: zone_accepts_def ev zone_consume_def now_def)
  from consume_Accepted [OF acc] obtain k where
    k: "k \<in> set (probe_indices (length (zs_entries st)) uid)" "k < length (zs_entries st)"
    "es' = (zs_entries st)[k := \<lparr>en_id = uid, en_expires = e\<rparr>]" by blast
  have "zone_step X ev z = Some (st\<lparr>zs_last_now := now, zs_entries := es'\<rparr>)"
    using acc z uid by (simp add: zone_step_def ev zone_consume_def now_def)
  with k show ?thesis by (auto simp: zone_settled_def)
qed

lemma zone_settled_blocks: "zone_settled z uid e \<Longrightarrow> \<not> zone_accepts X ev z uid e"
proof
  assume settled: "zone_settled z uid e" and "zone_accepts X ev z uid e"
  obtain sampled token expires where ev: "ev = (sampled, token, expires)" by (cases ev)
  from \<open>zone_accepts X ev z uid e\<close> obtain st where z: "z = Some st"
    and uid: "redemption_id X token = uid" "expires = e"
    by (cases z) (auto simp: zone_accepts_def ev zone_consume_def)
  define now where "now = max sampled (zs_last_now st)"
  obtain es' where "consume (zs_entries st) uid e now = (Accepted, es')"
    using \<open>zone_accepts X ev z uid e\<close> z uid by (cases "consume (zs_entries st) uid e now")
      (auto simp: zone_accepts_def ev zone_consume_def now_def)
  from consume_Accepted [OF this] have "now < e"
    and fresh: "\<forall>j\<in>set (probe_indices (length (zs_entries st)) uid).
      now < en_expires (zs_entries st ! j) \<longrightarrow> en_id (zs_entries st ! j) \<noteq> uid" by blast+
  moreover from \<open>now < e\<close> have "\<not> e \<le> zs_last_now st" by (simp add: now_def)
  with settled z obtain k where "k \<in> set (probe_indices (length (zs_entries st)) uid)"
    "zs_entries st ! k = \<lparr>en_id = uid, en_expires = e\<rparr>" by (auto simp: zone_settled_def)
  ultimately show False by force
qed

lemma zone_settled_step: "zone_settled z uid e \<Longrightarrow> zone_settled (zone_step X ev z) uid e"
proof -
  assume settled: "zone_settled z uid e"
  obtain sampled token expires where ev: "ev = (sampled, token, expires)" by (cases ev)
  show ?thesis
  proof (cases z)
    case (Some st)
    define now where "now = max sampled (zs_last_now st)"
    define es' where "es' = snd (consume (zs_entries st) (redemption_id X token) expires now)"
    have st': "zone_step X ev z = Some (st\<lparr>zs_last_now := now, zs_entries := es'\<rparr>)"
      by (simp add: zone_step_def ev zone_consume_def Some now_def es'_def split_def Let_def)
    show ?thesis
    proof (cases "e \<le> now")
      case False
      then have "\<not> e \<le> zs_last_now st" by (simp add: now_def)
      with settled Some obtain k where k: "k \<in> set (probe_indices (length (zs_entries st)) uid)"
        "k < length (zs_entries st)" "zs_entries st ! k = \<lparr>en_id = uid, en_expires = e\<rparr>"
        by (auto simp: zone_settled_def)
      have "es' ! k = zs_entries st ! k"
        unfolding es'_def using k False by (intro consume_keeps_live) simp_all
      with k st' show ?thesis by (auto simp: zone_settled_def es'_def)
    qed (simp add: st' zone_settled_def)
  qed (simp add: zone_step_def ev zone_consume_def zone_settled_def)
qed

interpretation zone: one_use_ledger "zone_step X" "zone_accepts X" "\<lambda>z ev. True" "\<lambda>z. True" zone_settled
  for X
  by unfold_locales (simp_all add: zone_accept_settles zone_settled_blocks zone_settled_step)

subsection \<open>Properties\<close>

text \<open>
  C8. One use per challenge: whatever redemption attempts the workers make on the shared zone, in
  whatever order and with whatever clock samples (the wall clock may jump back), a token with its
  expiry is accepted at most once, starting from any zone contents. (The ledger takes the expiry
  from the caller: the same identity with a later expiry is another redemption to it. The handlers
  take it from the token, where it is sealed.)
\<close>

theorem zone_accepts_at_most_once:
  "acceptances (zone_step X) (zone_accepts X) attempts z (redemption_id X token) expires \<le> 1"
  by (rule zone.at_most_once) (simp_all add: admitted_def list_all_iff)

text \<open>
  C28. What one redemption does: expired exactly when the expiry has passed; reused exactly when a
  live entry of the token's window carries its identifier; full exactly when it does not and the
  window holds live entries only; accepted otherwise, writing one slot that was expired. Entries
  that are live are never evicted, and refusals change nothing.
\<close>

theorem consume_outcomes:
  assumes "es \<noteq> []"
  shows "fst (consume es uid e now) =
      (if e \<le> now then OutExpired
       else if \<exists>k\<in>probe_window es uid. now < en_expires (es ! k) \<and> en_id (es ! k) = uid then Reused
       else if \<forall>k\<in>probe_window es uid. now < en_expires (es ! k) then Full
       else Accepted) \<and>
    (fst (consume es uid e now) = Accepted \<longrightarrow>
       (\<exists>k\<in>probe_window es uid. k < length es \<and> en_expires (es ! k) \<le> now \<and>
          snd (consume es uid e now) = es[k := \<lparr>en_id = uid, en_expires = e\<rparr>])) \<and>
    (fst (consume es uid e now) \<noteq> Accepted \<longrightarrow> snd (consume es uid e now) = es) \<and>
    (\<forall>k < length es. now < en_expires (es ! k) \<longrightarrow> snd (consume es uid e now) ! k = es ! k)"
proof -
  let ?p = "probe_loop es uid now (probe_indices (length es) uid) None"
  have full: "(\<forall>k\<in>probe_window es uid. now < en_expires (es ! k)) \<longleftrightarrow> ?p = Some None"
    if "\<not> (\<exists>k\<in>probe_window es uid. now < en_expires (es ! k) \<and> en_id (es ! k) = uid)"
  proof
    assume all: "\<forall>k\<in>probe_window es uid. now < en_expires (es ! k)"
    have "?p \<noteq> None" using that by (simp add: probe_loop_None_iff probe_window_def)
    moreover have "?p \<noteq> Some (Some k)" for k
      using probe_loop_free [of es uid now "probe_indices (length es) uid" None k] all
      by (fastforce simp: probe_window_def)
    ultimately show "?p = Some None" by (cases ?p) auto
  next
    assume "?p = Some None"
    then show "\<forall>k\<in>probe_window es uid. now < en_expires (es ! k)"
      using probe_loop_full by (auto simp: probe_window_def)
  qed
  have outcome: "fst (consume es uid e now) =
      (if e \<le> now then OutExpired
       else if \<exists>k\<in>probe_window es uid. now < en_expires (es ! k) \<and> en_id (es ! k) = uid then Reused
       else if \<forall>k\<in>probe_window es uid. now < en_expires (es ! k) then Full else Accepted)"
    using assms(1) full probe_loop_None_iff [of es uid now "probe_indices (length es) uid" None]
    by (auto simp: consume_def probe_window_def split: option.split)
  have "\<exists>k\<in>probe_window es uid. k < length es \<and> en_expires (es ! k) \<le> now \<and>
      snd (consume es uid e now) = es[k := \<lparr>en_id = uid, en_expires = e\<rparr>]"
    if "fst (consume es uid e now) = Accepted"
    using consume_Accepted [of es uid e now "snd (consume es uid e now)"] that
    by (metis prod.collapse probe_window_def)
  with outcome consume_not_Accepted consume_keeps_live show ?thesis by blast
qed

theorem consume_outcomes_witness:
  "fst (consume [\<lparr>en_id = [1], en_expires = 0\<rparr>] [9] 10 5) = Accepted"
proof -
  have w: "probe_window [\<lparr>en_id = [1], en_expires = 0\<rparr>] [9] = {0}"
    by (simp add: probe_window_def probe_indices_def)
  show ?thesis
    using consume_outcomes [of "[\<lparr>en_id = [1], en_expires = 0\<rparr>]" "[9]" 10 5] unfolding w by simp
qed

end
