(* ===== verification/Codec.thy ===== *)
theory Codec
  imports Wire Sample
begin

text \<open>
  \<open>pow-gate-core/src/codec.rs\<close>: base64url and lowercase hex. The base64 functions are those of
  the record \<open>externals\<close>; what is the repository's own is the fixed-width decoding into a
  caller's buffer and the hex writer.
\<close>

definition b64url :: "externals \<Rightarrow> bytes \<Rightarrow> string" where
  "b64url X b = b64_encode X b"

definition unb64url :: "externals \<Rightarrow> string \<Rightarrow> bytes option" where
  "unb64url X s = b64_decode X s"

text \<open>Decoding into caller-owned storage: the number of bytes written, and the storage.\<close>

definition unb64url_into :: "externals \<Rightarrow> string \<Rightarrow> bytes \<Rightarrow> (usize \<times> bytes) option" where
  "unb64url_into X s output =
     (case b64_decode_slice X s (length output) of
        None \<Rightarrow> None
      | Some b \<Rightarrow> Some (length b, b @ drop (length b) output))"

definition unb64url_fixed :: "externals \<Rightarrow> nat \<Rightarrow> string \<Rightarrow> bytes option" where
  "unb64url_fixed X N s =
     (case unb64url_into X s (replicate N 0) of
        None \<Rightarrow> None
      | Some (n, output) \<Rightarrow> if n = N then Some output else None)"

definition hex_digit :: "nat \<Rightarrow> char" where
  "hex_digit n = char_of (if n < 10 then 48 + n else 87 + n)"

fun hex :: "bytes \<Rightarrow> string" where
  "hex [] = []"
| "hex (b # bs) =
     hex_digit (unat (drop_bit 4 b)) # hex_digit (unat (b AND 0x0f)) # hex bs"

subsection \<open>Facts\<close>

lemma unb64url_b64url [simp]: "base64_laws X \<Longrightarrow> unb64url X (b64url X b) = Some b"
  by (simp add: unb64url_def b64url_def)

lemma b64url_Nil [simp]: "base64_laws X \<Longrightarrow> b64url X [] = []"
  using b64_length [of X "[]"] by (simp add: b64url_def)

lemma b64url_inject [simp]: "base64_laws X \<Longrightarrow> b64url X a = b64url X b \<longleftrightarrow> a = b"
  by (simp add: b64url_def)

lemma b64url_no_dot [simp]: "base64_laws X \<Longrightarrow> CHR ''.'' \<notin> set (b64url X b)"
  by (simp add: b64url_def)

lemma b64url_unb64url: "base64_laws X \<Longrightarrow> unb64url X s = Some b \<Longrightarrow> b64url X b = s"
  by (simp add: unb64url_def b64url_def b64_encode_decode)

lemma unb64url_length: "base64_laws X \<Longrightarrow> unb64url X s = Some b \<Longrightarrow> length b = 3 * length s div 4"
  by (simp add: unb64url_def b64_decode_length)

lemma b64url_wf_str: "base64_laws X \<Longrightarrow> wf_str (b64url X b)"
  by (simp add: b64url_def b64_encode_wf_str)

lemma unb64url_into_eq:
  "base64_laws X \<Longrightarrow>
   unb64url_into X s output =
     (case unb64url X s of
        None \<Rightarrow> None
      | Some b \<Rightarrow> if length b \<le> length output
                  then Some (length b, b @ drop (length b) output) else None)"
  by (auto simp: unb64url_into_def unb64url_def b64_decode_slice_eq split: option.splits)

lemma unb64url_fixed_Some:
  "base64_laws X \<Longrightarrow> unb64url_fixed X N s = Some b \<longleftrightarrow> unb64url X s = Some b \<and> length b = N"
  by (auto simp: unb64url_fixed_def unb64url_into_eq split: option.splits if_splits)

lemma hex_digit_inject: "m < 16 \<Longrightarrow> n < 16 \<Longrightarrow> hex_digit m = hex_digit n \<longleftrightarrow> m = n"
proof -
  assume mn: "m < 16" "n < 16"
  have val: "(of_char (hex_digit k) :: nat) = (if k < 10 then 48 + k else 87 + k)" if "k < 16" for k
    using that by (simp add: hex_digit_def of_char_of)
  have "hex_digit m = hex_digit n \<longleftrightarrow> (of_char (hex_digit m) :: nat) = of_char (hex_digit n)" by simp
  then show ?thesis unfolding val [OF mn(1)] val [OF mn(2)] using mn by auto
qed

lemma nibble_values: "unat (drop_bit 4 (b :: u8)) = unat b div 16" "unat (b AND 0x0f) = unat b mod 16"
proof -
  show "unat (drop_bit 4 b) = unat b div 16" by (simp add: drop_bit_eq_div unat_div)
  have "b AND 0x0f = take_bit 4 b" by (simp add: take_bit_eq_mask mask_numeral)
  then show "unat (b AND 0x0f) = unat b mod 16" by (simp add: take_bit_eq_mod unat_mod)
qed

lemma nibble_bounds: "unat (drop_bit 4 (b :: u8)) < 16" "unat (b AND 0x0f) < 16"
  using less_mult_imp_div_less [of "unat b" 16 16] by (simp_all add: nibble_values)

lemma nibbles: "unat (drop_bit 4 (b :: u8)) * 16 + unat (b AND 0x0f) = unat b"
  unfolding nibble_values by simp

lemma length_hex [simp]: "length (hex bs) = 2 * length bs"
  by (induction bs) auto

lemma hex_inject: "hex a = hex b \<longleftrightarrow> a = b"
proof (induction a arbitrary: b)
  case Nil
  then show ?case by (cases b) auto
next
  case (Cons x a)
  show ?case
  proof (cases b)
    case (Cons y c)
    have "unat x = unat y"
      if "unat (drop_bit 4 x) = unat (drop_bit 4 y)" "unat (x AND 0x0f) = unat (y AND 0x0f)"
      using that nibbles [of x] nibbles [of y] by simp
    then have "x = y"
      if "hex_digit (unat (drop_bit 4 x)) = hex_digit (unat (drop_bit 4 y))"
        "hex_digit (unat (x AND 0x0f)) = hex_digit (unat (y AND 0x0f))"
      using that by (simp add: hex_digit_inject nibble_bounds word_unat_eq_iff)
    then show ?thesis using Cons.IH [of c] Cons by auto
  qed auto
qed

subsection \<open>Properties\<close>

text \<open>
  Decoding an exact-width value without allocating (\<open>unb64url_fixed::<N>\<close>) accepts exactly
  the texts that the allocating decoder decodes to \<open>N\<close> bytes, and returns those bytes.
\<close>

theorem unb64url_fixed_reference:
  assumes "base64_laws X"
  shows "unb64url_fixed X N s =
           (case unb64url X s of None \<Rightarrow> None | Some b \<Rightarrow> if length b = N then Some b else None)"
  by (auto simp: unb64url_fixed_def unb64url_into_eq [OF assms] split: option.splits)

theorem unb64url_fixed_reference_witness:
  "base64_laws sample \<and> unb64url_fixed sample 2 (b64url sample [1, 2]) = Some [1, 2]"
proof -
  have "unb64url_fixed sample 2 (b64url sample [1, 2]) = Some [1, 2]"
    by (subst unb64url_fixed_reference [OF sample_base64_laws]) (simp add: sample_base64_laws)
  then show ?thesis by (simp add: sample_base64_laws)
qed

end
