(* ===== verification/Redis.thy ===== *)
theory Redis
  imports Redemption Codec
begin

text \<open>
  \<open>pow-gate-core/src/redis.rs\<close>: the names of the keys, the RESP2 writer and the bounded reply
  reader, and the two Lua scripts as transactions on a Redis server.

  The server is not part of the sources: its commands are the fields of a record \<open>redis_api\<close> over
  an arbitrary server state, with the documented behaviour the scripts rely on as the predicate
  \<open>redis_laws\<close>. The server's wall clock is in milliseconds and may move in either direction
  between scripts; a key with a deadline is certain to exist only before it. Lua numbers are
  integers here, which they represent exactly in the range of Unix times.
\<close>

subsection \<open>The server\<close>

record 'r redis_api =
  rd_get :: "'r \<Rightarrow> string \<Rightarrow> string option"
  rd_set :: "string \<Rightarrow> string \<Rightarrow> 'r \<Rightarrow> 'r"
  rd_set_nx_ex :: "string \<Rightarrow> string \<Rightarrow> int \<Rightarrow> 'r \<Rightarrow> bool \<times> 'r"
  rd_clock_ms :: "'r \<Rightarrow> int"
  rd_deadline :: "'r \<Rightarrow> string \<Rightarrow> int option"
  rd_at :: "int \<Rightarrow> 'r \<Rightarrow> 'r"

definition set_laws :: "'r redis_api \<Rightarrow> bool" where
  "set_laws R \<longleftrightarrow>
     (\<forall>r k v. rd_get R (rd_set R k v r) k = Some v \<and> rd_deadline R (rd_set R k v r) k = None \<and>
        rd_clock_ms R (rd_set R k v r) = rd_clock_ms R r) \<and>
     (\<forall>r k v k'. k' \<noteq> k \<longrightarrow>
        rd_get R (rd_set R k v r) k' = rd_get R r k' \<and>
        rd_deadline R (rd_set R k v r) k' = rd_deadline R r k')"

definition nx_laws :: "'r redis_api \<Rightarrow> bool" where
  "nx_laws R \<longleftrightarrow>
     (\<forall>r k v ttl. rd_get R r k \<noteq> None \<longrightarrow> rd_set_nx_ex R k v ttl r = (False, r)) \<and>
     (\<forall>r k v ttl. rd_get R r k = None \<and> 0 < ttl \<longrightarrow>
        fst (rd_set_nx_ex R k v ttl r) \<and>
        rd_get R (snd (rd_set_nx_ex R k v ttl r)) k = Some v \<and>
        rd_deadline R (snd (rd_set_nx_ex R k v ttl r)) k = Some (rd_clock_ms R r + 1000 * ttl) \<and>
        rd_clock_ms R (snd (rd_set_nx_ex R k v ttl r)) = rd_clock_ms R r \<and>
        (\<forall>k'. k' \<noteq> k \<longrightarrow>
           rd_get R (snd (rd_set_nx_ex R k v ttl r)) k' = rd_get R r k' \<and>
           rd_deadline R (snd (rd_set_nx_ex R k v ttl r)) k' = rd_deadline R r k'))"

definition time_laws :: "'r redis_api \<Rightarrow> bool" where
  "time_laws R \<longleftrightarrow>
     (\<forall>r t. rd_clock_ms R (rd_at R t r) = t) \<and>
     (\<forall>r t k. rd_get R r k = None \<longrightarrow> rd_get R (rd_at R t r) k = None) \<and>
     (\<forall>r t k v. rd_get R r k = Some v \<and> rd_deadline R r k = None \<longrightarrow>
        rd_get R (rd_at R t r) k = Some v \<and> rd_deadline R (rd_at R t r) k = None) \<and>
     (\<forall>r t k v d. rd_get R r k = Some v \<and> rd_deadline R r k = Some d \<and> t < d \<longrightarrow>
        rd_get R (rd_at R t r) k = Some v \<and> rd_deadline R (rd_at R t r) k = Some d)"

definition redis_laws :: "'r redis_api \<Rightarrow> bool" where
  "redis_laws R \<longleftrightarrow> set_laws R \<and> nx_laws R \<and> time_laws R"

subsection \<open>The scripts\<close>

text \<open>Lua's \<open>tonumber\<close> on decimal integers, \<open>None\<close> for \<open>nil\<close>.\<close>

definition tonumber :: "string \<Rightarrow> int option" where
  "tonumber s =
     (case s of
        [] \<Rightarrow> None
      | c # r \<Rightarrow>
          if c = CHR ''-'' then (if r = [] then None else map_option (\<lambda>n. - int n) (parse_digits 0 r))
          else map_option int (parse_digits 0 s))"

definition redis_time :: "'r redis_api \<Rightarrow> 'r \<Rightarrow> int" where
  "redis_time R r = rd_clock_ms R r div 1000"

definition HEALTH :: "'r redis_api \<Rightarrow> string \<Rightarrow> string \<Rightarrow> string \<Rightarrow> 'r \<Rightarrow> int" where
  "HEALTH R key1 key2 argv1 r =
     (if rd_get R r key1 \<noteq> Some argv1 \<or> Option.bind (rd_get R r key2) tonumber = None
      then -2 else 1)"

text \<open>The reply is \<open>None\<close> when the script fails: arithmetic on a \<open>nil\<close> argument.\<close>

definition CONSUME ::
  "'r redis_api \<Rightarrow> string \<Rightarrow> string \<Rightarrow> string \<Rightarrow> string \<Rightarrow> string \<Rightarrow> string \<Rightarrow> string \<Rightarrow> 'r \<Rightarrow> int option \<times> 'r" where
  "CONSUME R key1 key2 key3 argv1 argv2 argv3 argv4 r =
     (if rd_get R r key1 \<noteq> Some argv1 then (Some (-2), r)
      else case Option.bind (rd_get R r key3) tonumber of
          None \<Rightarrow> (Some (-2), r)
        | Some previous \<Rightarrow>
            (let current = redis_time R r in
             case (tonumber argv3, tonumber argv4) of
               (Some skew, Some client_now) \<Rightarrow>
                 if \<bar>current - client_now\<bar> > skew then (Some (-3), r)
                 else
                   (let now = max current previous in
                    case tonumber argv2 of
                      None \<Rightarrow> (None, r)
                    | Some expires \<Rightarrow>
                        if expires \<le> now then (Some (-1), r)
                        else
                          let r1 = (if now > previous then rd_set R key3 (int_str now) r else r);
                              (set, r2) = rd_set_nx_ex R key2 ''1'' (expires - now + skew + 1) r1
                          in if set then (Some 1, r2) else (Some 0, r2))
             | _ \<Rightarrow> (None, r)))"

definition redis_keys :: "externals \<Rightarrow> string \<Rightarrow> string \<Rightarrow> string \<Rightarrow> string \<times> string \<times> string" where
  "redis_keys X namespace epoch token =
     (let base = ''powgate:{'' @ namespace @ ''}'';
          uid = hex (redemption_id X token)
      in (base @ '':epoch'', base @ '':'' @ epoch @ '':spent:'' @ uid, base @ '':clock''))"

subsection \<open>RESP2\<close>

definition CRLF :: bytes where "CRLF = [13, 10]"

definition command :: "bytes list \<Rightarrow> bytes" where
  "command parts =
     fold (\<lambda>part out. ((out @ as_bytes (''$'' @ nat_str (length part)) @ CRLF) @ part) @ CRLF) parts
       (as_bytes (''*'' @ nat_str (length parts)) @ CRLF)"

datatype reply = Integer i64 | ReplyOk | Null | ReplyError

text \<open>The error side is the message text.\<close>

definition read_reply :: "bytes \<Rightarrow> string + (reply \<times> usize) option" where
  "read_reply input =
     (if length input > 1024 then Inl ''oversized Redis reply''
      else case find_sub input CRLF of
          None \<Rightarrow> Inr None
        | Some end \<Rightarrow>
            (let line = take end input in
             if line = as_bytes ''+OK'' then Inr (Some (ReplyOk, end + 2))
             else if line = as_bytes ''$-1'' then Inr (Some (Null, end + 2))
             else if take 1 line = as_bytes ''-'' then Inr (Some (ReplyError, end + 2))
             else if take 1 line = as_bytes '':'' then
               (case from_utf8 (drop 1 line) of
                  None \<Rightarrow> Inl ''invalid Redis integer''
                | Some text \<Rightarrow>
                    (case parse_i64 text of
                       None \<Rightarrow> Inl ''invalid Redis integer''
                     | Some v \<Rightarrow> Inr (Some (Integer v, end + 2))))
             else Inl ''unexpected Redis reply''))"

subsection \<open>Facts\<close>

lemma tonumber_int_str [simp]: "tonumber (int_str i) = Some i"
proof (cases "i < 0")
  case True
  then show ?thesis by (simp add: int_str_def tonumber_def parse_digits_nat_str)
next
  case False
  obtain c cs where n: "nat_str (nat i) = c # cs" "is_ascii_digit c" using nat_str_hd by blast
  have "c \<noteq> CHR ''-''" using is_ascii_digit_neq [OF n(2)] by simp
  moreover have "parse_digits 0 (c # cs) = Some (nat i)" using parse_digits_nat_str [of "nat i"] n(1) by simp
  ultimately show ?thesis using False n(1) by (simp add: int_str_def tonumber_def)
qed

lemma redis_keys_distinct:
  "redis_keys X ns ep t = (k1, k2, k3) \<Longrightarrow> k2 \<noteq> k3 \<and> k1 \<noteq> k3"
  by (auto simp: redis_keys_def Let_def dest: arg_cong [of _ _ length])

text \<open>A command is its part count followed by length-prefixed parts.\<close>

definition bulk :: "bytes \<Rightarrow> bytes" where
  "bulk part = as_bytes (CHR ''$'' # nat_str (length part)) @ CRLF @ part @ CRLF"

lemma command_eq: "command parts = as_bytes (CHR ''*'' # nat_str (length parts)) @ CRLF @ concat (map bulk parts)"
proof -
  have "fold (\<lambda>part out. ((out @ as_bytes (''$'' @ nat_str (length part)) @ CRLF) @ part) @ CRLF) parts out
      = out @ concat (map bulk parts)" for out
    by (induction parts arbitrary: out) (simp_all add: bulk_def)
  then show ?thesis by (simp add: command_def)
qed

lemma number_line_inject:
  assumes "as_bytes (c # nat_str m) @ CRLF @ r = as_bytes (c # nat_str n) @ CRLF @ s"
  shows "m = n \<and> r = s"
proof -
  have cr: "as_bytes [char_of (13 :: nat), char_of (10 :: nat)] = CRLF" by code_simp
  have "as_bytes (nat_str m @ char_of (13 :: nat) # char_of (10 :: nat) # str_of_bytes r)
      = as_bytes (nat_str n @ char_of (13 :: nat) # char_of (10 :: nat) # str_of_bytes s)"
    using assms unfolding cr [symmetric] by (simp add: as_bytes_Cons)
  moreover have "\<not> is_ascii_digit (char_of (13 :: nat))" by code_simp
  then have "char_of (13 :: nat) \<notin> set (nat_str k)" for k using nat_str_digits by blast
  ultimately have "nat_str m = nat_str n \<and>
      char_of (10 :: nat) # str_of_bytes r = char_of (10 :: nat) # str_of_bytes s"
    unfolding as_bytes_inject by (intro split_once_unique) simp_all
  then show ?thesis by (metis as_bytes_str_of_bytes list.inject nat_str_inject)
qed

lemma bulk_inject: "bulk p @ r = bulk q @ s \<Longrightarrow> p = q \<and> r = s"
  using number_line_inject [of "CHR ''$''" "length p" "p @ CRLF @ r" "length q" "q @ CRLF @ s"]
  by (auto simp: bulk_def)

lemma bulks_inject:
  "length ps = length qs \<Longrightarrow> concat (map bulk ps) @ r = concat (map bulk qs) @ s \<Longrightarrow> ps = qs \<and> r = s"
proof (induction ps qs rule: list_induct2)
  case (Cons p ps q qs)
  then have "bulk p @ (concat (map bulk ps) @ r) = bulk q @ (concat (map bulk qs) @ s)" by simp
  from bulk_inject [OF this] Cons.IH show ?case by simp
qed simp

subsection \<open>Effect of a redemption script\<close>

definition high_water :: "'r redis_api \<Rightarrow> string \<Rightarrow> 'r \<Rightarrow> int option" where
  "high_water R k3 r = Option.bind (rd_get R r k3) tonumber"

text \<open>A key is kept: same value, same deadline.\<close>

definition keeps :: "'r redis_api \<Rightarrow> string \<Rightarrow> 'r \<Rightarrow> 'r \<Rightarrow> bool" where
  "keeps R k r r' \<longleftrightarrow> rd_get R r' k = rd_get R r k \<and> rd_deadline R r' k = rd_deadline R r k"

lemma rd_set_facts:
  assumes "redis_laws R"
  shows "rd_get R (rd_set R k v r) k = Some v" "rd_deadline R (rd_set R k v r) k = None"
    "rd_clock_ms R (rd_set R k v r) = rd_clock_ms R r" "k' \<noteq> k \<Longrightarrow> keeps R k' r (rd_set R k v r)"
  using assms by (simp_all add: redis_laws_def set_laws_def keeps_def)

lemma rd_nx_facts:
  assumes "redis_laws R" "rd_get R r k = None" "0 < ttl"
  shows "fst (rd_set_nx_ex R k v ttl r)"
    "rd_get R (snd (rd_set_nx_ex R k v ttl r)) k = Some v"
    "rd_deadline R (snd (rd_set_nx_ex R k v ttl r)) k = Some (rd_clock_ms R r + 1000 * ttl)"
    "rd_clock_ms R (snd (rd_set_nx_ex R k v ttl r)) = rd_clock_ms R r"
    "k' \<noteq> k \<Longrightarrow> keeps R k' r (snd (rd_set_nx_ex R k v ttl r))"
  using assms by (simp_all add: redis_laws_def nx_laws_def keeps_def)

lemma rd_nx_present: "redis_laws R \<Longrightarrow> rd_get R r k \<noteq> None \<Longrightarrow> rd_set_nx_ex R k v ttl r = (False, r)"
  by (simp add: redis_laws_def nx_laws_def)

lemma keeps_refl [simp]: "keeps R k r r"
  by (simp add: keeps_def)

lemma keeps_trans: "keeps R k r r' \<Longrightarrow> keeps R k r' r'' \<Longrightarrow> keeps R k r r''"
  by (simp add: keeps_def)

text \<open>
  The script refuses without writing, or it advances the high-water key to \<open>now\<close> and then tries to
  create the marker.
\<close>

lemma CONSUME_runs:
  assumes run: "CONSUME R k1 k2 k3 ep (int_str e) (int_str skew) (int_str cn) r = (res, r')"
  obtains (refused) "r' = r" "res \<noteq> Some 1"
  | (ran) previous now r1 where "high_water R k3 r = Some previous" "now = max (redis_time R r) previous" "now < e"
      "r1 = (if now > previous then rd_set R k3 (int_str now) r else r)"
      "res = (if fst (rd_set_nx_ex R k2 ''1'' (e - now + skew + 1) r1) then Some 1 else Some 0)"
      "r' = snd (rd_set_nx_ex R k2 ''1'' (e - now + skew + 1) r1)"
proof (cases "high_water R k3 r")
  case None
  then show thesis using run refused by (auto simp: CONSUME_def high_water_def split: if_splits)
next
  case (Some previous)
  define now where "now = max (redis_time R r) previous"
  define r1 where "r1 = (if now > previous then rd_set R k3 (int_str now) r else r)"
  show thesis
  proof (cases "rd_get R r k1 = Some ep \<and> \<not> \<bar>redis_time R r - cn\<bar> > skew \<and> \<not> e \<le> now")
    case False
    then have "r' = r \<and> res \<noteq> Some 1"
      using run Some unfolding CONSUME_def high_water_def
      by (auto simp: Let_def now_def [symmetric] split: if_splits)
    then show thesis using refused by blast
  next
    case True
    then have "(if fst (rd_set_nx_ex R k2 ''1'' (e - now + skew + 1) r1) then Some 1 else Some 0,
        snd (rd_set_nx_ex R k2 ''1'' (e - now + skew + 1) r1)) = (res, r')"
      using run Some unfolding CONSUME_def high_water_def
      by (auto simp: Let_def now_def [symmetric] r1_def [symmetric] split_def split: if_splits)
    with True show thesis by (intro ran [OF Some now_def _ r1_def]) auto
  qed
qed

text \<open>Either the script refuses without writing, or it has advanced the high-water key to \<open>now\<close> and
  the marker now exists, created exactly when it was absent.\<close>

lemma CONSUME_cases:
  assumes laws: "redis_laws R" and neq: "k2 \<noteq> k3" and skew: "0 \<le> skew"
    and run: "CONSUME R k1 k2 k3 ep (int_str e) (int_str skew) (int_str cn) r = (res, r')"
  obtains (refused) "r' = r" "res \<noteq> Some 1"
  | (ran) previous now where "high_water R k3 r = Some previous" "now = max (redis_time R r) previous"
      "now < e" "high_water R k3 r' = Some now" "rd_deadline R r' k3 = None \<or> keeps R k3 r r'"
      "rd_clock_ms R r' = rd_clock_ms R r" "\<And>k. k \<noteq> k2 \<Longrightarrow> k \<noteq> k3 \<Longrightarrow> keeps R k r r'"
      "rd_get R r k2 \<noteq> None \<Longrightarrow> res = Some 0 \<and> keeps R k2 r r'"
      "rd_get R r k2 = None \<Longrightarrow> res = Some 1 \<and> rd_get R r' k2 = Some ''1'' \<and>
         rd_deadline R r' k2 = Some (rd_clock_ms R r + 1000 * (e - now + skew + 1))"
  using run
proof (cases rule: CONSUME_runs)
  case refused
  then show thesis by (rule that(1))
next
  case (ran previous now r1)
  have r1: "rd_clock_ms R r1 = rd_clock_ms R r" "high_water R k3 r1 = Some now"
    "rd_deadline R r1 k3 = None \<or> keeps R k3 r r1" "\<And>k. k \<noteq> k3 \<Longrightarrow> keeps R k r r1"
    using ran(1) rd_set_facts [OF laws] by (auto simp: ran(2,4) high_water_def max_def split: if_splits)
  have get1: "rd_get R r1 k2 = rd_get R r k2" using r1(4) [OF neq] by (simp add: keeps_def)
  have ttl: "0 < e - now + skew + 1" using ran(3) skew by simp
  show thesis
  proof (cases "rd_get R r k2 = None")
    case absent: True
    note nx = rd_nx_facts [where v = "''1''", OF laws get1 [unfolded absent] ttl, folded ran(6)]
    have k3: "keeps R k3 r1 r'" using neq by (intro nx(5)) simp
    show thesis
    proof (rule that(2) [OF ran(1,2,3)])
      show "high_water R k3 r' = Some now" using k3 r1(2) by (simp add: high_water_def keeps_def)
      show "rd_deadline R r' k3 = None \<or> keeps R k3 r r'" using k3 r1(3) by (auto simp: keeps_def)
      show "rd_clock_ms R r' = rd_clock_ms R r" using nx(4) r1(1) by simp
      show "keeps R k r r'" if "k \<noteq> k2" "k \<noteq> k3" for k using keeps_trans [OF r1(4) nx(5)] that by blast
      show "res = Some 1 \<and> rd_get R r' k2 = Some ''1'' \<and>
          rd_deadline R r' k2 = Some (rd_clock_ms R r + 1000 * (e - now + skew + 1))"
        using nx(1-3) r1(1) ran(5) by simp
    qed (use absent in simp)
  next
    case present: False
    have r': "r' = r1" "res = Some 0" using rd_nx_present [OF laws, of r1 k2] get1 present ran(5,6) by auto
    show thesis
    proof (rule that(2) [OF ran(1,2,3)])
      show "keeps R k r r'" if "k \<noteq> k2" "k \<noteq> k3" for k using r1(4) that r' by simp
      show "res = Some 0 \<and> keeps R k2 r r'" using r1(4) [OF neq] r' by simp
    qed (use r1 r' present in simp_all)
  qed
qed

subsection \<open>The Redis ledger\<close>

datatype redis_event = ClockMoves int | Redeem string int int

text \<open>The state carries, besides the server, the highest second its clock has shown.\<close>

type_synonym 'r ledger_state = "'r \<times> int"

definition redis_run ::
  "'r redis_api \<Rightarrow> externals \<Rightarrow> string \<Rightarrow> string \<Rightarrow> int \<Rightarrow> string \<Rightarrow> int \<Rightarrow> int \<Rightarrow> 'r \<Rightarrow> int option \<times> 'r" where
  "redis_run R X ns ep skew token e cn r =
     (case redis_keys X ns ep token of
        (k1, k2, k3) \<Rightarrow> CONSUME R k1 k2 k3 ep (int_str e) (int_str skew) (int_str cn) r)"

fun redis_step ::
  "'r redis_api \<Rightarrow> externals \<Rightarrow> string \<Rightarrow> string \<Rightarrow> int \<Rightarrow> redis_event \<Rightarrow> 'r ledger_state \<Rightarrow> 'r ledger_state" where
  "redis_step R X ns ep skew (ClockMoves t) (r, peak) = (rd_at R t r, max peak (t div 1000))"
| "redis_step R X ns ep skew (Redeem token e cn) (r, peak) =
     (snd (redis_run R X ns ep skew token e cn r), peak)"

fun redis_accepts ::
  "'r redis_api \<Rightarrow> externals \<Rightarrow> string \<Rightarrow> string \<Rightarrow> int \<Rightarrow> redis_event \<Rightarrow> 'r ledger_state \<Rightarrow> bytes \<Rightarrow> int \<Rightarrow> bool" where
  "redis_accepts R X ns ep skew (ClockMoves t) st uid e = False"
| "redis_accepts R X ns ep skew (Redeem token e' cn) (r, peak) uid e \<longleftrightarrow>
     redemption_id X token = uid \<and> e' = e \<and> fst (redis_run R X ns ep skew token e cn r) = Some 1"

text \<open>The clock never reads more than \<open>S\<close> seconds below its highest reading.\<close>

fun clock_ok :: "int \<Rightarrow> 'r ledger_state \<Rightarrow> redis_event \<Rightarrow> bool" where
  "clock_ok S (r, peak) (ClockMoves t) = (peak - t div 1000 \<le> S)"
| "clock_ok S st (Redeem token e cn) = True"

definition clock_key :: "string \<Rightarrow> string" where
  "clock_key ns = ''powgate:{'' @ ns @ ''}:clock''"

definition spent_key :: "string \<Rightarrow> string \<Rightarrow> bytes \<Rightarrow> string" where
  "spent_key ns ep uid = ''powgate:{'' @ ns @ ''}:'' @ ep @ '':spent:'' @ hex uid"

lemma redis_keys_eq:
  "redis_keys X ns ep token =
     (''powgate:{'' @ ns @ ''}:epoch'', spent_key ns ep (redemption_id X token), clock_key ns)"
  by (simp add: redis_keys_def Let_def spent_key_def clock_key_def)

lemma spent_key_not_clock [simp]: "spent_key ns ep uid \<noteq> clock_key ns"
  by (auto simp: spent_key_def clock_key_def dest: arg_cong [of _ _ length])

lemma spent_key_inject: "spent_key ns ep a = spent_key ns ep b \<longleftrightarrow> a = b"
  by (simp add: spent_key_def hex_inject)

definition redis_inv :: "'r redis_api \<Rightarrow> string \<Rightarrow> int \<Rightarrow> int \<Rightarrow> 'r ledger_state \<Rightarrow> bool" where
  "redis_inv R ns skew S st \<longleftrightarrow>
     (case st of (r, peak) \<Rightarrow>
        redis_laws R \<and> 0 \<le> skew \<and> 2 * S \<le> skew + 1 \<and>
        redis_time R r \<le> peak \<and> peak - redis_time R r \<le> S \<and>
        (rd_get R r (clock_key ns) \<noteq> None \<longrightarrow> rd_deadline R r (clock_key ns) = None) \<and>
        (case high_water R (clock_key ns) r of None \<Rightarrow> True | Some h \<Rightarrow> h \<le> peak))"

definition redis_settled :: "'r redis_api \<Rightarrow> string \<Rightarrow> string \<Rightarrow> int \<Rightarrow> 'r ledger_state \<Rightarrow> bytes \<Rightarrow> int \<Rightarrow> bool" where
  "redis_settled R ns ep S st uid e \<longleftrightarrow>
     (case st of (r, peak) \<Rightarrow>
        e + S \<le> peak \<or>
        (case high_water R (clock_key ns) r of None \<Rightarrow> False | Some h \<Rightarrow> e \<le> h) \<or>
        (rd_get R r (spent_key ns ep uid) \<noteq> None \<and>
         (\<exists>d. rd_deadline R r (spent_key ns ep uid) = Some d \<and> 1000 * (e + S) \<le> d)))"

lemma redis_run_cases:
  assumes "redis_inv R ns skew S (r, peak)" "redis_run R X ns ep skew token e cn r = (res, r')"
  obtains (refused) "r' = r" "res \<noteq> Some 1"
  | (ran) previous now where "high_water R (clock_key ns) r = Some previous"
      "now = max (redis_time R r) previous" "now < e" "high_water R (clock_key ns) r' = Some now"
      "rd_deadline R r' (clock_key ns) = None \<or> keeps R (clock_key ns) r r'"
      "rd_clock_ms R r' = rd_clock_ms R r"
      "\<And>k. k \<noteq> spent_key ns ep (redemption_id X token) \<Longrightarrow> k \<noteq> clock_key ns \<Longrightarrow> keeps R k r r'"
      "rd_get R r (spent_key ns ep (redemption_id X token)) \<noteq> None \<Longrightarrow>
         res = Some 0 \<and> keeps R (spent_key ns ep (redemption_id X token)) r r'"
      "rd_get R r (spent_key ns ep (redemption_id X token)) = None \<Longrightarrow>
         res = Some 1 \<and> rd_get R r' (spent_key ns ep (redemption_id X token)) = Some ''1'' \<and>
         rd_deadline R r' (spent_key ns ep (redemption_id X token)) =
           Some (rd_clock_ms R r + 1000 * (e - now + skew + 1))"
proof -
  have laws: "redis_laws R" and skew: "0 \<le> skew" using assms(1) by (auto simp: redis_inv_def)
  have run: "CONSUME R (''powgate:{'' @ ns @ ''}:epoch'') (spent_key ns ep (redemption_id X token))
      (clock_key ns) ep (int_str e) (int_str skew) (int_str cn) r = (res, r')"
    using assms(2) by (simp add: redis_run_def redis_keys_eq)
  show thesis
    by (rule CONSUME_cases [OF laws spent_key_not_clock skew run]) (fact refused, fact ran)
qed

lemma high_water_kept: "keeps R k r r' \<Longrightarrow> high_water R k r' = high_water R k r"
  by (simp add: high_water_def keeps_def)

lemma redis_time_same: "rd_clock_ms R r' = rd_clock_ms R r \<Longrightarrow> redis_time R r' = redis_time R r"
  by (simp add: redis_time_def)

lemma redis_inv_Redeem:
  assumes "redis_inv R ns skew S (r, peak)"
  shows "redis_inv R ns skew S (redis_step R X ns ep skew (Redeem token e cn) (r, peak))"
proof -
  obtain res r' where run: "redis_run R X ns ep skew token e cn r = (res, r')" by fastforce
  show ?thesis
  proof (rule redis_run_cases [OF assms run])
    assume "r' = r"
    then show ?thesis using assms run by simp
  next
    fix previous now
    assume hw: "high_water R (clock_key ns) r = Some previous" "now = max (redis_time R r) previous"
      "high_water R (clock_key ns) r' = Some now"
      and dl: "rd_deadline R r' (clock_key ns) = None \<or> keeps R (clock_key ns) r r'"
      and clk: "rd_clock_ms R r' = rd_clock_ms R r"
    have "now \<le> peak" using assms hw(1,2) by (simp add: redis_inv_def)
    moreover have "rd_deadline R r' (clock_key ns) = None"
      using dl assms hw(1) by (auto simp: redis_inv_def keeps_def high_water_def)
    ultimately show ?thesis
      using assms run hw(3) redis_time_same [OF clk] by (simp add: redis_inv_def)
  qed
qed

lemma rd_at_facts:
  assumes "redis_laws R"
  shows "rd_clock_ms R (rd_at R t r) = t" "rd_get R r k = None \<Longrightarrow> rd_get R (rd_at R t r) k = None"
    "rd_get R r k \<noteq> None \<Longrightarrow> rd_deadline R r k = None \<Longrightarrow> keeps R k r (rd_at R t r)"
    "rd_get R r k \<noteq> None \<Longrightarrow> rd_deadline R r k = Some d \<Longrightarrow> t < d \<Longrightarrow> keeps R k r (rd_at R t r)"
  using assms by (auto simp: redis_laws_def time_laws_def keeps_def)

lemma clock_key_at:
  assumes "redis_inv R ns skew S (r, peak)"
  shows "high_water R (clock_key ns) (rd_at R t r) = high_water R (clock_key ns) r"
    "rd_get R (rd_at R t r) (clock_key ns) \<noteq> None \<Longrightarrow> rd_deadline R (rd_at R t r) (clock_key ns) = None"
proof -
  have laws: "redis_laws R" using assms by (simp add: redis_inv_def)
  show "high_water R (clock_key ns) (rd_at R t r) = high_water R (clock_key ns) r"
    using rd_at_facts(2,3) [OF laws, of r "clock_key ns" t] assms
    by (cases "rd_get R r (clock_key ns) = None") (auto simp: redis_inv_def high_water_def keeps_def)
  show "rd_deadline R (rd_at R t r) (clock_key ns) = None"
    if "rd_get R (rd_at R t r) (clock_key ns) \<noteq> None"
    using rd_at_facts(2,3) [OF laws, of r "clock_key ns" t] assms that
    by (cases "rd_get R r (clock_key ns) = None") (auto simp: redis_inv_def keeps_def)
qed

lemma redis_inv_ClockMoves:
  assumes "redis_inv R ns skew S (r, peak)" "clock_ok S (r, peak) (ClockMoves t)"
  shows "redis_inv R ns skew S (redis_step R X ns ep skew (ClockMoves t) (r, peak))"
proof -
  have "redis_laws R" using assms(1) by (simp add: redis_inv_def)
  then have "redis_time R (rd_at R t r) = t div 1000" by (simp add: redis_time_def rd_at_facts)
  moreover have "0 \<le> S" using assms(1) by (simp add: redis_inv_def)
  ultimately show ?thesis
    using assms clock_key_at [OF assms(1), of t]
    by (auto simp: redis_inv_def split: option.splits)
qed

lemma redis_settled_blocks:
  assumes "redis_inv R ns skew S (r, peak)" "redis_settled R ns ep S (r, peak) (redemption_id X token) e"
  shows "fst (redis_run R X ns ep skew token e cn r) \<noteq> Some 1"
proof -
  obtain res r' where run: "redis_run R X ns ep skew token e cn r = (res, r')" by fastforce
  show ?thesis
  proof (rule redis_run_cases [OF assms(1) run])
    assume "res \<noteq> Some 1"
    then show ?thesis by (simp add: run)
  next
    fix previous now
    assume hw: "high_water R (clock_key ns) r = Some previous" "now = max (redis_time R r) previous" "now < e"
      and spent: "rd_get R r (spent_key ns ep (redemption_id X token)) \<noteq> None \<Longrightarrow>
        res = Some 0 \<and> keeps R (spent_key ns ep (redemption_id X token)) r r'"
    have "\<not> e + S \<le> peak" "\<not> e \<le> previous" using assms(1) hw(2,3) by (auto simp: redis_inv_def)
    then have "rd_get R r (spent_key ns ep (redemption_id X token)) \<noteq> None"
      using assms(2) hw(1) by (simp add: redis_settled_def)
    then show ?thesis using spent run by simp
  qed
qed

lemma redis_accept_settles:
  assumes "redis_inv R ns skew S (r, peak)" "redis_run R X ns ep skew token e cn r = (Some 1, r')"
  shows "redis_settled R ns ep S (r', peak) (redemption_id X token) e"
proof (rule redis_run_cases [OF assms])
  fix previous now
  assume hw: "high_water R (clock_key ns) r = Some previous" "now = max (redis_time R r) previous"
    and present: "rd_get R r (spent_key ns ep (redemption_id X token)) \<noteq> None \<Longrightarrow>
      Some (1 :: int) = Some 0 \<and> keeps R (spent_key ns ep (redemption_id X token)) r r'"
    and absent: "rd_get R r (spent_key ns ep (redemption_id X token)) = None \<Longrightarrow>
      Some (1 :: int) = Some 1 \<and> rd_get R r' (spent_key ns ep (redemption_id X token)) = Some ''1'' \<and>
      rd_deadline R r' (spent_key ns ep (redemption_id X token)) =
        Some (rd_clock_ms R r + 1000 * (e - now + skew + 1))"
  have "1000 * redis_time R r \<le> rd_clock_ms R r" by (simp add: redis_time_def)
  moreover have "now - redis_time R r \<le> S" "2 * S \<le> skew + 1"
    using assms(1) hw by (auto simp: redis_inv_def)
  ultimately have "1000 * (e + S) \<le> rd_clock_ms R r + 1000 * (e - now + skew + 1)"
    by (simp add: algebra_simps)
  moreover have "rd_get R r (spent_key ns ep (redemption_id X token)) = None"
    by (rule ccontr) (use present in simp)
  note absent [OF this]
  ultimately show ?thesis unfolding redis_settled_def by auto
qed simp

lemma redis_settled_Redeem:
  assumes "redis_inv R ns skew S (r, peak)" "redis_settled R ns ep S (r, peak) uid e"
  shows "redis_settled R ns ep S (redis_step R X ns ep skew (Redeem token e' cn) (r, peak)) uid e"
proof -
  obtain res r' where run: "redis_run R X ns ep skew token e' cn r = (res, r')" by fastforce
  show ?thesis
  proof (rule redis_run_cases [OF assms(1) run])
    assume "r' = r"
    then show ?thesis using assms(2) run by simp
  next
    fix previous now
    assume hw: "high_water R (clock_key ns) r = Some previous" "now = max (redis_time R r) previous"
      "high_water R (clock_key ns) r' = Some now"
      and other: "\<And>k. k \<noteq> spent_key ns ep (redemption_id X token) \<Longrightarrow> k \<noteq> clock_key ns \<Longrightarrow> keeps R k r r'"
      and same: "rd_get R r (spent_key ns ep (redemption_id X token)) \<noteq> None \<Longrightarrow>
        res = Some 0 \<and> keeps R (spent_key ns ep (redemption_id X token)) r r'"
    have "keeps R (spent_key ns ep uid) r r'" if "rd_get R r (spent_key ns ep uid) \<noteq> None"
      using other same that by (cases "spent_key ns ep uid = spent_key ns ep (redemption_id X token)") auto
    then show ?thesis
      using assms(2) run hw by (auto simp: redis_settled_def keeps_def)
  qed
qed

lemma redis_settled_ClockMoves:
  assumes "redis_inv R ns skew S (r, peak)" "redis_settled R ns ep S (r, peak) uid e"
  shows "redis_settled R ns ep S (redis_step R X ns ep skew (ClockMoves t) (r, peak)) uid e"
proof -
  have laws: "redis_laws R" using assms(1) by (simp add: redis_inv_def)
  have "e + S \<le> t div 1000 \<or> keeps R (spent_key ns ep uid) r (rd_at R t r)"
    if "rd_get R r (spent_key ns ep uid) \<noteq> None" "rd_deadline R r (spent_key ns ep uid) = Some d"
      "1000 * (e + S) \<le> d" for d
    using rd_at_facts(4) [OF laws that(1,2), of t] that(3) by (cases "t < d") auto
  then show ?thesis
    using assms(2) clock_key_at(1) [OF assms(1), of t]
    by (fastforce simp: redis_settled_def keeps_def)
qed

interpretation redis: one_use_ledger "redis_step R X ns ep skew" "redis_accepts R X ns ep skew"
  "clock_ok S" "redis_inv R ns skew S" "redis_settled R ns ep S" for R :: "'a redis_api" and X ns ep skew S
proof
  fix s :: "'a ledger_state" and ev and uid :: bytes and e :: int
  obtain r peak where s: "s = (r, peak)" by fastforce
  assume inv: "redis_inv R ns skew S s" and ok: "clock_ok S s ev"
  show "redis_inv R ns skew S (redis_step R X ns ep skew ev s)"
  proof (cases ev)
    case (ClockMoves t)
    show ?thesis unfolding s ClockMoves
      by (rule redis_inv_ClockMoves) (use inv ok s ClockMoves in simp_all)
  next
    case (Redeem token e cn)
    show ?thesis unfolding s Redeem by (rule redis_inv_Redeem) (use inv s in simp)
  qed
  show "redis_settled R ns ep S (redis_step R X ns ep skew ev s) uid e"
    if "redis_accepts R X ns ep skew ev s uid e"
  proof (cases ev)
    case (Redeem token e' cn)
    with that s have eq: "redemption_id X token = uid" "e' = e"
      and run: "redis_run R X ns ep skew token e cn r = (Some 1, snd (redis_run R X ns ep skew token e cn r))"
      by (auto simp: prod_eq_iff)
    from redis_accept_settles [OF inv [unfolded s] run] show ?thesis unfolding s Redeem eq(1) eq(2) by simp
  qed (use that in simp)
  show "\<not> redis_accepts R X ns ep skew ev s uid e" if "redis_settled R ns ep S s uid e"
  proof (cases ev)
    case (Redeem token e' cn)
    then show ?thesis using redis_settled_blocks [OF inv [unfolded s], of ep X token e cn] that s by auto
  qed simp
  show "redis_settled R ns ep S (redis_step R X ns ep skew ev s) uid e"
    if settled: "redis_settled R ns ep S s uid e"
  proof (cases ev)
    case (ClockMoves t)
    show ?thesis unfolding s ClockMoves
      by (rule redis_settled_ClockMoves [OF inv [unfolded s] settled [unfolded s]])
  next
    case (Redeem token e cn)
    show ?thesis unfolding s Redeem
      by (rule redis_settled_Redeem [OF inv [unfolded s] settled [unfolded s]])
  qed
qed

subsection \<open>A concrete server\<close>

text \<open>One server that obeys the laws: a store of values with deadlines, from which expired keys are
  removed when the clock passes them.\<close>

record server =
  sv_store :: "string \<Rightarrow> (string \<times> int option) option"
  sv_clock :: int

definition server_api :: "server redis_api" where
  "server_api =
     \<lparr>rd_get = (\<lambda>r k. map_option fst (sv_store r k)),
      rd_set = (\<lambda>k v r. r\<lparr>sv_store := (sv_store r)(k \<mapsto> (v, None))\<rparr>),
      rd_set_nx_ex = (\<lambda>k v ttl r.
        if sv_store r k = None
        then (True, r\<lparr>sv_store := (sv_store r)(k \<mapsto> (v, Some (sv_clock r + 1000 * ttl)))\<rparr>)
        else (False, r)),
      rd_clock_ms = sv_clock,
      rd_deadline = (\<lambda>r k. Option.bind (sv_store r k) snd),
      rd_at = (\<lambda>t r. r\<lparr>sv_clock := t,
        sv_store := (\<lambda>k. case sv_store r k of
                          Some (v, Some d) \<Rightarrow> if t < d then Some (v, Some d) else None
                        | other \<Rightarrow> other)\<rparr>)\<rparr>"

lemma server_laws: "redis_laws server_api"
proof -
  have "set_laws server_api" by (simp add: set_laws_def server_api_def)
  moreover have "nx_laws server_api" by (simp add: nx_laws_def server_api_def)
  moreover have "time_laws server_api"
    by (auto simp: time_laws_def server_api_def split: option.split)
  ultimately show ?thesis by (simp add: redis_laws_def)
qed

definition server0 :: "int \<Rightarrow> int \<Rightarrow> server" where
  "server0 clock_ms hw =
     \<lparr>sv_store = [''powgate:{n}:epoch'' \<mapsto> (''e1'', None), ''powgate:{n}:clock'' \<mapsto> (int_str hw, None)],
      sv_clock = clock_ms\<rparr>"

lemma server0_facts:
  "redis_time server_api (server0 ms hw) = ms div 1000"
  "rd_deadline server_api (server0 ms hw) (clock_key ''n'') = None"
  "high_water server_api (clock_key ''n'') (server0 ms hw) = Some hw"
  by (simp_all add: redis_time_def server_api_def server0_def clock_key_def high_water_def)

subsection \<open>Properties\<close>

text \<open>
  C9. One use per challenge in a cluster: however the nodes interleave their redemptions and
  however the Redis clock moves, a token with its expiry is accepted at most once, provided the
  clock never reads more than \<open>S\<close> seconds below its highest reading, where \<open>2 S\<close> is at most the
  configured skew plus one (so about half the skew). The high-water key and the margin in the
  marker's lifetime carry the argument.
\<close>

theorem redis_accepts_at_most_once:
  assumes "redis_inv R ns skew S (r, peak)"
    and "admitted (redis_step R X ns ep skew) (clock_ok S) events (r, peak)"
  shows "acceptances (redis_step R X ns ep skew) (redis_accepts R X ns ep skew) events (r, peak)
           (redemption_id X token) expires \<le> 1"
  by (rule redis.at_most_once [OF assms])

theorem redis_accepts_at_most_once_witness:
  "acceptances (redis_step server_api sample ''n'' ''e1'' 5) (redis_accepts server_api sample ''n'' ''e1'' 5)
     [Redeem ''t'' 1120 1000, ClockMoves 998000, Redeem ''t'' 1120 998]
     (server0 1000000 1000, 1000) (redemption_id sample ''t'') 1120 \<le> 1"
proof (rule redis_accepts_at_most_once [where S = 3])
  show "redis_inv server_api ''n'' 5 3 (server0 1000000 1000, 1000)"
    by (simp add: redis_inv_def server_laws server0_facts)
qed (simp add: admitted_def)

text \<open>
  The laws leave open when a key with a deadline disappears. Redis documents that it is gone once
  the clock has reached it.
\<close>

definition expiry_law :: "'r redis_api \<Rightarrow> bool" where
  "expiry_law R \<longleftrightarrow>
     (\<forall>r t k d. rd_deadline R r k = Some d \<and> d \<le> t \<longrightarrow> rd_get R (rd_at R t r) k = None)"

lemma server_expiry: "expiry_law server_api"
  by (auto simp: expiry_law_def server_api_def split: option.splits)

definition epoch_key :: "string \<Rightarrow> string" where
  "epoch_key ns = ''powgate:{'' @ ns @ ''}:epoch''"

lemma epoch_key_not [simp]: "epoch_key ns \<noteq> clock_key ns" "epoch_key ns \<noteq> spent_key ns ep uid"
  by (auto simp: epoch_key_def clock_key_def spent_key_def dest: arg_cong [of _ _ length])

text \<open>
  A server ready for a namespace: its epoch is the configured one and its high-water key holds a
  number, both without a deadline.
\<close>

definition provisioned :: "'r redis_api \<Rightarrow> string \<Rightarrow> string \<Rightarrow> int \<Rightarrow> 'r \<Rightarrow> bool" where
  "provisioned R ns ep h r \<longleftrightarrow>
     rd_get R r (epoch_key ns) = Some ep \<and> rd_deadline R r (epoch_key ns) = None \<and>
     high_water R (clock_key ns) r = Some h \<and> rd_deadline R r (clock_key ns) = None"

lemma provisioned_at:
  assumes "redis_laws R" "provisioned R ns ep h r"
  shows "provisioned R ns ep h (rd_at R t r)"
proof -
  have "rd_get R r (clock_key ns) \<noteq> None" using assms(2)
    by (cases "rd_get R r (clock_key ns)") (auto simp: provisioned_def high_water_def)
  then have "keeps R (clock_key ns) r (rd_at R t r)" "keeps R (epoch_key ns) r (rd_at R t r)"
    using assms(2) by (auto simp: provisioned_def intro!: rd_at_facts(3) [OF assms(1)])
  then show ?thesis using assms(2) by (simp add: provisioned_def keeps_def high_water_def)
qed

text \<open>A node in step with the server redeems an unspent token that the high-water key has not passed.\<close>

lemma fresh_redeem_accepted:
  assumes laws: "redis_laws R" and ready: "provisioned R ns ep h r" and "0 \<le> skew"
    and unspent: "rd_get R r (spent_key ns ep (redemption_id X token)) = None"
    and now: "now = max (redis_time R r) h" "now < e"
  obtains r' where "redis_run R X ns ep skew token e (redis_time R r) r = (Some 1, r')"
    "provisioned R ns ep now r'" "rd_clock_ms R r' = rd_clock_ms R r"
    "rd_deadline R r' (spent_key ns ep (redemption_id X token)) =
       Some (rd_clock_ms R r + 1000 * (e - now + skew + 1))"
proof -
  let ?k = "spent_key ns ep (redemption_id X token)"
  let ?run = "CONSUME R (epoch_key ns) ?k (clock_key ns) ep (int_str e) (int_str skew) (int_str (redis_time R r)) r"
  obtain res r' where run: "?run = (res, r')" by fastforce
  have eq: "redis_run R X ns ep skew token e (redis_time R r) r = (res, r')"
    using run by (simp add: redis_run_def redis_keys_eq epoch_key_def)
  define r1 where "r1 = (if now > h then rd_set R (clock_key ns) (int_str now) r else r)"
  have "rd_get R r1 ?k = None"
    using unspent rd_set_facts(4) [OF laws, of ?k "clock_key ns"] by (simp add: r1_def keeps_def)
  then have "fst (rd_set_nx_ex R ?k ''1'' (e - now + skew + 1) r1)"
    using now(2) assms(3) by (intro rd_nx_facts(1) [OF laws]) simp_all
  moreover have "fst ?run = (if fst (rd_set_nx_ex R ?k ''1'' (e - now + skew + 1) r1) then Some 1 else Some 0)"
    using ready assms(3) now(2)
    by (simp add: CONSUME_def provisioned_def high_water_def Let_def split_def r1_def flip: now(1))
  ultimately have res: "res = Some 1" using run by simp
  from laws spent_key_not_clock assms(3) run show thesis
  proof (cases rule: CONSUME_cases)
    case refused
    then show thesis using res by simp
  next
    case (ran previous now')
    then have "previous = h" "now' = now" using ready now by (simp_all add: provisioned_def)
    moreover have "keeps R (epoch_key ns) r r'" by (rule ran(7)) simp_all
    moreover have "rd_deadline R r' (clock_key ns) = None"
      using ran(5) ready by (auto simp: provisioned_def keeps_def)
    ultimately show thesis using that [of r'] eq ran(4,6) ran(9) [OF unspent] ready
      by (simp add: provisioned_def keeps_def)
  qed
qed

lemma max_div: "0 < d \<Longrightarrow> max x y div d = max (x div d) (y div d :: int)"
  using zdiv_mono1 [of x y d] zdiv_mono1 [of y x d] by (auto simp: max_def)

text \<open>
  C39. The bound on the clock in the theorem above is sharp, against the comment above the script: as soon as
  \<open>2 S\<close> exceeds the skew plus one, on every server that obeys the laws and drops expired keys, and
  from every provisioned state whose clock reads \<open>S\<close> seconds below its highest reading, there is a
  run in which the clock never reads more than \<open>S\<close> seconds below that and a token is accepted
  twice. The marker's lifetime is counted from the high-water time but runs on the server's own
  clock, and an attempt with an expired token does not advance the high-water key.
\<close>

theorem redis_clock_bound_sharp:
  assumes "redis_laws R" "expiry_law R" "0 \<le> skew" "skew + 1 < 2 * S"
    and "provisioned R ns ep peak r" "redis_time R r = peak - S" "peak < expires"
    and "rd_get R r (spent_key ns ep (redemption_id X token)) = None"
  shows "\<exists>events. admitted (redis_step R X ns ep skew) (clock_ok S) events (r, peak) \<and>
    acceptances (redis_step R X ns ep skew) (redis_accepts R X ns ep skew) events (r, peak)
      (redemption_id X token) expires = 2"
proof -
  let ?k = "spent_key ns ep (redemption_id X token)"
  have S: "0 < S" using assms(3,4) by simp
  obtain a where a: "redis_run R X ns ep skew token expires (peak - S) r = (Some 1, a)"
    "provisioned R ns ep peak a"
    "rd_deadline R a ?k = Some (rd_clock_ms R r + 1000 * (expires - peak + skew + 1))"
    using fresh_redeem_accepted [OF assms(1,5,3,8), of peak expires] assms(6,7) S by auto
  define t where "t = max (rd_clock_ms R r + 1000 * (expires - peak + skew + 1)) (1000 * peak)"
  define m where "m = t div 1000"
  have m: "m = max (expires - S + skew + 1) peak"
    using assms(6) by (simp add: m_def t_def max_div redis_time_def algebra_simps)
  define u where "u = 1000 * (m - S)"
  have u: "u div 1000 = m - S" by (simp add: u_def)
  let ?b = "rd_at R u (rd_at R t a)"
  have "rd_get R (rd_at R t a) ?k = None" using assms(2) a(3) by (auto simp: expiry_law_def t_def)
  then have unspent: "rd_get R ?b ?k = None" by (rule rd_at_facts(2) [OF assms(1)])
  have ready: "provisioned R ns ep peak ?b" by (intro provisioned_at assms(1) a(2))
  have time: "redis_time R ?b = m - S" by (simp add: redis_time_def rd_at_facts(1) [OF assms(1)] u)
  have "max (m - S) peak < expires" using m assms(4,7) S by auto
  then obtain b where b: "redis_run R X ns ep skew token expires (m - S) ?b = (Some 1, b)"
    using fresh_redeem_accepted [OF assms(1) ready assms(3) unspent refl] time by auto
  let ?events = "[Redeem token expires (peak - S), ClockMoves t, ClockMoves u, Redeem token expires (m - S)]"
  have "admitted (redis_step R X ns ep skew) (clock_ok S) ?events (r, peak)"
    using S m by (simp add: admitted_def u flip: m_def)
  moreover have "acceptances (redis_step R X ns ep skew) (redis_accepts R X ns ep skew) ?events (r, peak)
      (redemption_id X token) expires = 2" by (simp add: a(1) b)
  ultimately show ?thesis by blast
qed

theorem redis_clock_bound_sharp_witness:
  "\<exists>events. admitted (redis_step server_api sample ''n'' ''e1'' 5) (clock_ok 4) events (server0 1096000 1100, 1100) \<and>
     acceptances (redis_step server_api sample ''n'' ''e1'' 5) (redis_accepts server_api sample ''n'' ''e1'' 5) events
       (server0 1096000 1100, 1100) (redemption_id sample ''t'') 1120 = 2"
proof (rule redis_clock_bound_sharp [OF server_laws server_expiry])
  show "provisioned server_api ''n'' ''e1'' 1100 (server0 1096000 1100)"
    by (simp add: provisioned_def server0_facts) (simp add: server_api_def server0_def epoch_key_def)
qed (simp_all add: server0_facts, simp add: server_api_def server0_def spent_key_def)

text \<open>
  A forward glitch alone suffices, without any rollback below the high-water key: the
  expired branch returns before the key is advanced, so a marker that lapsed while the clock was
  wrongly ahead leaves no trace once the clock is corrected.
\<close>

theorem redis_glitch_double_spend:
  "acceptances (redis_step server_api sample ''n'' ''e1'' 5) (redis_accepts server_api sample ''n'' ''e1'' 5)
     [Redeem ''t'' 1120 1000, ClockMoves 2000000, Redeem ''t'' 1120 2000, ClockMoves 1001000,
      Redeem ''t'' 1120 1001]
     (server0 1000000 1000, 1000) (redemption_id sample ''t'') 1120 = 2"
  by (simp add: redis_run_def CONSUME_def redis_keys_eq server_api_def server0_def redis_time_def
      spent_key_def clock_key_def high_water_def Let_def)

text \<open>
  The wire format admits no injection: from a stream that starts with an encoded command the
  list of its parts and the rest of the stream are determined, whatever bytes the parts hold, so
  no part can be read as a further command or as two parts.
\<close>

theorem command_prefix_free:
  assumes "command parts @ rest = command parts' @ rest'"
  shows "parts = parts' \<and> rest = rest'"
proof -
  from assms have "length parts = length parts' \<and>
      concat (map bulk parts) @ rest = concat (map bulk parts') @ rest'"
    unfolding command_eq by (intro number_line_inject) simp
  then show ?thesis using bulks_inject by blast
qed

theorem command_prefix_free_witness:
  "command [[13, 10], [42]] @ [1] = command [[13, 10], [42]] @ [1] \<and> [[13 :: u8, 10], [42]] = [[13, 10], [42]]"
  using command_prefix_free [of "[[13, 10], [42]]" "[1]" "[[13, 10], [42]]" "[1]"] by simp

text \<open>
  Replies may arrive in pieces: once a reply is read from the front of the buffer, more bytes
  behind it (within the 1024-byte bound) change neither the reply nor the number of bytes it
  took, which lie inside the buffer; and a buffer is called incomplete exactly when it is within
  the bound and has no line end.
\<close>

theorem read_reply_streaming:
  assumes "read_reply input = Inr (Some (v, n))" "length (input @ rest) \<le> 1024"
  shows "read_reply (input @ rest) = Inr (Some (v, n)) \<and> n \<le> length input \<and>
         (read_reply other = Inr None \<longleftrightarrow> length other \<le> 1024 \<and> find_sub other CRLF = None)"
proof -
  from assms(1) obtain m where m: "find_sub input CRLF = Some m"
    by (auto simp: read_reply_def split: if_splits option.splits)
  have le: "m + 2 \<le> length input" using find_sub_bound [OF m] by (simp add: CRLF_def)
  have "read_reply (input @ rest) = read_reply input"
    using assms(2) m find_sub_append [OF m, of rest] le by (simp add: read_reply_def)
  moreover have "n = m + 2"
    using assms(1) m by (auto simp: read_reply_def Let_def split: if_splits option.splits)
  moreover have "read_reply other = Inr None \<longleftrightarrow> length other \<le> 1024 \<and> find_sub other CRLF = None"
    by (auto simp: read_reply_def Let_def split: option.split)
  ultimately show ?thesis using assms(1) le by simp
qed

theorem read_reply_streaming_witness:
  "read_reply (as_bytes ''+OK'' @ CRLF) = Inr (Some (ReplyOk, 5)) \<and>
   read_reply ((as_bytes ''+OK'' @ CRLF) @ [58]) = Inr (Some (ReplyOk, 5))"
proof -
  have "find_sub (as_bytes ''+OK'' @ CRLF) CRLF = Some 3" by code_simp
  then have a: "read_reply (as_bytes ''+OK'' @ CRLF) = Inr (Some (ReplyOk, 5))"
    by (simp add: read_reply_def CRLF_def)
  have "length ((as_bytes ''+OK'' @ CRLF) @ [58]) \<le> 1024" by (simp add: CRLF_def)
  from read_reply_streaming [OF a this] a show ?thesis by blast
qed

end
