(* ===== verification/Ip.thy ===== *)
theory Ip
  imports Rust_Std
begin

text \<open>
  Internet addresses as the Rust standard library has them (\<open>std::net::IpAddr\<close>): the value, its
  text form (\<open>Display\<close>) and its parser (\<open>FromStr\<close>), which the sources use to bind clients to
  networks and to read range lists, and the address policy of \<open>pow-gate-core/src/context.rs\<close>.
\<close>

datatype ip_addr = V4 u32 | V6 u128

subsection \<open>Text form\<close>

definition v4_octets :: "u32 \<Rightarrow> u8 list" where
  "v4_octets a = [ucast (drop_bit 24 a), ucast (drop_bit 16 a), ucast (drop_bit 8 a), ucast a]"

definition v4_to_string :: "u32 \<Rightarrow> string" where
  "v4_to_string a =
     (case v4_octets a of
        [b1, b2, b3, b4] \<Rightarrow>
          nat_str (unat b1) @ ''.'' @ nat_str (unat b2) @ ''.'' @ nat_str (unat b3) @ ''.''
            @ nat_str (unat b4)
      | _ \<Rightarrow> [])"

definition v6_segments :: "u128 \<Rightarrow> u16 list" where
  "v6_segments a = map (\<lambda>i. ucast (drop_bit (16 * (7 - i)) a)) [0..<8]"

definition v6_of_segments :: "u16 list \<Rightarrow> u128" where
  "v6_of_segments segs = foldl (\<lambda>acc s. push_bit 16 acc OR ucast s) 0 segs"

definition to_ipv4_mapped :: "u128 \<Rightarrow> u32 option" where
  "to_ipv4_mapped a = (if drop_bit 32 a = 0xffff then Some (ucast a) else None)"

definition hex_char :: "nat \<Rightarrow> char" where
  "hex_char n = char_of (if n < 10 then 48 + n else 87 + n)"

fun hex_str :: "nat \<Rightarrow> string" where
  "hex_str n = (if n < 16 then [hex_char n] else hex_str (n div 16) @ [hex_char (n mod 16)])"

declare hex_str.simps [simp del]

fun fmt_subslice :: "u16 list \<Rightarrow> string" where
  "fmt_subslice [] = []"
| "fmt_subslice [s] = hex_str (unat s)"
| "fmt_subslice (s # t # r) = hex_str (unat s) @ CHR '':'' # fmt_subslice (t # r)"

text \<open>The longest run of zero segments, the first one when two are equally long: positions are
  counted by the loop index, a span is (start, length).\<close>

fun zero_span :: "nat \<Rightarrow> u16 list \<Rightarrow> nat \<times> nat \<Rightarrow> nat \<times> nat \<Rightarrow> nat \<times> nat" where
  "zero_span i [] longest current = longest"
| "zero_span i (s # segs) longest current =
     (if s = 0 then
        let start = (if snd current = 0 then i else fst current);
            current' = (start, snd current + 1);
            longest' = (if snd current' > snd longest then current' else longest)
        in zero_span (i + 1) segs longest' current'
      else zero_span (i + 1) segs longest (0, 0))"

definition v6_to_string :: "u128 \<Rightarrow> string" where
  "v6_to_string a =
     (case to_ipv4_mapped a of
        Some v4 \<Rightarrow> ''::ffff:'' @ v4_to_string v4
      | None \<Rightarrow>
          (let segments = v6_segments a;
               (start, len) = zero_span 0 segments (0, 0) (0, 0)
           in if len > 1
              then fmt_subslice (take start segments) @ ''::''
                     @ fmt_subslice (drop (start + len) segments)
              else fmt_subslice segments))"

fun ip_to_string :: "ip_addr \<Rightarrow> string" where
  "ip_to_string (V4 a) = v4_to_string a"
| "ip_to_string (V6 a) = v6_to_string a"

subsection \<open>Parser\<close>

text \<open>A reader takes the remaining text and returns a value with the text after it; a reader that
  fails leaves the position where it was, so failure is \<open>None\<close>.\<close>

definition to_digit :: "nat \<Rightarrow> char \<Rightarrow> nat option" where
  "to_digit radix c =
     (let n = of_char c :: nat;
          d = (if 48 \<le> n \<and> n \<le> 57 then Some (n - 48)
               else if 97 \<le> n \<and> n \<le> 122 then Some (n - 87)
               else if 65 \<le> n \<and> n \<le> 90 then Some (n - 55)
               else None)
      in case d of Some v \<Rightarrow> if v < radix then Some v else None | None \<Rightarrow> None)"

text \<open>Digits accumulate with checked multiplication and addition at the width \<open>bound\<close>.\<close>

fun read_digits :: "nat \<Rightarrow> nat \<Rightarrow> nat \<Rightarrow> nat \<Rightarrow> nat \<Rightarrow> string \<Rightarrow> (nat \<times> nat \<times> string) option" where
  "read_digits radix max_digits bound count acc s =
     (case s of
        [] \<Rightarrow> Some (acc, count, [])
      | c # r \<Rightarrow>
          (case to_digit radix c of
             None \<Rightarrow> Some (acc, count, s)
           | Some d \<Rightarrow>
               if acc * radix \<ge> bound \<or> acc * radix + d \<ge> bound then None
               else if count + 1 > max_digits then None
               else read_digits radix max_digits bound (count + 1) (acc * radix + d) r))"

definition read_number :: "nat \<Rightarrow> nat \<Rightarrow> bool \<Rightarrow> nat \<Rightarrow> string \<Rightarrow> (nat \<times> string) option" where
  "read_number radix max_digits allow_zero_prefix bound s =
     (let leading_zero = (take 1 s = ''0'') in
      case read_digits radix max_digits bound 0 0 s of
        None \<Rightarrow> None
      | Some (v, count, r) \<Rightarrow>
          if count = 0 then None
          else if \<not> allow_zero_prefix \<and> leading_zero \<and> count > 1 then None
          else Some (v, r))"

definition read_separator ::
  "char \<Rightarrow> nat \<Rightarrow> (string \<Rightarrow> ('a \<times> string) option) \<Rightarrow> string \<Rightarrow> ('a \<times> string) option" where
  "read_separator sep index inner s =
     (if index > 0 then
        (case s of [] \<Rightarrow> None | c # r \<Rightarrow> if c = sep then inner r else None)
      else inner s)"

fun read_octets :: "nat \<Rightarrow> nat \<Rightarrow> string \<Rightarrow> (nat list \<times> string) option" where
  "read_octets 0 i s = Some ([], s)"
| "read_octets (Suc n) i s =
     (case read_separator (CHR ''.'') i (read_number 10 3 False 256) s of
        None \<Rightarrow> None
      | Some (v, r) \<Rightarrow>
          (case read_octets n (i + 1) r of
             None \<Rightarrow> None | Some (vs, r') \<Rightarrow> Some (v # vs, r')))"

definition read_ipv4_addr :: "string \<Rightarrow> (u32 \<times> string) option" where
  "read_ipv4_addr s =
     (case read_octets 4 0 s of
        None \<Rightarrow> None
      | Some (vs, r) \<Rightarrow> Some (foldl (\<lambda>acc v. acc * 256 + of_nat v) 0 vs, r))"

text \<open>Groups read up to \<open>limit\<close>, whether they end with an embedded IPv4 address, and the rest.\<close>

fun read_groups :: "nat \<Rightarrow> nat \<Rightarrow> nat \<Rightarrow> string \<Rightarrow> u16 list \<times> bool \<times> string" where
  "read_groups 0 limit i s = ([], False, s)"
| "read_groups (Suc n) limit i s =
     (let plain =
        (case read_separator (CHR '':'') i (read_number 16 4 True 65536) s of
           None \<Rightarrow> ([], False, s)
         | Some (g, r) \<Rightarrow>
             (case read_groups n limit (i + 1) r of
                (gs, v4, r') \<Rightarrow> (of_nat g # gs, v4, r')))
      in if i + 1 < limit then
           (case read_separator (CHR '':'') i read_ipv4_addr s of
              Some (a, r) \<Rightarrow> ([ucast (drop_bit 16 a), ucast a], True, r)
            | None \<Rightarrow> plain)
         else plain)"

definition read_ipv6_addr :: "string \<Rightarrow> (u128 \<times> string) option" where
  "read_ipv6_addr s =
     (case read_groups 8 8 0 s of
        (head, head_ipv4, r) \<Rightarrow>
          if length head = 8 then Some (v6_of_segments head, r)
          else if head_ipv4 then None
          else if take 2 r \<noteq> ''::'' then None
          else
            (let limit = 8 - (length head + 1) in
             case read_groups limit limit 0 (drop 2 r) of
               (tail, tail_ipv4, r') \<Rightarrow>
                 Some (v6_of_segments
                   (head @ replicate (8 - length head - length tail) 0 @ tail), r')))"

definition parse_ipv4 :: "string \<Rightarrow> u32 option" where
  "parse_ipv4 s =
     (if length s > 15 then None
      else case read_ipv4_addr s of Some (a, []) \<Rightarrow> Some a | _ \<Rightarrow> None)"

definition parse_ipv6 :: "string \<Rightarrow> u128 option" where
  "parse_ipv6 s = (case read_ipv6_addr s of Some (a, []) \<Rightarrow> Some a | _ \<Rightarrow> None)"

definition parse_ip :: "string \<Rightarrow> ip_addr option" where
  "parse_ip s =
     (case read_ipv4_addr s of
        Some (a, r) \<Rightarrow> if r = [] then Some (V4 a) else None
      | None \<Rightarrow>
          (case read_ipv6_addr s of Some (a, []) \<Rightarrow> Some (V6 a) | _ \<Rightarrow> None))"

subsection \<open>An address is determined by its text\<close>

lemma ucast_drop_bit_eqD:
  fixes a b :: "'a::len word"
  assumes "\<And>i. ucast (drop_bit (LENGTH('b) * i) a) = (ucast (drop_bit (LENGTH('b) * i) b) :: 'b::len word)"
  shows "a = b"
proof (rule bit_word_eqI)
  fix n
  let ?w = "LENGTH('b)"
  have "bit (ucast (drop_bit (?w * (n div ?w)) u) :: 'b word) (n mod ?w) = bit u n" for u :: "'a word"
    by (simp add: bit_ucast_iff bit_drop_bit_eq)
  then show "bit a n = bit b n" using assms [of "n div ?w"] by metis
qed

lemma v4_octets_inject: "v4_octets a = v4_octets b \<longleftrightarrow> a = b"
proof
  assume "v4_octets a = v4_octets b"
  then have *: "ucast (drop_bit 24 a) = (ucast (drop_bit 24 b) :: u8)"
    "ucast (drop_bit 16 a) = (ucast (drop_bit 16 b) :: u8)"
    "ucast (drop_bit 8 a) = (ucast (drop_bit 8 b) :: u8)" "ucast a = (ucast b :: u8)"
    by (simp_all add: v4_octets_def)
  have "ucast (drop_bit (LENGTH(8) * i) a) = (ucast (drop_bit (LENGTH(8) * i) b) :: u8)" for i
  proof -
    consider "i = 0" | "i = 1" | "i = 2" | "i = 3" | "4 \<le> i" by linarith
    then show ?thesis
    proof cases
      case 5
      then have "drop_bit (8 * i) a = 0" "drop_bit (8 * i) b = 0"
        by (auto intro!: bit_word_eqI simp: bit_drop_bit_eq dest: bit_imp_le_length)
      then show ?thesis by simp
    qed (use * in simp_all)
  qed
  then show "a = b" by (rule ucast_drop_bit_eqD)
qed simp

lemma v6_segments_inject: "v6_segments a = v6_segments b \<longleftrightarrow> a = b"
proof
  assume eq: "v6_segments a = v6_segments b"
  have *: "ucast (drop_bit (16 * (7 - i)) a) = (ucast (drop_bit (16 * (7 - i)) b) :: u16)" if "i < 8" for i
    using arg_cong [OF eq, of "\<lambda>l. l ! i"] that by (simp add: v6_segments_def)
  have "ucast (drop_bit (LENGTH(16) * i) a) = (ucast (drop_bit (LENGTH(16) * i) b) :: u16)" for i
  proof (cases "i < 8")
    case True
    then show ?thesis using * [of "7 - i"] by simp
  next
    case False
    then have "drop_bit (16 * i) a = 0" "drop_bit (16 * i) b = 0"
      by (auto intro!: bit_word_eqI simp: bit_drop_bit_eq dest: bit_imp_le_length)
    then show ?thesis by simp
  qed
  then show "a = b" by (rule ucast_drop_bit_eqD)
qed simp

lemma nat_str_sep_inject:
  "\<not> is_ascii_digit c \<Longrightarrow> nat_str m @ c # r = nat_str n @ c # s \<longleftrightarrow> m = n \<and> r = s"
proof
  assume c: "\<not> is_ascii_digit c" and eq: "nat_str m @ c # r = nat_str n @ c # s"
  from c have "c \<notin> set (nat_str m)" "c \<notin> set (nat_str n)" using nat_str_digits by blast+
  from split_once_unique [OF this eq] show "m = n \<and> r = s" by simp
qed simp

lemma not_digit_dot [simp]: "\<not> is_ascii_digit (CHR ''.'')" "\<not> is_ascii_digit (CHR '':'')"
  by (simp_all add: is_ascii_digit_def)

lemma v4_to_string_inject: "v4_to_string a = v4_to_string b \<longleftrightarrow> a = b"
proof
  assume "v4_to_string a = v4_to_string b"
  then have "v4_octets a = v4_octets b"
    by (simp add: v4_to_string_def v4_octets_def nat_str_sep_inject word_unat_eq_iff)
  then show "a = b" by (simp add: v4_octets_inject)
qed simp

lemma v4_to_string_chars: "c \<in> set (v4_to_string a) \<Longrightarrow> is_ascii_digit c \<or> c = CHR ''.''"
  by (auto simp: v4_to_string_def v4_octets_def dest: nat_str_digits)

lemma v4_to_string_dot: "CHR ''.'' \<in> set (v4_to_string a)"
  by (simp add: v4_to_string_def v4_octets_def)

text \<open>Hexadecimal groups.\<close>

definition hex_value :: "string \<Rightarrow> nat" where
  "hex_value s = foldl (\<lambda>acc c. acc * 16 + the (to_digit 16 c)) 0 s"

lemma to_digit_hex_char: "n < 16 \<Longrightarrow> to_digit 16 (hex_char n) = Some n"
  by (simp add: to_digit_def hex_char_def of_char_of)

lemma hex_value_hex_str: "hex_value (hex_str n) = n"
proof (induction n rule: hex_str.induct)
  case (1 n)
  then show ?case
    by (cases "n < 16") (simp_all add: hex_str.simps [of n] hex_value_def to_digit_hex_char)
qed

lemma hex_str_inject [simp]: "hex_str m = hex_str n \<longleftrightarrow> m = n"
  by (metis hex_value_hex_str)

lemma hex_str_chars: "c \<in> set (hex_str n) \<Longrightarrow> \<exists>k<16. c = hex_char k"
proof (induction n rule: hex_str.induct)
  case (1 n)
  have "\<exists>k<16. hex_char (n mod 16) = hex_char k" by (rule exI [of _ "n mod 16"]) simp
  with 1 show ?case by (cases "n < 16") (auto simp: hex_str.simps [of n])
qed

lemma hex_char_neq: "n < 16 \<Longrightarrow> hex_char n \<noteq> CHR '':'' \<and> hex_char n \<noteq> CHR ''.''"
proof -
  assume "n < 16"
  then have "(of_char (hex_char n) :: nat) \<noteq> 58 \<and> (of_char (hex_char n) :: nat) \<noteq> 46"
    by (auto simp: hex_char_def of_char_of)
  then show ?thesis by auto
qed

lemma hex_str_no_sep: "CHR '':'' \<notin> set (hex_str n)" "CHR ''.'' \<notin> set (hex_str n)"
  using hex_str_chars hex_char_neq by metis+

lemma hex_str_not_Nil [simp]: "hex_str n \<noteq> []"
  by (simp add: hex_str.simps [of n])

lemma hex_str_sep_inject:
  "hex_str m @ CHR '':'' # r = hex_str n @ CHR '':'' # s \<longleftrightarrow> m = n \<and> r = s"
  using split_once_unique [OF hex_str_no_sep(1) hex_str_no_sep(1), of m r n s] by auto

lemma hex_str_ends: "hex_str m \<noteq> hex_str n @ CHR '':'' # s"
  using hex_str_no_sep(1) [of m] by auto

lemma fmt_subslice_Cons:
  "fmt_subslice (x # xs) = hex_str (unat x) @ (if xs = [] then [] else CHR '':'' # fmt_subslice xs)"
  by (cases xs) simp_all

lemma fmt_subslice_hd: "fmt_subslice (x # xs) @ r \<noteq> CHR '':'' # s"
  using hex_str_no_sep(1) [of "unat x"]
  by (cases "hex_str (unat x)") (auto simp: fmt_subslice_Cons)

lemma fmt_subslice_gap:
  "fmt_subslice (x # xs) @ ''::'' @ r =
     hex_str (unat x) @ CHR '':'' # (if xs = [] then CHR '':'' # r else fmt_subslice xs @ ''::'' @ r)"
  by (simp add: fmt_subslice_Cons)

lemma fmt_subslice_gap_inject:
  "fmt_subslice xs @ ''::'' @ r = fmt_subslice ys @ ''::'' @ s \<Longrightarrow> xs = ys \<and> r = s"
proof (induction xs arbitrary: ys)
  case Nil
  show ?case
  proof (cases ys)
    case (Cons y zs)
    with Nil fmt_subslice_hd [of y zs "''::'' @ s" "CHR '':'' # r"] show ?thesis by simp
  qed (use Nil in simp)
next
  case (Cons x xs)
  then obtain y zs where ys: "ys = y # zs" using fmt_subslice_hd by (cases ys) auto
  let ?g = "\<lambda>xs r. if xs = [] then CHR '':'' # r else fmt_subslice xs @ ''::'' @ r"
  from Cons.prems have "unat x = unat y" and rest: "?g xs r = ?g zs s"
    unfolding ys fmt_subslice_gap hex_str_sep_inject by simp_all
  then have "x = y" by (simp add: word_unat_eq_iff)
  moreover have "xs = zs \<and> r = s"
  proof (cases xs; cases zs)
    fix a as assume "xs = []" "zs = a # as"
    with rest fmt_subslice_hd [of a as "''::'' @ s" r] show ?thesis by simp
  next
    fix a as assume "xs = a # as" "zs = []"
    with rest fmt_subslice_hd [of a as "''::'' @ r" s] show ?thesis by simp
  qed (use rest Cons.IH [of zs] in simp_all)
  ultimately show ?case by (simp add: ys)
qed

lemma fmt_subslice_no_gap: "fmt_subslice xs \<noteq> fmt_subslice ys @ ''::'' @ r"
proof (induction ys arbitrary: xs)
  case Nil
  then show ?case using fmt_subslice_hd [of _ _ "[]"] by (cases xs) auto
next
  case (Cons y ys)
  show ?case
  proof (cases xs)
    case Nil
    then show ?thesis by (simp add: fmt_subslice_Cons)
  next
    case xs: (Cons x zs)
    show ?thesis
    proof
      assume eq: "fmt_subslice xs = fmt_subslice (y # ys) @ ''::'' @ r"
      show False
      proof (cases zs)
        case Nil
        then show False using eq hex_str_ends unfolding xs fmt_subslice_gap by simp
      next
        case (Cons z zs')
        then have "fmt_subslice zs = (if ys = [] then CHR '':'' # r else fmt_subslice ys @ ''::'' @ r)"
          using eq unfolding xs fmt_subslice_gap fmt_subslice_Cons [of x] by (simp add: hex_str_sep_inject)
        then show False using Cons.IH [of zs] fmt_subslice_hd [of z zs' "[]"] Cons by (auto split: if_splits)
      qed
    qed
  qed
qed

lemma fmt_subslice_inject: "fmt_subslice xs = fmt_subslice ys \<Longrightarrow> xs = ys"
proof (induction xs arbitrary: ys)
  case Nil
  then show ?case by (cases ys) (auto simp: fmt_subslice_Cons)
next
  case (Cons x xs)
  then obtain y zs where ys: "ys = y # zs" by (cases ys) (auto simp: fmt_subslice_Cons)
  have "unat x = unat y \<and> xs = zs"
    using Cons.prems Cons.IH [of zs] hex_str_ends [of "unat x" "unat y"] hex_str_ends [of "unat y" "unat x"]
    unfolding ys fmt_subslice_Cons
    by (cases "xs = []"; cases "zs = []") (auto simp: hex_str_sep_inject eq_commute)
  then show ?case by (simp add: ys word_unat_eq_iff)
qed

text \<open>The span that is left out consists of zero segments.\<close>

definition zero_at :: "u16 list \<Rightarrow> nat \<times> nat \<Rightarrow> bool" where
  "zero_at full sp \<longleftrightarrow> (\<forall>j < snd sp. full ! (fst sp + j) = 0)"

lemma zero_span_sound:
  assumes "full = pre @ segs" "i = length pre"
    and "zero_at full longest" "zero_at full current"
    and "snd longest = 0 \<or> fst longest + snd longest \<le> i" "snd current = 0 \<or> fst current + snd current = i"
    and "zero_span i segs longest current = (st, len)"
  shows "zero_at full (st, len) \<and> (len = 0 \<or> st + len \<le> length full)"
  using assms
proof (induction segs arbitrary: pre i longest current)
  case Nil
  then show ?case by auto
next
  case (Cons s segs)
  have pre': "full = (pre @ [s]) @ segs" "i + 1 = length (pre @ [s])" using Cons.prems(1,2) by simp_all
  show ?case
  proof (cases "s = 0")
    case False
    show ?thesis
    proof (rule Cons.IH [OF pre' Cons.prems(3), of "(0, 0)"])
      show "zero_span (i + 1) segs longest (0, 0) = (st, len)" using Cons.prems(7) False by simp
    qed (use Cons.prems in \<open>auto simp: zero_at_def\<close>)
  next
    case True
    define start where "start = (if snd current = 0 then i else fst current)"
    define cur where "cur = (start, snd current + 1)"
    define lon where "lon = (if snd cur > snd longest then cur else longest)"
    have here: "full ! i = 0" using Cons.prems(1,2) True by (simp add: nth_append)
    have sum: "start + snd current = i" using Cons.prems(6) by (auto simp: start_def)
    have cur: "zero_at full cur" unfolding zero_at_def
    proof (intro allI impI)
      fix j assume "j < snd cur"
      then have "j < snd current \<or> j = snd current" by (auto simp: cur_def)
      then show "full ! (fst cur + j) = 0"
        using Cons.prems(4) here sum by (auto simp: cur_def start_def zero_at_def)
    qed
    show ?thesis
    proof (rule Cons.IH [OF pre' _ cur])
      show "zero_at full lon" using cur Cons.prems(3) by (simp add: lon_def)
      show "snd lon = 0 \<or> fst lon + snd lon \<le> i + 1"
        using Cons.prems(5) sum by (auto simp: lon_def cur_def)
      show "snd cur = 0 \<or> fst cur + snd cur = i + 1" using sum by (simp add: cur_def)
      show "zero_span (i + 1) segs lon cur = (st, len)"
        using Cons.prems(7) True unfolding lon_def cur_def start_def
        by (simp add: Let_def split del: if_split cong: if_cong)
    qed
  qed
qed

lemma zero_span_segments:
  assumes "zero_span 0 segs (0, 0) (0, 0) = (st, len)" "len > 1"
  shows "segs = take st segs @ replicate len 0 @ drop (st + len) segs" "st + len \<le> length segs"
proof -
  from zero_span_sound [of segs "[]" segs 0 "(0, 0)" "(0, 0)" st len] assms
  have z: "zero_at segs (st, len)" and le: "st + len \<le> length segs" by (auto simp: zero_at_def)
  then have "take len (drop st segs) = replicate len 0"
    by (intro nth_equalityI) (auto simp: zero_at_def)
  then show "segs = take st segs @ replicate len 0 @ drop (st + len) segs"
    by (metis append_take_drop_id drop_drop add.commute)
  show "st + len \<le> length segs" by (rule le)
qed

lemma fmt_subslice_no_dot: "CHR ''.'' \<notin> set (fmt_subslice xs)"
  using hex_str_no_sep(2) by (induction xs rule: fmt_subslice.induct) auto

definition v6_plain :: "u16 list \<Rightarrow> string" where
  "v6_plain segments =
     (let (start, len) = zero_span 0 segments (0, 0) (0, 0)
      in if len > 1
         then fmt_subslice (take start segments) @ ''::'' @ fmt_subslice (drop (start + len) segments)
         else fmt_subslice segments)"

lemma v6_to_string_alt:
  "v6_to_string a =
     (case to_ipv4_mapped a of Some v4 \<Rightarrow> ''::ffff:'' @ v4_to_string v4
      | None \<Rightarrow> v6_plain (v6_segments a))"
  by (cases "to_ipv4_mapped a") (simp_all add: v6_to_string_def v6_plain_def Let_def)

lemma v6_plain_inject:
  assumes len: "length xs = length ys" and eq: "v6_plain xs = v6_plain ys"
  shows "xs = ys"
proof -
  obtain s n where x: "zero_span 0 xs (0, 0) (0, 0) = (s, n)" by fastforce
  obtain t m where y: "zero_span 0 ys (0, 0) (0, 0) = (t, m)" by fastforce
  consider "n > 1" "m > 1" | "\<not> n > 1" "\<not> m > 1" | "n > 1 \<longleftrightarrow> \<not> m > 1" by blast
  then show ?thesis
  proof cases
    case 1
    note xs = zero_span_segments [OF x 1(1)] and ys = zero_span_segments [OF y 1(2)]
    have "take s xs = take t ys \<and> fmt_subslice (drop (s + n) xs) = fmt_subslice (drop (t + m) ys)"
      using eq 1 x y by (intro fmt_subslice_gap_inject) (simp add: v6_plain_def)
    then have parts: "take s xs = take t ys" "drop (s + n) xs = drop (t + m) ys"
      using fmt_subslice_inject by blast+
    have "s = t" "n = m"
      using arg_cong [OF parts(1), of length] arg_cong [OF parts(2), of length] xs(2) ys(2) len
      by simp_all
    with parts xs(1) ys(1) show ?thesis by metis
  next
    case 2
    with eq x y show ?thesis by (auto simp: v6_plain_def intro: fmt_subslice_inject)
  next
    case 3
    with eq x y fmt_subslice_no_gap [of xs "take t ys" "fmt_subslice (drop (t + m) ys)"]
      fmt_subslice_no_gap [of ys "take s xs" "fmt_subslice (drop (s + n) xs)"] show ?thesis
      by (cases "n > 1") (auto simp: v6_plain_def)
  qed
qed

lemma v6_plain_no_dot: "CHR ''.'' \<notin> set (v6_plain xs)"
  by (auto simp: v6_plain_def fmt_subslice_no_dot split: prod.split)

lemma to_ipv4_mapped_inject:
  "to_ipv4_mapped a = Some v \<Longrightarrow> to_ipv4_mapped b = Some v \<Longrightarrow> a = b"
proof -
  assume a: "to_ipv4_mapped a = Some v" and b: "to_ipv4_mapped b = Some v"
  have hi: "drop_bit 32 a = drop_bit 32 b" and lo: "(ucast a :: u32) = ucast b"
    using a b by (auto simp: to_ipv4_mapped_def split: if_splits)
  show "a = b"
  proof (rule bit_word_eqI)
    fix n
    show "bit a n = bit b n"
    proof (cases "n < 32")
      case True
      then have "bit w n = bit (ucast w :: u32) n" for w :: u128 by (simp add: bit_ucast_iff)
      then show ?thesis using lo by metis
    next
      case False
      then have "bit w n = bit (drop_bit 32 w) (n - 32)" for w :: u128 by (simp add: bit_drop_bit_eq)
      then show ?thesis using hi by metis
    qed
  qed
qed

lemma v6_to_string_inject: "v6_to_string a = v6_to_string b \<longleftrightarrow> a = b"
proof
  assume eq: "v6_to_string a = v6_to_string b"
  have len: "length (v6_segments w) = 8" for w by (simp add: v6_segments_def)
  show "a = b"
  proof (cases "to_ipv4_mapped a"; cases "to_ipv4_mapped b")
    assume "to_ipv4_mapped a = None" "to_ipv4_mapped b = None"
    with eq have "v6_plain (v6_segments a) = v6_plain (v6_segments b)" by (simp add: v6_to_string_alt)
    then have "v6_segments a = v6_segments b" by (intro v6_plain_inject) (simp_all add: len)
    then show "a = b" by (simp add: v6_segments_inject)
  next
    fix v assume "to_ipv4_mapped a = None" "to_ipv4_mapped b = Some v"
    with eq have "v6_plain (v6_segments a) = ''::ffff:'' @ v4_to_string v" by (simp add: v6_to_string_alt)
    with v6_plain_no_dot [of "v6_segments a"] v4_to_string_dot [of v] show "a = b" by simp
  next
    fix v assume "to_ipv4_mapped a = Some v" "to_ipv4_mapped b = None"
    with eq have "v6_plain (v6_segments b) = ''::ffff:'' @ v4_to_string v" by (simp add: v6_to_string_alt)
    with v6_plain_no_dot [of "v6_segments b"] v4_to_string_dot [of v] show "a = b" by simp
  next
    fix v w assume "to_ipv4_mapped a = Some v" "to_ipv4_mapped b = Some w"
    with eq show "a = b"
      by (auto simp: v6_to_string_alt v4_to_string_inject intro: to_ipv4_mapped_inject)
  qed
qed simp

lemma v6_to_string_colon: "CHR '':'' \<in> set (v6_to_string a)"
proof (cases "to_ipv4_mapped a")
  case None
  obtain s n where z: "zero_span 0 (v6_segments a) (0, 0) (0, 0) = (s, n)" by fastforce
  have "\<exists>x y r. v6_segments a = x # y # r" by (simp add: v6_segments_def upt_rec)
  then have "CHR '':'' \<in> set (fmt_subslice (v6_segments a))" by auto
  with None z show ?thesis by (auto simp: v6_to_string_alt v6_plain_def)
qed (simp add: v6_to_string_alt)

theorem ip_to_string_inject: "ip_to_string a = ip_to_string b \<longleftrightarrow> a = b"
proof -
  have "v4_to_string u \<noteq> v6_to_string v" for u v
    using v6_to_string_colon [of v] v4_to_string_chars [of "CHR '':''" u] not_digit_dot(2) by auto
  then show ?thesis
    by (cases a; cases b) (auto simp: v4_to_string_inject v6_to_string_inject dest: sym)
qed

subsection \<open>Length of an address text\<close>

lemma length_nat_str_le_3: "n < 256 \<Longrightarrow> length (nat_str n) \<le> 3"
  using length_nat_str [of n 2] by simp

lemma length_hex_str_le_4: "n < 65536 \<Longrightarrow> length (hex_str n) \<le> 4"
  using hex_str.simps [of n] hex_str.simps [of "n div 16"] hex_str.simps [of "n div 16 div 16"]
    hex_str.simps [of "n div 16 div 16 div 16"]
  by (auto split: if_splits)

lemma length_v4_to_string: "length (v4_to_string a) \<le> 15"
proof -
  have "length (nat_str (unat (b :: u8))) \<le> 3" for b by (rule length_nat_str_le_3) simp
  from this [of "ucast (drop_bit 24 a)"] this [of "ucast (drop_bit 16 a)"]
    this [of "ucast (drop_bit 8 a)"] this [of "ucast a"]
  show ?thesis by (simp add: v4_to_string_def v4_octets_def)
qed

lemma length_fmt_subslice: "length (fmt_subslice xs) \<le> 5 * length xs"
proof (induction xs)
  case (Cons x xs)
  have "length (hex_str (unat x)) \<le> 4"
    using unsigned_less [of x] by (intro length_hex_str_le_4) simp
  with Cons show ?case by (simp add: fmt_subslice_Cons)
qed simp

lemma length_v6_plain: "length xs = 8 \<Longrightarrow> length (v6_plain xs) \<le> 82"
  using length_fmt_subslice [of xs]
    add_mono [OF length_fmt_subslice [of "take (fst (zero_span 0 xs (0, 0) (0, 0))) xs"]
      length_fmt_subslice [of "drop (fst (zero_span 0 xs (0, 0) (0, 0)) + snd (zero_span 0 xs (0, 0) (0, 0))) xs"]]
  by (auto simp: v6_plain_def split: prod.split if_split)

lemma length_ip_to_string: "length (ip_to_string a) \<le> 82"
proof (cases a)
  case (V4 x)
  then show ?thesis using length_v4_to_string [of x] by simp
next
  case (V6 x)
  have "length (v6_segments x) = 8" by (simp add: v6_segments_def)
  from length_v6_plain [OF this] V6 show ?thesis
    using length_v4_to_string [THEN order_trans, of 75]
    by (auto simp: v6_to_string_alt split: option.split)
qed

subsection \<open>Octets in network order\<close>

text \<open>The address families of libc, and the octets of a number as a socket address holds them.\<close>

definition libc_af_inet :: int where "libc_af_inet = 2"
definition libc_af_inet6 :: int where "libc_af_inet6 = 10"

definition word_octets :: "nat \<Rightarrow> 'a::len word \<Rightarrow> bytes" where
  "word_octets n a = map (\<lambda>i. ucast (drop_bit (8 * i) a)) (rev [0..<n])"

lemma horner_octets:
  "horner_sum uint 256 (map (\<lambda>i. ucast (drop_bit (8 * i) a) :: u8) [0..<n]) = take_bit (8 * n) (uint a)"
proof (induction n)
  case (Suc n)
  have "uint (ucast (drop_bit (8 * n) a) :: u8) = uint a div 2 ^ (8 * n) mod 256"
    by (simp add: unsigned_ucast_eq unsigned_drop_bit_eq take_bit_eq_mod)
      (simp add: drop_bit_eq_div)
  moreover have "x mod 2 ^ (8 * Suc n) = 2 ^ (8 * n) * (x div 2 ^ (8 * n) mod 256) + x mod 2 ^ (8 * n)" for x :: int
    using zmod_zmult2_eq [of 256 x "2 ^ (8 * n)"] by (simp add: power_add mult.commute)
  ultimately show ?case using Suc
    by (simp add: horner_sum_append take_bit_eq_mod power_mult)
qed simp

lemma rcat_octets: "LENGTH('a) = 8 * n \<Longrightarrow> word_rcat (word_octets n (a :: 'a::len word)) = a"
  by (simp add: word_rcat_def word_octets_def rev_map horner_octets take_bit_word_eq_self flip: unsigned_take_bit_eq)

lemma length_word_octets [simp]: "length (word_octets n a) = n"
  by (simp add: word_octets_def)

end
