(* ===== verification/Cluster_Config.thy ===== *)
theory Cluster_Config
  imports Redis Ip
begin

text \<open>
  The configuration half of \<open>cluster.rs\<close>: the \<open>pow_gate_redis { ... }\<close> block. nginx hands each
  inner line to \<open>inner\<close> as its list of words; the block is then checked as a whole and gives a
  \<open>Config\<close> or an error. \<open>std::net::SocketAddr\<close>'s parser is modelled after the standard library,
  on the readers of \<open>Ip\<close>.
\<close>

datatype socket_addr = SockV4 u32 nat | SockV6 u128 nat nat

definition read_port :: "string \<Rightarrow> (nat \<times> string) option" where
  "read_port s =
     (case s of
        [] \<Rightarrow> None
      | c # r \<Rightarrow> if c = CHR '':'' then read_number 10 (length r) True 65536 r else None)"

definition read_scope_id :: "string \<Rightarrow> nat \<times> string" where
  "read_scope_id s =
     (case s of
        [] \<Rightarrow> (0, s)
      | c # r \<Rightarrow>
          if c = CHR ''%'' then
            (case read_number 10 (length r) True (2 ^ 32) r of None \<Rightarrow> (0, s) | Some (n, q) \<Rightarrow> (n, q))
          else (0, s))"

definition read_socket_addr_v6 :: "string \<Rightarrow> (socket_addr \<times> string) option" where
  "read_socket_addr_v6 s =
     (case s of
        [] \<Rightarrow> None
      | c # r \<Rightarrow>
          if c \<noteq> CHR ''['' then None
          else case read_ipv6_addr r of
              None \<Rightarrow> None
            | Some (a, r1) \<Rightarrow>
                (case read_scope_id r1 of
                   (scope, r2) \<Rightarrow>
                     (case r2 of
                        [] \<Rightarrow> None
                      | d # r3 \<Rightarrow>
                          if d \<noteq> CHR '']'' then None
                          else case read_port r3 of
                              None \<Rightarrow> None | Some (p, r4) \<Rightarrow> Some (SockV6 a p scope, r4))))"

definition parse_socket_addr :: "string \<Rightarrow> socket_addr option" where
  "parse_socket_addr s =
     (case (case read_ipv4_addr s of
              Some (a, r) \<Rightarrow>
                (case read_port r of Some (p, q) \<Rightarrow> Some (SockV4 a p, q) | None \<Rightarrow> read_socket_addr_v6 s)
            | None \<Rightarrow> read_socket_addr_v6 s) of
        Some (a, []) \<Rightarrow> Some a | _ \<Rightarrow> None)"

text \<open>
  The socket address a connection is opened to (the \<open>match\<close> of \<open>make_job\<close>): family in host byte
  order, port in network order, then the address; an IPv6 one has its scope last, in host order.
\<close>

definition peer_address :: "socket_addr \<Rightarrow> bytes" where
  "peer_address socket =
     (case socket of
        SockV4 a port \<Rightarrow>
          [word_of_int libc_af_inet, 0] @ word_octets 2 (word_of_nat port :: 16 word) @ word_octets 4 a @ replicate 8 0
      | SockV6 a port scope \<Rightarrow>
          [word_of_int libc_af_inet6, 0] @ word_octets 2 (word_of_nat port :: 16 word) @ replicate 4 0
          @ word_octets 16 a @ rev (word_octets 4 (word_of_nat scope :: 32 word)))"

record cluster_config =
  rc_address :: socket_addr
  rc_namespace :: string
  rc_epoch :: string
  rc_issuer :: bytes
  rc_username :: string
  rc_password :: bytes
  rc_timeout :: u64
  rc_connections :: usize
  rc_queue :: usize
  rc_skew :: i64

type_synonym conf_values = "(string \<times> string) list"

definition CLUSTER_DIRECTIVES :: "string list" where
  "CLUSTER_DIRECTIVES =
     [''address'', ''namespace'', ''epoch_file'', ''username'', ''password_file'', ''timeout'',
      ''connections'', ''queue'', ''clock_skew'']"

text \<open>One line of the block: exactly two words, a known name, and not given before.\<close>

definition inner :: "string list \<Rightarrow> conf_values \<Rightarrow> conf_values option" where
  "inner args vals =
     (case args of
        [name, v] \<Rightarrow>
          if name \<notin> set CLUSTER_DIRECTIVES then None
          else if map_of vals name \<noteq> None then None
          else Some ((name, v) # vals)
      | _ \<Rightarrow> None)"

fun conf_parse :: "string list list \<Rightarrow> conf_values \<Rightarrow> conf_values option" where
  "conf_parse [] vals = Some vals"
| "conf_parse (l # ls) vals =
     (case inner l vals of None \<Rightarrow> None | Some vals' \<Rightarrow> conf_parse ls vals')"

definition remove :: "string \<Rightarrow> conf_values \<Rightarrow> string option \<times> conf_values" where
  "remove name vals = (map_of vals name, filter (\<lambda>kv. fst kv \<noteq> name) vals)"

text \<open>A number with a default: absent gives the default, malformed is an error.\<close>

definition remove_parsed ::
  "string \<Rightarrow> (string \<Rightarrow> 'n option) \<Rightarrow> 'n \<Rightarrow> conf_values \<Rightarrow> ('n \<times> conf_values) option" where
  "remove_parsed name parser dflt vals =
     (case remove name vals of
        (None, vals') \<Rightarrow> Some (dflt, vals')
      | (Some s, vals') \<Rightarrow> map_option (\<lambda>n. (n, vals')) (parser s))"

definition namespace_ok :: "string \<Rightarrow> bool" where
  "namespace_ok ns \<longleftrightarrow>
     ns \<noteq> [] \<and> length ns \<le> 64 \<and> list_all (\<lambda>b. is_ascii_alphanumeric b \<or> b \<in> set ''_-'') ns"

definition read_epoch :: "(string \<Rightarrow> bytes option) \<Rightarrow> string \<Rightarrow> string option" where
  "read_epoch fs path =
     (case Option.bind (fs path) from_utf8 of
        None \<Rightarrow> None
      | Some text \<Rightarrow>
          (let epoch = to_ascii_lowercase (trim text) in
           if length epoch \<noteq> 64 \<or> \<not> list_all is_ascii_hexdigit epoch then None else Some epoch))"

definition read_password :: "(string \<Rightarrow> bytes option) \<Rightarrow> string option \<Rightarrow> bytes option" where
  "read_password fs path =
     (case path of
        None \<Rightarrow> Some []
      | Some p \<Rightarrow>
          (case fs p of
             None \<Rightarrow> None
           | Some b \<Rightarrow>
               (let b = (if ends_with b [10] then butlast b else b) in
                if b = [] \<or> length b > 512 then None else Some b)))"

definition parse_config ::
  "externals \<Rightarrow> (string \<Rightarrow> bytes option) \<Rightarrow> conf_values \<Rightarrow> cluster_config option" where
  "parse_config X fs vals =
     (let (address, vals) = remove ''address'' vals in
      case Option.bind address parse_socket_addr of None \<Rightarrow> None | Some address \<Rightarrow>
     (let (namespace, vals) = remove ''namespace'' vals in
      case namespace of None \<Rightarrow> None | Some namespace \<Rightarrow>
      if \<not> namespace_ok namespace then None
      else
     (let (epoch_file, vals) = remove ''epoch_file'' vals in
      case Option.bind epoch_file (read_epoch fs) of None \<Rightarrow> None | Some epoch \<Rightarrow>
     (let issuer = redemption_id X (''redis:'' @ namespace @ '':'' @ epoch);
          (password_file, vals) = remove ''password_file'' vals in
      case read_password fs password_file of None \<Rightarrow> None | Some password \<Rightarrow>
     (let (username, vals) = remove ''username'' vals;
          username = (case username of None \<Rightarrow> [] | Some u \<Rightarrow> u) in
      if length username > 128 \<or> username \<noteq> [] \<and> password = [] then None
      else
      case remove_parsed ''timeout'' parse_u64 500 vals of None \<Rightarrow> None | Some (timeout, vals) \<Rightarrow>
      case remove_parsed ''connections'' parse_usize 4 vals of None \<Rightarrow> None | Some (connections, vals) \<Rightarrow>
      case remove_parsed ''queue'' parse_usize 64 vals of None \<Rightarrow> None | Some (queue, vals) \<Rightarrow>
      case remove_parsed ''clock_skew'' parse_i64 5 vals of None \<Rightarrow> None | Some (skew, vals) \<Rightarrow>
      if \<not> (10 \<le> timeout \<and> timeout \<le> 5000) \<or> \<not> (1 \<le> connections \<and> connections \<le> 32)
         \<or> queue > 1024 \<or> \<not> (1 \<le> skew \<and> skew \<le> 60) \<or> vals \<noteq> []
      then None
      else Some \<lparr>rc_address = address, rc_namespace = namespace, rc_epoch = epoch, rc_issuer = issuer,
                 rc_username = username, rc_password = password, rc_timeout = timeout,
                 rc_connections = connections, rc_queue = queue, rc_skew = skew\<rparr>)))))"

text \<open>
  The directive: refused when a block was given before, when a line is refused, when the block is
  not a configuration, or when the pool is exhausted (\<open>alloc\<close>).
\<close>

definition configure ::
  "externals \<Rightarrow> (string \<Rightarrow> bytes option) \<Rightarrow> bool \<Rightarrow> cluster_config option \<Rightarrow> string list list \<Rightarrow>
   cluster_config option" where
  "configure X fs alloc present body =
     (if present \<noteq> None then None
      else case conf_parse body [] of
          None \<Rightarrow> None
        | Some vals \<Rightarrow>
            (case parse_config X fs vals of
               None \<Rightarrow> None
             | Some config \<Rightarrow> if alloc then Some config else None))"

subsection \<open>What an accepted block guarantees\<close>

definition config_ok :: "externals \<Rightarrow> cluster_config \<Rightarrow> bool" where
  "config_ok X c \<longleftrightarrow>
     namespace_ok (rc_namespace c) \<and>
     length (rc_epoch c) = 64 \<and> list_all is_ascii_hexdigit (rc_epoch c) \<and>
     rc_issuer c = redemption_id X (''redis:'' @ rc_namespace c @ '':'' @ rc_epoch c) \<and>
     length (rc_password c) \<le> 512 \<and> length (rc_username c) \<le> 128 \<and>
     (rc_password c = [] \<longrightarrow> rc_username c = []) \<and>
     10 \<le> rc_timeout c \<and> rc_timeout c \<le> 5000 \<and>
     1 \<le> rc_connections c \<and> rc_connections c \<le> 32 \<and> rc_queue c \<le> 1024 \<and>
     1 \<le> rc_skew c \<and> rc_skew c \<le> 60"

lemma read_epoch_ok: "read_epoch fs p = Some e \<Longrightarrow> length e = 64 \<and> list_all is_ascii_hexdigit e"
  by (auto simp: read_epoch_def Let_def split: option.splits if_splits)

lemma read_password_ok: "read_password fs p = Some b \<Longrightarrow> length b \<le> 512"
  by (auto simp: read_password_def Let_def split: option.splits if_splits)

lemma parse_config_ok: "parse_config X fs vals = Some c \<Longrightarrow> config_ok X c"
  unfolding parse_config_def Let_def case_prod_beta
  by (auto simp: config_ok_def bind_eq_Some_conv dest: read_epoch_ok read_password_ok
      split: option.splits if_splits)

lemma conf_parse_lines:
  "conf_parse ls vals = Some vals' \<Longrightarrow> distinct (map fst vals) \<Longrightarrow>
   distinct (map fst vals') \<and>
   (\<forall>l\<in>set ls. \<exists>n v. l = [n, v] \<and> n \<in> set CLUSTER_DIRECTIVES \<and> map_of vals' n = Some v) \<and>
   (\<forall>n v. map_of vals n = Some v \<longrightarrow> map_of vals' n = Some v)"
proof (induction ls arbitrary: vals)
  case (Cons l ls)
  from Cons.prems(1) obtain n v where l: "l = [n, v]" "n \<in> set CLUSTER_DIRECTIVES" "map_of vals n = None"
    "conf_parse ls ((n, v) # vals) = Some vals'"
    by (auto simp: inner_def split: option.splits list.splits if_splits)
  then have "distinct (map fst ((n, v) # vals))"
    using Cons.prems(2) by (simp add: map_of_eq_None_iff)
  note IH = Cons.IH [OF l(4) this]
  have "map_of ((n, v) # vals) m = Some w" if "map_of vals m = Some w" for m w using that l(3) by auto
  with IH have keep: "\<forall>m w. map_of vals m = Some w \<longrightarrow> map_of vals' m = Some w" by blast
  have "map_of vals' n = Some v" using IH by simp
  with IH l(1,2) keep show ?case by (simp del: map_of_eq_Some_iff)
qed simp

text \<open>
  C27. A \<open>pow_gate_redis\<close> block that is accepted is sane: each line names one known setting once,
  the namespace is 1 to 64 characters that cannot break out of a Redis key, the epoch is 64
  hexadecimal digits and the store identity is derived from both, a user name comes with a
  password, and timeout, connection count, queue length and clock skew are within their bounds. A
  second block is refused.
\<close>

theorem configure_sane:
  assumes "configure X fs alloc present body = Some c"
  shows "config_ok X c \<and> present = None \<and>
    (\<exists>vals. distinct (map fst vals) \<and>
       (\<forall>l\<in>set body. \<exists>n v. l = [n, v] \<and> n \<in> set CLUSTER_DIRECTIVES \<and> map_of vals n = Some v) \<and>
       parse_config X fs vals = Some c)"
proof -
  from assms obtain vals where v: "conf_parse body [] = Some vals" "parse_config X fs vals = Some c"
    and p: "present = None"
    by (auto simp: configure_def split: if_splits option.splits)
  from conf_parse_lines [OF v(1)] parse_config_ok [OF v(2)] v(2) p show ?thesis by auto
qed

theorem configure_sane_witness:
  "\<exists>c. configure sample (\<lambda>p. if p = ''e'' then Some (replicate 64 48) else None) True None
      [[''address'', ''1.2.3.4:6''], [''namespace'', ''n''], [''epoch_file'', ''e'']] = Some c \<and>
    config_ok sample c"
proof -
  let ?fs = "\<lambda>p. if p = ''e'' then Some (replicate 64 48) else None :: bytes option"
  let ?body = "[[''address'', ''1.2.3.4:6''], [''namespace'', ''n''], [''epoch_file'', ''e'']]"
  have four: "read_octets 4 0 = read_octets (Suc (Suc (Suc (Suc 0)))) 0" by (simp add: numeral_eq_Suc)
  have addr: "parse_socket_addr ''1.2.3.4:6'' = Some (SockV4 0x01020304 6)"
    by (simp add: parse_socket_addr_def read_ipv4_addr_def read_separator_def read_number_def to_digit_def
        read_port_def four)
  have epoch: "read_epoch ?fs ''e'' = Some (replicate 64 (CHR ''0''))" by code_simp
  have ns: "namespace_ok ''n''" by code_simp
  obtain c where c: "configure sample ?fs True None ?body = Some c"
    by (simp add: configure_def inner_def CLUSTER_DIRECTIVES_def parse_config_def remove_def
        remove_parsed_def addr epoch ns read_password_def)
  with configure_sane [OF c] show ?thesis by blast
qed

end
