(* ===== verification/Nginx.thy ===== *)
theory Nginx
  imports Rust_Std
begin

text \<open>
  The part of nginx the module talks to: status codes, the request as the handlers read and write
  it, and nginx's own functions as a parameter. A handler takes the request as its last argument
  and returns it updated. What a handler makes nginx do is appended to \<open>rq_output\<close>: headers and
  bodies handed to the output chain, finalisations, body reads started, log lines, and the abort
  of the worker when the code panics.
\<close>

subsection \<open>Status codes\<close>

abbreviation (input) NGX_OK :: int where "NGX_OK \<equiv> 0"
abbreviation (input) NGX_ERROR :: int where "NGX_ERROR \<equiv> - 1"
abbreviation (input) NGX_AGAIN :: int where "NGX_AGAIN \<equiv> - 2"
abbreviation (input) NGX_BUSY :: int where "NGX_BUSY \<equiv> - 3"
abbreviation (input) NGX_DONE :: int where "NGX_DONE \<equiv> - 4"
abbreviation (input) NGX_DECLINED :: int where "NGX_DECLINED \<equiv> - 5"
abbreviation (input) SPECIAL_RESPONSE :: int where "SPECIAL_RESPONSE \<equiv> 300"
abbreviation (input) HTTP_OK :: int where "HTTP_OK \<equiv> 200"
abbreviation (input) NO_CONTENT :: int where "NO_CONTENT \<equiv> 204"
abbreviation (input) MOVED_TEMPORARILY :: int where "MOVED_TEMPORARILY \<equiv> 302"
abbreviation (input) BAD_REQUEST :: int where "BAD_REQUEST \<equiv> 400"
abbreviation (input) FORBIDDEN :: int where "FORBIDDEN \<equiv> 403"
abbreviation (input) NOT_ALLOWED :: int where "NOT_ALLOWED \<equiv> 405"
abbreviation (input) CONFLICT :: int where "CONFLICT \<equiv> 409"
abbreviation (input) REQUEST_ENTITY_TOO_LARGE :: int where "REQUEST_ENTITY_TOO_LARGE \<equiv> 413"
abbreviation (input) INTERNAL_SERVER_ERROR :: int where "INTERNAL_SERVER_ERROR \<equiv> 500"
abbreviation (input) SERVICE_UNAVAILABLE :: int where "SERVICE_UNAVAILABLE \<equiv> 503"

subsection \<open>The request\<close>

text \<open>
  A buffer of the request body. \<open>bf_data\<close> holds the bytes from \<open>pos\<close> to \<open>last\<close>, \<open>None\<close> when
  these pointers are null; \<open>bf_file\<close> is the descriptor of the temporary file, \<open>None\<close> when null;
  \<open>bf_memory\<close> says that one of the flags \<open>temporary\<close>, \<open>memory\<close> and \<open>mmap\<close> is set. A chain
  holds buffer pointers, which may be null.
\<close>

record ngx_buf =
  bf_in_file :: bool
  bf_file :: "nat option"
  bf_file_pos :: i64
  bf_file_last :: i64
  bf_memory :: bool
  bf_data :: "bytes option"

type_synonym chain = "ngx_buf option list"

text \<open>\<open>observability.rs\<close>'s \<open>State\<close>, the module's slot in the request.\<close>

record obs_state =
  ob_result :: string
  ob_reason :: string
  ob_difficulty :: u64
  ob_verify_bytes :: usize
  ob_verify_enabled :: bool

record content_type =
  ct_value :: string
  ct_len :: usize
  ct_charset :: string

type_synonym headers = "(string \<times> string) list"

datatype callback = VerifyBody | BodyReady

datatype action =
    SentHeader int headers
  | SentBody bytes
  | Finalized int
  | AwaitBody callback
  | Forwarded chain
  | Logged string string u64
  | Aborted

record request =
  rq_method :: string
  rq_uri :: string
  rq_unparsed_uri :: string
  rq_args :: string
  rq_server :: string
  rq_headers_in :: "(bytes \<times> bytes) list"
  rq_content_length_n :: i64
  rq_header_only :: bool
  rq_sockaddr :: "bytes option"
  rq_body :: "chain option"
  rq_has_ctx :: bool
  rq_ctx :: "obs_state option"
  rq_status :: int
  rq_length_out :: usize
  rq_content_type :: "content_type option"
  rq_headers_out :: headers
  rq_output :: "action list"

definition emit :: "action \<Rightarrow> request \<Rightarrow> request" where
  "emit ev r = r\<lparr>rq_output := rq_output r @ [ev]\<rparr>"

subsection \<open>nginx's functions\<close>

text \<open>A complex value of the configuration: literal, or computed from the request's variables.\<close>

record complex_value =
  cv_value :: bytes
  cv_dynamic :: bool

text \<open>
  Allocation, header list insertion and the output chain may fail; their results, the outcome of
  starting a body read and the value of a complex value are arbitrary functions of the request.
\<close>

record nginx =
  ng_alloc :: "usize \<Rightarrow> request \<Rightarrow> bool"
  ng_add_header :: "string \<Rightarrow> string \<Rightarrow> request \<Rightarrow> bool"
  ng_send_header :: "request \<Rightarrow> int"
  ng_output_filter :: "bytes \<Rightarrow> request \<Rightarrow> int"
  ng_read_body :: "request \<Rightarrow> int"
  ng_complex_value :: "complex_value \<Rightarrow> request \<Rightarrow> bytes option"
  ng_next_body_filter :: "(chain \<Rightarrow> request \<Rightarrow> int) option"

definition add_header_out :: "nginx \<Rightarrow> string \<Rightarrow> string \<Rightarrow> request \<Rightarrow> request" where
  "add_header_out N name v r =
     (if ng_add_header N name v r then r\<lparr>rq_headers_out := rq_headers_out r @ [(name, v)]\<rparr> else r)"

text \<open>\<open>ngx_http_finalize_request\<close> and \<open>ngx_http_read_client_request_body\<close>, as calls.\<close>

definition finalize_request :: "int \<Rightarrow> request \<Rightarrow> request" where
  "finalize_request rc r = emit (Finalized rc) r"

definition read_client_request_body :: "nginx \<Rightarrow> callback \<Rightarrow> request \<Rightarrow> int \<times> request" where
  "read_client_request_body N cb r =
     (let rc = ng_read_body N r in (rc, if SPECIAL_RESPONSE \<le> rc then r else emit (AwaitBody cb) r))"

text \<open>The parts of the request a client sends are not changed by anything the module does.\<close>

definition same_client :: "request \<Rightarrow> request \<Rightarrow> bool" where
  "same_client r s \<longleftrightarrow>
     rq_method s = rq_method r \<and> rq_uri s = rq_uri r \<and> rq_unparsed_uri s = rq_unparsed_uri r \<and>
     rq_args s = rq_args r \<and> rq_server s = rq_server r \<and> rq_headers_in s = rq_headers_in r \<and>
     rq_content_length_n s = rq_content_length_n r \<and> rq_header_only s = rq_header_only r \<and>
     rq_sockaddr s = rq_sockaddr r \<and> rq_body s = rq_body r"

lemma same_client_refl [simp]: "same_client r r"
  by (simp add: same_client_def)

lemma same_client_trans: "same_client r s \<Longrightarrow> same_client s t \<Longrightarrow> same_client r t"
  by (simp add: same_client_def)

named_theorems client_simps

lemma emit_client [simp]: "same_client r (emit ev s) \<longleftrightarrow> same_client r s"
  by (simp add: same_client_def emit_def)

lemma emit_fields [simp]:
  "rq_headers_out (emit ev r) = rq_headers_out r" "rq_output (emit ev r) = rq_output r @ [ev]"
  "rq_ctx (emit ev r) = rq_ctx r" "rq_status (emit ev r) = rq_status r"
  by (simp_all add: emit_def)

subsection \<open>A sample\<close>

text \<open>An nginx that never fails and a plain request, for examples.\<close>

definition plain_nginx :: nginx where
  "plain_nginx =
     \<lparr>ng_alloc = (\<lambda>n r. True), ng_add_header = (\<lambda>a b r. True), ng_send_header = (\<lambda>r. NGX_OK),
      ng_output_filter = (\<lambda>b r. NGX_OK), ng_read_body = (\<lambda>r. NGX_OK),
      ng_complex_value = (\<lambda>cv r. Some (cv_value cv)), ng_next_body_filter = Some (\<lambda>ch r. NGX_OK)\<rparr>"

definition blank_request :: request where
  "blank_request =
     \<lparr>rq_method = ''GET'', rq_uri = ''/'', rq_unparsed_uri = ''/'', rq_args = [], rq_server = ''h'',
      rq_headers_in = [], rq_content_length_n = - 1, rq_header_only = False,
      rq_sockaddr = Some [2, 0, 0, 0, 10, 0, 0, 1], rq_body = None, rq_has_ctx = True, rq_ctx = None,
      rq_status = 0, rq_length_out = 0, rq_content_type = None, rq_headers_out = [], rq_output = []\<rparr>"

end
