(* ===== verification/Observability.thy ===== *)
theory Observability
  imports Nginx
begin

text \<open>
  \<open>observability.rs\<close>: the outcome of a request, kept in the module's slot of the request for
  \<open>log_format\<close>, and \<open>body_limit.rs\<close>: the request-body filter that bounds what a verification
  request may upload, whose counter lives in the same slot.
\<close>

subsection \<open>The outcome slot\<close>

definition new_state :: obs_state where
  "new_state =
     \<lparr>ob_result = ''off'', ob_reason = ''disabled'', ob_difficulty = 0,
      ob_verify_bytes = 0, ob_verify_enabled = False\<rparr>"

text \<open>\<open>state(r, create)\<close>: the slot, created when asked to and when memory allows.\<close>

definition state_slot :: "nginx \<Rightarrow> bool \<Rightarrow> request \<Rightarrow> obs_state option \<times> request" where
  "state_slot N create r =
     (if \<not> rq_has_ctx r then (None, r)
      else if rq_ctx r = None \<and> create then
        (if ng_alloc N 56 r then (Some new_state, r\<lparr>rq_ctx := Some new_state\<rparr>) else (None, r))
      else (rq_ctx r, r))"

definition record_outcome :: "nginx \<Rightarrow> string \<Rightarrow> string \<Rightarrow> u64 \<Rightarrow> request \<Rightarrow> request" where
  "record_outcome N result reason difficulty r =
     (let (s, r) = state_slot N (result \<noteq> ''off'') r;
          r = (case s of
                 None \<Rightarrow> r
               | Some s \<Rightarrow>
                   r\<lparr>rq_ctx := Some (s\<lparr>ob_result := result, ob_reason := reason,
                                       ob_difficulty := difficulty\<rparr>)\<rparr>)
      in if result \<in> {''accepted'', ''issued''} then emit (Logged result reason difficulty) r else r)"

text \<open>
  The variable getter, by the index of the variable: \<open>$pow_gate_result\<close>, \<open>$pow_gate_reason\<close>,
  \<open>$pow_gate_difficulty\<close>, \<open>$pow_gate_cookie_name\<close>. \<open>cookie_name\<close> is the location's effective
  cookie name, if the request has a location configuration.
\<close>

definition VARIABLES :: "string list" where
  "VARIABLES = [''pow_gate_result'', ''pow_gate_reason'', ''pow_gate_difficulty'', ''pow_gate_cookie_name'']"

definition get_variable :: "nginx \<Rightarrow> string option \<Rightarrow> nat \<Rightarrow> request \<Rightarrow> string option" where
  "get_variable N cookie_name data r =
     (let s = fst (state_slot N False r);
          (result, reason, difficulty) =
            (case s of
               None \<Rightarrow> (''off'', ''disabled'', 0)
             | Some s \<Rightarrow> (ob_result s, ob_reason s, ob_difficulty s));
          v = (if data = 0 then result
               else if data = 1 then reason
               else if data = 2 then nat_str (unat difficulty)
               else case cookie_name of None \<Rightarrow> [] | Some n \<Rightarrow> n)
      in if ng_alloc N (length v) r then Some v else None)"

subsection \<open>The body limiter\<close>

definition VERIFY_LIMIT :: usize where "VERIFY_LIMIT = 8192"

definition counter :: "request \<Rightarrow> usize option" where
  "counter r =
     (if \<not> rq_has_ctx r then None
      else case rq_ctx r of
             None \<Rightarrow> None
           | Some s \<Rightarrow> if ob_verify_enabled s then Some (ob_verify_bytes s) else None)"

definition set_counter :: "usize \<Rightarrow> request \<Rightarrow> request" where
  "set_counter n r =
     (case rq_ctx r of
        None \<Rightarrow> r | Some s \<Rightarrow> r\<lparr>rq_ctx := Some (s\<lparr>ob_verify_bytes := n\<rparr>)\<rparr>)"

definition enable :: "nginx \<Rightarrow> request \<Rightarrow> bool \<times> request" where
  "enable N r =
     (case state_slot N True r of
        (None, r) \<Rightarrow> (False, r)
      | (Some s, r) \<Rightarrow>
          (True, r\<lparr>rq_ctx := Some (s\<lparr>ob_verify_bytes := 0, ob_verify_enabled := True\<rparr>)\<rparr>))"

definition buffer_size :: "ngx_buf \<Rightarrow> usize" where
  "buffer_size b =
     (if bf_memory b \<and> bf_data b \<noteq> None then length (the (bf_data b))
      else if bf_in_file b then nat (bf_file_last b - bf_file_pos b)
      else 0)"

text \<open>The loop over the chain: \<open>True\<close> when a buffer did not fit.\<close>

fun filter_loop :: "nginx \<Rightarrow> chain \<Rightarrow> usize \<Rightarrow> request \<Rightarrow> bool \<times> request" where
  "filter_loop N [] count r = (False, r)"
| "filter_loop N (None # rest) count r = filter_loop N rest count r"
| "filter_loop N (Some b # rest) count r =
     (let size = buffer_size b in
      if VERIFY_LIMIT - count < size then (True, record_outcome N ''rejected'' ''body_too_large'' 0 r)
      else filter_loop N rest (count + size) (set_counter (count + size) r))"

definition body_filter :: "nginx \<Rightarrow> chain \<Rightarrow> request \<Rightarrow> int \<times> request" where
  "body_filter N input r =
     (let (too_large, r) =
            (case counter r of None \<Rightarrow> (False, r) | Some count \<Rightarrow> filter_loop N input count r)
      in if too_large then (REQUEST_ENTITY_TOO_LARGE, r)
         else case ng_next_body_filter N of
                None \<Rightarrow> (NGX_ERROR, r)
              | Some next \<Rightarrow> (next input r, emit (Forwarded input) r))"

subsection \<open>What the slot keeps\<close>

lemma state_slot_client [simp]: "same_client r (snd (state_slot N c s)) \<longleftrightarrow> same_client r s"
  by (simp add: state_slot_def same_client_def)

lemma record_outcome_client [simp]: "same_client r (record_outcome N a b d s) \<longleftrightarrow> same_client r s"
  by (simp add: record_outcome_def state_slot_def same_client_def emit_def split: option.splits)

lemma record_outcome_fields [simp]:
  "rq_headers_out (record_outcome N a b d r) = rq_headers_out r"
  "rq_has_ctx (record_outcome N a b d r) = rq_has_ctx r"
  by (simp_all add: record_outcome_def state_slot_def emit_def split: option.splits)

lemma record_outcome_output:
  "rq_output (record_outcome N a b d r) =
     rq_output r @ (if a \<in> {''accepted'', ''issued''} then [Logged a b d] else [])"
  by (simp add: record_outcome_def state_slot_def emit_def split: option.splits)

lemma record_outcome_counter [simp]: "counter (record_outcome N a b d r) = counter r"
  by (auto simp: record_outcome_def state_slot_def emit_def counter_def new_state_def split: option.splits)

lemma set_counter_simps:
  "counter r = Some c \<Longrightarrow> counter (set_counter n r) = Some n"
  "rq_output (set_counter n r) = rq_output r"
  by (auto simp: counter_def set_counter_def split: option.splits if_splits)

lemma enable_counter: "enable N r = (True, s) \<Longrightarrow> counter s = Some 0"
  by (auto simp: enable_def counter_def state_slot_def split: option.splits if_splits)

lemma emit_counter [simp]: "counter (emit ev r) = counter r"
  by (simp add: counter_def emit_def)

subsection \<open>The limiter\<close>

definition chain_size :: "chain \<Rightarrow> usize" where
  "chain_size ch = sum_list (map (\<lambda>b. case b of None \<Rightarrow> 0 | Some b \<Rightarrow> buffer_size b) ch)"

text \<open>The chains handed on to the rest of nginx, in order.\<close>

definition forwarded :: "request \<Rightarrow> chain list" where
  "forwarded r = concat (map (\<lambda>ev. case ev of Forwarded ch \<Rightarrow> [ch] | _ \<Rightarrow> []) (rq_output r))"

lemma filter_loop_spec:
  assumes "counter r = Some count" "count \<le> VERIFY_LIMIT"
  shows "(if count + chain_size ch \<le> VERIFY_LIMIT
          then \<not> fst (filter_loop N ch count r) \<and>
               counter (snd (filter_loop N ch count r)) = Some (count + chain_size ch)
          else fst (filter_loop N ch count r) \<and>
               (\<exists>n. counter (snd (filter_loop N ch count r)) = Some n \<and> count \<le> n \<and> n \<le> VERIFY_LIMIT)) \<and>
         forwarded (snd (filter_loop N ch count r)) = forwarded r"
  using assms
proof (induction N ch count r rule: filter_loop.induct)
  case (3 N b rest count r)
  show ?case
  proof (cases "VERIFY_LIMIT - count < buffer_size b")
    case True
    then show ?thesis using "3.prems"
      by (auto simp: Let_def chain_size_def forwarded_def record_outcome_output)
  next
    case False
    note IH = "3.IH" [OF refl False set_counter_simps(1) [OF "3.prems"(1)]]
    from False "3.prems" have "count + buffer_size b \<le> VERIFY_LIMIT" by simp
    from IH [OF this] show ?thesis using False
      by (auto simp: Let_def chain_size_def forwarded_def set_counter_simps add.assoc split: if_splits)
  qed
qed (simp_all add: chain_size_def)

text \<open>One call of the filter on a request whose counter is on.\<close>

lemma body_filter_spec:
  assumes "counter r = Some count" "count \<le> VERIFY_LIMIT"
  obtains (fits) "count + chain_size ch \<le> VERIFY_LIMIT"
      "counter (snd (body_filter N ch r)) = Some (count + chain_size ch)"
      "forwarded (snd (body_filter N ch r)) =
         forwarded r @ (if ng_next_body_filter N = None then [] else [ch])"
    | (over) n where "VERIFY_LIMIT < count + chain_size ch" "fst (body_filter N ch r) = REQUEST_ENTITY_TOO_LARGE"
      "counter (snd (body_filter N ch r)) = Some n" "count \<le> n" "n \<le> VERIFY_LIMIT"
      "forwarded (snd (body_filter N ch r)) = forwarded r"
proof -
  obtain big s where loop: "filter_loop N ch count r = (big, s)" by fastforce
  note spec = filter_loop_spec [OF assms, of ch N, unfolded loop fst_conv snd_conv]
  have eq: "body_filter N ch r =
      (if big then (REQUEST_ENTITY_TOO_LARGE, s)
       else case ng_next_body_filter N of
              None \<Rightarrow> (NGX_ERROR, s) | Some next \<Rightarrow> (next ch s, emit (Forwarded ch) s))"
    by (simp add: body_filter_def assms(1) loop)
  show thesis
  proof (cases "count + chain_size ch \<le> VERIFY_LIMIT")
    case True
    with spec have "\<not> big" "counter s = Some (count + chain_size ch)" "forwarded s = forwarded r" by simp_all
    then show thesis using True
      by (intro fits) (auto simp: eq forwarded_def split: option.splits)
  next
    case False
    with spec obtain n where "big" "counter s = Some n" "count \<le> n" "n \<le> VERIFY_LIMIT" "forwarded s = forwarded r"
      by auto
    with False show thesis by (intro over [of n]) (simp_all add: eq)
  qed
qed

definition upload :: "nginx \<Rightarrow> chain list \<Rightarrow> request \<Rightarrow> request" where
  "upload N chs r = fold (\<lambda>ch. snd \<circ> body_filter N ch) chs r"

lemma upload_spec:
  assumes "counter r = Some count" "count \<le> VERIFY_LIMIT"
  shows "\<exists>fw. forwarded (upload N chs r) = forwarded r @ fw \<and>
    count + sum_list (map chain_size fw) \<le> VERIFY_LIMIT \<and>
    (ng_next_body_filter N \<noteq> None \<and> count + sum_list (map chain_size chs) \<le> VERIFY_LIMIT \<longrightarrow> fw = chs)"
  using assms
proof (induction chs arbitrary: r count)
  case (Cons ch chs)
  let ?r = "snd (body_filter N ch r)"
  have step: "upload N (ch # chs) r = upload N chs ?r" by (simp add: upload_def)
  from Cons.prems show ?case
  proof (cases rule: body_filter_spec [where N = N and ch = ch])
    case fits
    from Cons.IH [OF fits(2,1)] obtain fw where fw: "forwarded (upload N chs ?r) = forwarded ?r @ fw"
      "count + chain_size ch + sum_list (map chain_size fw) \<le> VERIFY_LIMIT"
      "ng_next_body_filter N \<noteq> None \<and> count + chain_size ch + sum_list (map chain_size chs) \<le> VERIFY_LIMIT \<longrightarrow> fw = chs"
      by blast
    show ?thesis unfolding step
      by (intro exI [of _ "(if ng_next_body_filter N = None then [] else [ch]) @ fw"])
        (use fw fits(3) in \<open>auto simp: add.assoc\<close>)
  next
    case (over n)
    from Cons.IH [OF over(3,5)] obtain fw where "forwarded (upload N chs ?r) = forwarded ?r @ fw"
      "n + sum_list (map chain_size fw) \<le> VERIFY_LIMIT" by blast
    then show ?thesis unfolding step using over(1,4,6) by (intro exI [of _ fw]) simp
  qed
qed (simp add: upload_def)

text \<open>
  C32. The limiter bounds what a verification request makes nginx buffer: once it is enabled,
  whatever sequence of chains arrives, even after a rejection, the chains handed on hold at most
  8192 bytes in total; and when the whole upload is within the limit every chain is handed on, in
  order and untouched.
\<close>

theorem body_limit_bounds_upload:
  assumes "enable N r = (True, r')"
  shows "\<exists>fw. forwarded (upload N chs r') = forwarded r' @ fw \<and>
    sum_list (map chain_size fw) \<le> VERIFY_LIMIT \<and>
    (ng_next_body_filter N \<noteq> None \<and> sum_list (map chain_size chs) \<le> VERIFY_LIMIT \<longrightarrow> fw = chs)"
  using upload_spec [OF enable_counter [OF assms], of N chs] by simp

theorem body_limit_bounds_upload_witness:
  "\<exists>r' part fw. enable plain_nginx blank_request = (True, r') \<and> chain_size [part, part] = 6000 \<and>
     forwarded (upload plain_nginx [[part, part]] r') = forwarded r' @ [[part, part]] \<and>
     forwarded (upload plain_nginx [[part, part], [part]] r') = forwarded r' @ fw \<and>
     sum_list (map chain_size fw) \<le> VERIFY_LIMIT"
proof -
  let ?part = "Some \<lparr>bf_in_file = False, bf_file = None, bf_file_pos = 0, bf_file_last = 0, bf_memory = True,
    bf_data = Some (replicate 3000 0)\<rparr>"
  obtain r' where on: "enable plain_nginx blank_request = (True, r')"
    by (simp add: enable_def state_slot_def plain_nginx_def blank_request_def)
  have size: "chain_size [?part, ?part] = 6000" by (simp add: chain_size_def buffer_size_def)
  moreover have "ng_next_body_filter plain_nginx \<noteq> None" by (simp add: plain_nginx_def)
  ultimately show ?thesis
    using on body_limit_bounds_upload [OF on, of "[[?part, ?part]]"]
      body_limit_bounds_upload [OF on, of "[[?part, ?part], [?part]]"]
    by (fastforce simp: VERIFY_LIMIT_def)
qed

end
