(* ===== verification/Response.thy ===== *)
theory Response
  imports Observability
begin

text \<open>
  \<open>response.rs\<close>: complete responses from a phase handler. A response sets the status, the
  content length and the content type, adds the headers it is given unless an identical one is
  there, keeps shared caches out, sends the header and, unless nginx says that only a header is
  wanted, the body.
\<close>

definition no_store :: "nginx \<Rightarrow> request \<Rightarrow> request" where
  "no_store N r =
     (let present = list_ex (\<lambda>(key, _). eq_ignore_ascii_case key ''cache-control'') (rq_headers_out r)
      in if \<not> present then add_header_out N ''Cache-Control'' ''no-store'' r else r)"

definition clock_headers :: "nginx \<Rightarrow> i64 \<Rightarrow> bool \<Rightarrow> request \<Rightarrow> request" where
  "clock_headers N now proof_skew r =
     (let r = add_header_out N ''X-Pow-Now'' (int_str now) r
      in if proof_skew then add_header_out N ''X-Pow-Reason'' ''proof_skew'' r else r)"

definition set_content_type :: "nginx \<Rightarrow> string \<Rightarrow> request \<Rightarrow> bool \<times> request" where
  "set_content_type N v r =
     (if \<not> ng_alloc N (length v + 1) r then (False, r)
      else
        (True,
         r\<lparr>rq_content_type := Some
             (case find_sub v ''; charset='' of
                None \<Rightarrow> \<lparr>ct_value = v, ct_len = length v, ct_charset = []\<rparr>
              | Some offset \<Rightarrow>
                  \<lparr>ct_value = v, ct_len = offset,
                   ct_charset = drop (offset + length ''; charset='') v\<rparr>)\<rparr>))"

definition add_new_header :: "nginx \<Rightarrow> string \<times> string \<Rightarrow> request \<Rightarrow> request" where
  "add_new_header N h r =
     (let (name, v) = h;
          duplicate = list_ex (\<lambda>(key, existing). eq_ignore_ascii_case key name \<and> existing = v)
                        (rq_headers_out r)
      in if duplicate then r else add_header_out N name v r)"

text \<open>
  With \<open>copy_body\<close> the body is copied into a buffer of the request's pool, otherwise only the
  buffer's metadata (\<open>ngx_buf_t\<close>, 80 bytes) is allocated and the bytes are shared.
\<close>

definition send_body ::
  "nginx \<Rightarrow> int \<Rightarrow> string \<Rightarrow> bytes \<Rightarrow> headers \<Rightarrow> bool \<Rightarrow> request \<Rightarrow> int \<times> request" where
  "send_body N status content_type body hs copy_body r =
     (let r = r\<lparr>rq_status := status, rq_length_out := length body\<rparr>;
          (ok, r) = set_content_type N content_type r
      in if \<not> ok then (NGX_ERROR, r)
         else
           (let r = fold (add_new_header N) hs r;
                r = no_store N r;
                rc = ng_send_header N r;
                r = emit (SentHeader (rq_status r) (rq_headers_out r)) r
            in if rc \<noteq> NGX_OK \<or> rq_header_only r \<or> body = [] then (rc, r)
               else if \<not> ng_alloc N (if copy_body then length body else 80) r then (NGX_ERROR, r)
               else (ng_output_filter N body r, emit (SentBody body) r)))"

definition send_with_headers ::
  "nginx \<Rightarrow> int \<Rightarrow> string \<Rightarrow> bytes \<Rightarrow> headers \<Rightarrow> request \<Rightarrow> int \<times> request" where
  "send_with_headers N status content_type body hs r =
     send_body N status content_type body hs True r"

definition send :: "nginx \<Rightarrow> int \<Rightarrow> string \<Rightarrow> bytes \<Rightarrow> string option \<Rightarrow> request \<Rightarrow> int \<times> request" where
  "send N status content_type body set_cookie r =
     (case set_cookie of
        Some c \<Rightarrow> send_with_headers N status content_type body [(''Set-Cookie'', c)] r
      | None \<Rightarrow> send_with_headers N status content_type body [] r)"

definition send_cached_and_finish ::
  "nginx \<Rightarrow> int \<Rightarrow> string \<Rightarrow> bytes \<Rightarrow> headers \<Rightarrow> request \<Rightarrow> int \<times> request" where
  "send_cached_and_finish N status content_type body hs r =
     (let (rc, r) = send_body N status content_type body hs False r
      in (NGX_DONE, finalize_request rc r))"

definition send_and_finish ::
  "nginx \<Rightarrow> int \<Rightarrow> string \<Rightarrow> bytes \<Rightarrow> string option \<Rightarrow> request \<Rightarrow> int \<times> request" where
  "send_and_finish N status content_type body set_cookie r =
     (let (rc, r) = send N status content_type body set_cookie r
      in (NGX_DONE, finalize_request rc r))"

definition send_and_finish_with_headers ::
  "nginx \<Rightarrow> int \<Rightarrow> string \<Rightarrow> bytes \<Rightarrow> headers \<Rightarrow> request \<Rightarrow> int \<times> request" where
  "send_and_finish_with_headers N status content_type body hs r =
     (let (rc, r) = send_with_headers N status content_type body hs r
      in (NGX_DONE, finalize_request rc r))"

subsection \<open>What a response changes\<close>

lemma add_header_out_client [simp]: "same_client r (add_header_out N a b s) \<longleftrightarrow> same_client r s"
  by (simp add: add_header_out_def same_client_def)

lemma no_store_client [simp]: "same_client r (no_store N s) \<longleftrightarrow> same_client r s"
  by (simp add: no_store_def)

lemma clock_headers_client [simp]: "same_client r (clock_headers N t k s) \<longleftrightarrow> same_client r s"
  by (simp add: clock_headers_def Let_def)

lemma fold_add_new_header_client [simp]: "same_client r (fold (add_new_header N) hs s) \<longleftrightarrow> same_client r s"
  by (induction hs arbitrary: s) (auto simp: add_new_header_def split: prod.splits)

lemma set_content_type_client [simp]: "same_client r (snd (set_content_type N v s)) \<longleftrightarrow> same_client r s"
  by (simp add: set_content_type_def same_client_def)

lemma status_client [simp]: "same_client r (s\<lparr>rq_status := a, rq_length_out := b\<rparr>) \<longleftrightarrow> same_client r s"
  by (simp add: same_client_def)

lemma send_body_client [simp]: "same_client r (snd (send_body N st ct b hs c s)) \<longleftrightarrow> same_client r s"
proof -
  let ?s = "s\<lparr>rq_status := st, rq_length_out := length b\<rparr>"
  obtain ok t where t: "set_content_type N ct ?s = (ok, t)" by fastforce
  have "same_client r t \<longleftrightarrow> same_client r s"
    using set_content_type_client [of r N ct ?s] unfolding t by simp
  then show ?thesis by (simp add: send_body_def t Let_def)
qed

lemma finalize_client [simp]: "same_client r (finalize_request rc s) \<longleftrightarrow> same_client r s"
  by (simp add: finalize_request_def)

lemma send_client [simp]: "same_client r (snd (send N st ct b k s)) \<longleftrightarrow> same_client r s"
  by (simp add: send_def send_with_headers_def split: option.splits)

lemma send_finish_client [simp]:
  "same_client r (snd (send_cached_and_finish N st ct b hs s)) \<longleftrightarrow> same_client r s"
  "same_client r (snd (send_and_finish N st ct b k s)) \<longleftrightarrow> same_client r s"
  "same_client r (snd (send_and_finish_with_headers N st ct b hs s)) \<longleftrightarrow> same_client r s"
  by (simp_all add: send_cached_and_finish_def send_and_finish_def send_and_finish_with_headers_def
      send_with_headers_def case_prod_beta)

text \<open>The cookies a response sets.\<close>

definition set_cookies :: "request \<Rightarrow> string list" where
  "set_cookies r = map snd (filter (\<lambda>h. eq_ignore_ascii_case (fst h) ''Set-Cookie'') (rq_headers_out r))"

abbreviation sets_cookie :: "string \<times> string \<Rightarrow> bool" where
  "sets_cookie h \<equiv> eq_ignore_ascii_case (fst h) ''Set-Cookie''"

lemma not_set_cookie [simp]:
  "\<not> eq_ignore_ascii_case ''Cache-Control'' ''Set-Cookie''" "\<not> eq_ignore_ascii_case ''X-Pow-Now'' ''Set-Cookie''"
  "\<not> eq_ignore_ascii_case ''X-Pow-Reason'' ''Set-Cookie''" "\<not> eq_ignore_ascii_case ''Location'' ''Set-Cookie''"
  "eq_ignore_ascii_case ''Set-Cookie'' ''Set-Cookie''"
  by (simp_all add: eq_ignore_ascii_case_def char_lower_def)

lemma set_cookies_add [simp]:
  "\<not> eq_ignore_ascii_case name ''Set-Cookie'' \<Longrightarrow> set_cookies (add_header_out N name v r) = set_cookies r"
  by (simp add: set_cookies_def add_header_out_def)

lemma set_cookies_no_store [simp]: "set_cookies (no_store N r) = set_cookies r"
  by (simp add: no_store_def)

lemma set_cookies_clock [simp]: "set_cookies (clock_headers N t k r) = set_cookies r"
  by (simp add: clock_headers_def Let_def)

lemma set_cookies_record [simp]: "set_cookies (record_outcome N a b d r) = set_cookies r"
  by (simp add: set_cookies_def)

lemma set_cookies_emit [simp]: "set_cookies (emit ev r) = set_cookies r"
  by (simp add: set_cookies_def)

lemma set_cookies_finalize [simp]: "set_cookies (finalize_request rc r) = set_cookies r"
  by (simp add: finalize_request_def)

lemma set_cookies_fold:
  "set (set_cookies (fold (add_new_header N) hs r)) \<subseteq> set (set_cookies r) \<union> snd ` set (filter sets_cookie hs)"
proof (induction hs arbitrary: r)
  case (Cons h hs)
  obtain a b where h: "h = (a, b)" by fastforce
  have "set (set_cookies (add_new_header N h r)) \<subseteq> set (set_cookies r) \<union> (if sets_cookie h then {b} else {})"
    by (auto simp: add_new_header_def h add_header_out_def set_cookies_def)
  with Cons.IH [of "add_new_header N h r"] show ?case
    unfolding h fold_simps filter.simps by (cases "sets_cookie (a, b)") auto
qed simp

lemma headers_out_set_content_type [simp]:
  "rq_headers_out (snd (set_content_type N ct r)) = rq_headers_out r"
  by (simp add: set_content_type_def)

lemma set_cookies_send_body:
  "set (set_cookies (snd (send_body N st ct b hs c r))) \<subseteq> set (set_cookies r) \<union> snd ` set (filter sets_cookie hs)"
proof -
  let ?r = "r\<lparr>rq_status := st, rq_length_out := length b\<rparr>"
  obtain ok t where t: "set_content_type N ct ?r = (ok, t)" by fastforce
  have "set_cookies t = set_cookies r"
    using headers_out_set_content_type [of N ct ?r] unfolding t by (simp add: set_cookies_def)
  with set_cookies_fold [of N hs t] show ?thesis by (auto simp: send_body_def t Let_def)
qed

lemma set_cookies_send:
  "set (set_cookies (snd (send N st ct b k r))) \<subseteq> set (set_cookies r) \<union> set_option k"
  using set_cookies_send_body [of N st ct b _ True r]
  by (force simp: send_def send_with_headers_def split: option.splits)

lemma set_cookies_finish:
  "set (set_cookies (snd (send_cached_and_finish N st ct b hs r))) \<subseteq> set (set_cookies r) \<union> snd ` set (filter sets_cookie hs)"
  "set (set_cookies (snd (send_and_finish N st ct b k r))) \<subseteq> set (set_cookies r) \<union> set_option k"
  "set (set_cookies (snd (send_and_finish_with_headers N st ct b hs r))) \<subseteq> set (set_cookies r) \<union> snd ` set (filter sets_cookie hs)"
  using set_cookies_send_body [of N st ct b hs False r] set_cookies_send [of N st ct b k r]
    set_cookies_send_body [of N st ct b hs True r]
  by (simp_all add: send_cached_and_finish_def send_and_finish_def send_and_finish_with_headers_def
      send_with_headers_def case_prod_beta)

subsection \<open>Responses on a working nginx\<close>

definition healthy :: "nginx \<Rightarrow> bool" where
  "healthy N \<longleftrightarrow>
     (\<forall>n r. ng_alloc N n r) \<and> (\<forall>a b r. ng_add_header N a b r) \<and> (\<forall>r. ng_send_header N r = NGX_OK)"

lemma healthy_plain [simp]: "healthy plain_nginx"
  by (simp add: healthy_def plain_nginx_def)

text \<open>A header is there up to the case of its name.\<close>

definition has_header :: "string \<Rightarrow> string \<Rightarrow> headers \<Rightarrow> bool" where
  "has_header name v hs \<longleftrightarrow> (\<exists>k. (k, v) \<in> set hs \<and> eq_ignore_ascii_case k name)"

lemma eq_ignore_refl [simp]: "eq_ignore_ascii_case a a"
  by (simp add: eq_ignore_ascii_case_def)

lemma eq_ignore_trans:
  "eq_ignore_ascii_case a b \<Longrightarrow> eq_ignore_ascii_case b c \<Longrightarrow> eq_ignore_ascii_case a c"
  by (simp add: eq_ignore_ascii_case_def)

lemma add_header_out_mono: "set (rq_headers_out r) \<subseteq> set (rq_headers_out (add_header_out N a b r))"
  by (auto simp: add_header_out_def)

lemma add_new_header_mono: "set (rq_headers_out r) \<subseteq> set (rq_headers_out (add_new_header N h r))"
  using add_header_out_mono by (auto simp: add_new_header_def split: prod.splits)

lemma no_store_mono: "set (rq_headers_out r) \<subseteq> set (rq_headers_out (no_store N r))"
  using add_header_out_mono by (auto simp: no_store_def)

lemma fold_add_mono: "set (rq_headers_out r) \<subseteq> set (rq_headers_out (fold (add_new_header N) hs r))"
  using add_new_header_mono by (induction hs arbitrary: r) fastforce+

lemma has_header_mono: "has_header a b hs \<Longrightarrow> set hs \<subseteq> set hs' \<Longrightarrow> has_header a b hs'"
  by (auto simp: has_header_def)

lemma add_new_header_has: "healthy N \<Longrightarrow> has_header a b (rq_headers_out (add_new_header N (a, b) r))"
  by (auto simp: add_new_header_def add_header_out_def healthy_def has_header_def list_ex_iff)

lemma fold_add_has:
  "healthy N \<Longrightarrow> (a, b) \<in> set hs \<Longrightarrow> has_header a b (rq_headers_out (fold (add_new_header N) hs r))"
proof (induction hs arbitrary: r)
  case (Cons h hs)
  show ?case
  proof (cases "h = (a, b)")
    case True
    with Cons.prems(1) have "has_header a b (rq_headers_out (add_new_header N h r))"
      by (simp add: add_new_header_has)
    then show ?thesis by (simp add: has_header_mono [OF _ fold_add_mono])
  next
    case False
    with Cons.prems(2) have "(a, b) \<in> set hs" by simp
    from Cons.IH [OF Cons.prems(1) this] show ?thesis by simp
  qed
qed simp

lemma no_store_has:
  assumes "healthy N"
  shows "\<exists>v. has_header ''cache-control'' v (rq_headers_out (no_store N r))"
proof (cases "list_ex (\<lambda>(key, _). eq_ignore_ascii_case key ''cache-control'') (rq_headers_out r)")
  case True
  then show ?thesis by (auto simp: no_store_def list_ex_iff has_header_def)
next
  case False
  have "eq_ignore_ascii_case ''Cache-Control'' ''cache-control''" by code_simp
  then have "has_header ''cache-control'' ''no-store'' (rq_headers_out (no_store N r))"
    using False assms unfolding has_header_def
    by (intro exI [of _ "''Cache-Control''"]) (simp add: no_store_def add_header_out_def healthy_def)
  then show ?thesis ..
qed

lemma output_headers [simp]:
  "rq_output (add_header_out N a b r) = rq_output r" "rq_status (add_header_out N a b r) = rq_status r"
  "rq_header_only (add_header_out N a b r) = rq_header_only r"
  by (simp_all add: add_header_out_def)

lemma output_no_store [simp]:
  "rq_output (no_store N r) = rq_output r" "rq_status (no_store N r) = rq_status r"
  "rq_header_only (no_store N r) = rq_header_only r"
  by (simp_all add: no_store_def)

lemma output_fold [simp]:
  "rq_output (fold (add_new_header N) hs r) = rq_output r"
  "rq_status (fold (add_new_header N) hs r) = rq_status r"
  "rq_header_only (fold (add_new_header N) hs r) = rq_header_only r"
  by (induction hs arbitrary: r) (simp_all add: add_new_header_def split: prod.splits)

text \<open>
  On a working nginx a response is complete: one header with the status asked for, carrying
  every header asked for and a \<open>Cache-Control\<close> header whether or not one was asked for, then
  the body, unless it is empty or the request wants the header only.
\<close>

theorem send_body_response:
  assumes "healthy N"
  shows "\<exists>hs'. rq_output (snd (send_body N st ct body hs copy_body r)) =
      rq_output r @ SentHeader st hs' # (if rq_header_only r \<or> body = [] then [] else [SentBody body]) \<and>
    (\<exists>v. has_header ''cache-control'' v hs') \<and>
    (\<forall>h\<in>set hs. has_header (fst h) (snd h) hs')"
proof -
  define r0 where "r0 = snd (set_content_type N ct (r\<lparr>rq_status := st, rq_length_out := length body\<rparr>))"
  have r0: "set_content_type N ct (r\<lparr>rq_status := st, rq_length_out := length body\<rparr>) = (True, r0)"
    "rq_output r0 = rq_output r" "rq_status r0 = st" "rq_header_only r0 = rq_header_only r"
    using assms by (simp_all add: r0_def set_content_type_def healthy_def)
  let ?s = "no_store N (fold (add_new_header N) hs r0)"
  have "rq_header_only (emit ev ?s) = rq_header_only r" for ev by (simp add: emit_def r0)
  then have out: "rq_output (snd (send_body N st ct body hs copy_body r)) =
      rq_output r @ SentHeader st (rq_headers_out ?s) # (if rq_header_only r \<or> body = [] then [] else [SentBody body])"
    using assms by (simp add: send_body_def r0 Let_def healthy_def)
  have "has_header (fst h) (snd h) (rq_headers_out ?s)" if "h \<in> set hs" for h
    using fold_add_has [OF assms, of "fst h" "snd h" hs r0] that
    by (simp add: has_header_mono [OF _ no_store_mono])
  with out no_store_has [OF assms] show ?thesis by blast
qed

theorem send_body_response_witness:
  "healthy plain_nginx \<and>
   (\<exists>hs'. rq_output (snd (send_body plain_nginx 204 ''text/plain'' [] [(''Set-Cookie'', ''a=b'')] True blank_request)) =
      [SentHeader 204 hs'] \<and> has_header ''Set-Cookie'' ''a=b'' hs')"
  using send_body_response [OF healthy_plain, of 204 "''text/plain''" "[]" "[(''Set-Cookie'', ''a=b'')]" True blank_request]
  by (auto simp: blank_request_def)

lemma has_header_cookie: "has_header ''Set-Cookie'' v (rq_headers_out r) \<Longrightarrow> v \<in> set (set_cookies r)"
  by (force simp: has_header_def set_cookies_def)

lemma set_cookies_send_body_healthy:
  assumes "healthy N" "(''Set-Cookie'', v) \<in> set hs"
  shows "v \<in> set (set_cookies (snd (send_body N st ct b hs c r)))"
proof -
  define r0 where "r0 = snd (set_content_type N ct (r\<lparr>rq_status := st, rq_length_out := length b\<rparr>))"
  have r0: "set_content_type N ct (r\<lparr>rq_status := st, rq_length_out := length b\<rparr>) = (True, r0)"
    using assms(1) by (simp add: r0_def set_content_type_def healthy_def)
  from fold_add_has [OF assms] have "v \<in> set (set_cookies (no_store N (fold (add_new_header N) hs r0)))"
    by (intro has_header_cookie) (rule has_header_mono [OF _ no_store_mono])
  then show ?thesis by (simp add: send_body_def r0 Let_def)
qed

end
