(* ===== verification/Redeem.thy ===== *)
theory Redeem
  imports Response Redemption
begin

text \<open>
  The response half of \<open>ngx-http-pow-gate/src/redemption.rs\<close>: a prepared grant is turned into a
  response only by the outcome of the redemption.
\<close>

record redeem_grant =
  rg_cookie :: string
  rg_redirect :: "string option"
  rg_difficulty :: u64
  rg_kind :: string

definition finish :: "nginx \<Rightarrow> outcome \<Rightarrow> redeem_grant \<Rightarrow> request \<Rightarrow> int \<times> request" where
  "finish N outcome g r =
     (if outcome = Accepted then
        (let r = record_outcome N ''accepted'' (rg_kind g) (rg_difficulty g) r in
         case rg_redirect g of
           Some path \<Rightarrow>
             (let body = ''<html><body><a href='' @ [CHR 0x22] @ path @ [CHR 0x22]
                           @ ''>Continue</a></body></html>'' @ [CHR 0x0A]
              in send_and_finish_with_headers N MOVED_TEMPORARILY ''text/html; charset=utf-8''
                   (as_bytes body) [(''Location'', path), (''Set-Cookie'', rg_cookie g)] r)
         | None \<Rightarrow>
             send_and_finish_with_headers N NO_CONTENT ''text/plain'' [] [(''Set-Cookie'', rg_cookie g)] r)
      else
        (let (status, result, reason) =
               (case outcome of
                  Reused \<Rightarrow> (CONFLICT, ''rejected'', ''replay'')
                | OutExpired \<Rightarrow> (BAD_REQUEST, ''rejected'', ''expired'')
                | _ \<Rightarrow> (SERVICE_UNAVAILABLE, ''error'', ''redemption_unavailable''));
             r = record_outcome N result reason (rg_difficulty g) r
         in send_and_finish_with_headers N status ''text/plain''
              (as_bytes (''redemption rejected'' @ [CHR 0x0A])) [] r))"

lemma finish_client [simp]: "same_client r (snd (finish N out g s)) \<longleftrightarrow> same_client r s"
  by (simp add: finish_def Let_def case_prod_beta split: option.split)

lemma finish_done [simp]: "fst (finish N out g r) = NGX_DONE"
  by (simp add: finish_def Let_def send_and_finish_with_headers_def case_prod_beta split: option.split)

lemma set_cookies_finish_rejected:
  "out \<noteq> Accepted \<Longrightarrow> set (set_cookies (snd (finish N out g r))) \<subseteq> set (set_cookies r)"
  by (auto simp: finish_def Let_def case_prod_beta dest!: subsetD [OF set_cookies_finish(3)])

lemma set_cookies_finish_accepted:
  "set (set_cookies (snd (finish N Accepted g r))) \<subseteq> insert (rg_cookie g) (set (set_cookies r))"
  by (auto simp: finish_def Let_def split: option.splits dest!: subsetD [OF set_cookies_finish(3)])

lemma set_cookies_finish_healthy:
  assumes "healthy N"
  shows "rg_cookie g \<in> set (set_cookies (snd (finish N Accepted g r)))"
  using set_cookies_send_body_healthy [OF assms, of "rg_cookie g"]
  by (simp add: finish_def Let_def send_and_finish_with_headers_def send_with_headers_def
      case_prod_beta split: option.split)

end
