(* ===== verification/Cluster.thy ===== *)
theory Cluster
  imports Cluster_Config Redeem
begin

text \<open>
  The runtime half of \<open>cluster.rs\<close>: the redemption client of a worker in cluster mode. It is
  driven by events only: a redemption asked for by a handler, a writable or readable connection, a
  deadline, a request that goes away, the health poll. Each is a function of the runtime's state;
  what the network, the clock and nginx answer during an event is its argument \<open>E\<close>.

  Jobs and requests are named by numbers in place of pointers: \<open>ct_jobs\<close> holds the jobs that
  are allocated, and \<open>ct_finished\<close> lists the calls of \<open>redemption::finish\<close> in order.
\<close>

subsection \<open>State\<close>

record cluster_job =
  jb_address :: bytes
  jb_output :: bytes
  jb_sent :: usize
  jb_input :: bytes
  jb_auth :: bool
  jb_deadline :: bool
  jb_connected :: bool
  jb_request :: "nat option"
  jb_cleanup :: bool
  jb_grant :: "redeem_grant option"
  jb_expires :: i64
  jb_health :: bool

record cluster =
  ct_config :: cluster_config
  ct_jobs :: "nat \<Rightarrow> cluster_job option"
  ct_next :: nat
  ct_pending :: "nat list"
  ct_active :: "nat list"
  ct_health_busy :: bool
  ct_pumping :: bool
  ct_ready :: bool
  ct_fenced :: bool
  ct_last_ok :: u64
  ct_finished :: "(nat \<times> outcome \<times> redeem_grant) list"

definition cluster_activate :: "cluster_config \<Rightarrow> cluster" where
  "cluster_activate config =
     \<lparr>ct_config = config, ct_jobs = (\<lambda>_. None), ct_next = 0, ct_pending = [], ct_active = [],
      ct_health_busy = False, ct_pumping = False, ct_ready = False, ct_fenced = False,
      ct_last_ok = 0, ct_finished = []\<rparr>"

text \<open>
  The environment of one event: the wall clock when a job is made and when a job completes, nginx's
  millisecond clock, whether a cleanup entry could be allocated, and for a job that connects
  whether nginx gave it a connection and with which status.
\<close>

record cluster_env =
  ce_now :: i64
  ce_done :: "nat \<Rightarrow> i64"
  ce_msec :: u64
  ce_cleanup :: bool
  ce_connect :: "nat \<Rightarrow> bool \<times> int"

subsection \<open>Availability\<close>

definition cluster_issuer :: "cluster \<Rightarrow> bytes option" where
  "cluster_issuer c = (if ct_fenced c then None else Some (rc_issuer (ct_config c)))"

definition available :: "u64 \<Rightarrow> cluster \<Rightarrow> bool" where
  "available msec c \<longleftrightarrow> ct_ready c \<and> \<not> ct_fenced c \<and> msec - ct_last_ok c < 2500"

subsection \<open>Jobs\<close>

text \<open>The Lua sources, with a backquote for the apostrophe.\<close>

definition lua :: "string \<Rightarrow> string" where
  "lua s = map (\<lambda>c. if c = CHR ''`'' then CHR 0x27 else c) s"

definition HEALTH_SOURCE :: string where
  "HEALTH_SOURCE =
     lua (''if redis.call(`GET`,KEYS[1])~=ARGV[1] or not tonumber(redis.call(`GET`,KEYS[2])) ''
          @ ''then return -2 end return 1'')"

definition CONSUME_SOURCE :: string where
  "CONSUME_SOURCE =
     lua (concat (map (\<lambda>line. line @ [CHR 0x0A])
       [[],
        ''if redis.call(`GET`,KEYS[1])~=ARGV[1] then return -2 end'',
        ''local previous=tonumber(redis.call(`GET`,KEYS[3]))'',
        ''if not previous then return -2 end'',
        ''local current=tonumber(redis.call(`TIME`)[1])'',
        ''local skew=tonumber(ARGV[3])'',
        ''if math.abs(current-tonumber(ARGV[4]))>skew then return -3 end'',
        ''local now=math.max(current,previous)'',
        ''local expires=tonumber(ARGV[2])'',
        ''if expires<=now then return -1 end'',
        ''if now>previous then redis.call(`SET`,KEYS[3],tostring(now)) end'',
        ''if redis.call(`SET`,KEYS[2],`1`,`NX`,`EX`,expires-now+skew+1) then return 1 end'',
        ''return 0'']))"

definition job_output :: "externals \<Rightarrow> cluster_config \<Rightarrow> string \<Rightarrow> i64 \<Rightarrow> bool \<Rightarrow> i64 \<Rightarrow> bytes" where
  "job_output X config token expires health now =
     (let (key0, key1, key2) = redis_keys X (rc_namespace config) (rc_epoch config) token;
          auth = (if rc_password config \<noteq> [] then
                    command ([as_bytes ''AUTH'']
                      @ (if rc_username config \<noteq> [] then [as_bytes (rc_username config)] else [])
                      @ [rc_password config])
                  else [])
      in auth @
         (if health then
            command [as_bytes ''EVAL'', as_bytes HEALTH_SOURCE, as_bytes ''2'', as_bytes key0,
                     as_bytes key2, as_bytes (rc_epoch config)]
          else
            command [as_bytes ''EVAL'', as_bytes CONSUME_SOURCE, as_bytes ''3'', as_bytes key0,
                     as_bytes key1, as_bytes key2, as_bytes (rc_epoch config),
                     as_bytes (int_str expires), as_bytes (int_str (rc_skew config)),
                     as_bytes (int_str now)]))"

text \<open>A new job; its socket address structure is the configured address.\<close>

definition make_job ::
  "externals \<Rightarrow> cluster_env \<Rightarrow> nat option \<Rightarrow> redeem_grant option \<Rightarrow> string \<Rightarrow> i64 \<Rightarrow> bool \<Rightarrow> cluster \<Rightarrow> nat \<times> cluster" where
  "make_job X E req g token expires health c =
     (let job = \<lparr>jb_address = peer_address (rc_address (ct_config c)), jb_output = job_output X (ct_config c) token expires health (ce_now E),
                 jb_sent = 0, jb_input = [], jb_auth = (rc_password (ct_config c) \<noteq> []), jb_deadline = False,
                 jb_connected = False, jb_request = req, jb_cleanup = False, jb_grant = g,
                 jb_expires = expires, jb_health = health\<rparr>
      in (ct_next c, c\<lparr>ct_jobs := (ct_jobs c)(ct_next c := Some job), ct_next := ct_next c + 1\<rparr>))"

definition update_job :: "nat \<Rightarrow> (cluster_job \<Rightarrow> cluster_job) \<Rightarrow> cluster \<Rightarrow> cluster" where
  "update_job j f c = c\<lparr>ct_jobs := (ct_jobs c)(j := map_option f (ct_jobs c j))\<rparr>"

subsection \<open>Completion\<close>

text \<open>
  \<open>complete\<close> up to the point where the job is freed: its timer, connection and cleanup are
  released with it. The result is what the job still owes: its request, its grant and the outcome.
\<close>

definition release ::
  "cluster_env \<Rightarrow> nat \<Rightarrow> cluster_job \<Rightarrow> outcome \<Rightarrow> bool \<Rightarrow> cluster \<Rightarrow> outcome \<times> cluster" where
  "release E j job outcome fenced c =
     (let c = (if fenced then c\<lparr>ct_fenced := True, ct_ready := False\<rparr> else c);
          c = c\<lparr>ct_jobs := (ct_jobs c)(j := None)\<rparr>
      in if jb_health job then
           (let ready = (outcome = Accepted \<and> \<not> ct_fenced c);
                c = c\<lparr>ct_health_busy := False, ct_ready := ready\<rparr>
            in (outcome, if ready then c\<lparr>ct_last_ok := ce_msec E\<rparr> else c))
         else
           (if outcome = Accepted \<and> ce_done E j \<ge> jb_expires job then OutExpired else outcome,
            c\<lparr>ct_active := removeAll j (ct_active c), ct_pending := removeAll j (ct_pending c)\<rparr>))"

definition finish_call :: "cluster_job \<Rightarrow> outcome \<Rightarrow> cluster \<Rightarrow> cluster" where
  "finish_call job outcome c =
     (case (jb_request job, jb_grant job) of
        (Some req, Some g) \<Rightarrow> c\<lparr>ct_finished := ct_finished c @ [(req, outcome, g)]\<rparr>
      | _ \<Rightarrow> c)"

text \<open>\<open>complete\<close> while the queue is being pumped: the flag keeps it from pumping again.\<close>

definition complete_pumping :: "cluster_env \<Rightarrow> nat \<Rightarrow> outcome \<Rightarrow> bool \<Rightarrow> cluster \<Rightarrow> cluster" where
  "complete_pumping E j outcome fenced c =
     (case ct_jobs c j of
        None \<Rightarrow> c
      | Some job \<Rightarrow>
          (let (outcome, c) = release E j job outcome fenced c in finish_call job outcome c))"

text \<open>\<open>connect\<close>, over the completion it calls when the connection fails at once.\<close>

definition connect_with ::
  "(nat \<Rightarrow> outcome \<Rightarrow> bool \<Rightarrow> cluster \<Rightarrow> cluster) \<Rightarrow> cluster_env \<Rightarrow> nat \<Rightarrow> cluster \<Rightarrow> cluster" where
  "connect_with completing E j c =
     (let c = update_job j (\<lambda>job. if jb_health job then job\<lparr>jb_deadline := True\<rparr> else job) c;
          (connection, rc) = ce_connect E j
      in if \<not> connection then completing j Full False c
         else
           (let c = update_job j (jb_connected_update (\<lambda>_. True)) c in
            if rc = NGX_ERROR \<or> rc = NGX_DECLINED \<or> rc = NGX_BUSY then completing j Full False c
            else c))"

lemma pending_complete_pumping: "length (ct_pending (complete_pumping E j out f c)) \<le> length (ct_pending c)"
  by (auto simp: complete_pumping_def release_def finish_call_def Let_def length_removeAll_less_eq
      split: option.splits)

lemma pending_update_job [simp]: "ct_pending (update_job j f c) = ct_pending c"
  by (simp add: update_job_def)

lemma pending_connect: "length (ct_pending (connect_with (complete_pumping E) E j c)) \<le> length (ct_pending c)"
  by (auto simp: connect_with_def Let_def case_prod_beta
      intro: order_trans [OF pending_complete_pumping])

function pump :: "cluster_env \<Rightarrow> cluster \<Rightarrow> cluster" where
  "pump E c =
     (if length (ct_active c) < rc_connections (ct_config c) then
        (case ct_pending c of
           [] \<Rightarrow> c
         | next # rest \<Rightarrow>
             pump E (connect_with (complete_pumping E) E next
               (c\<lparr>ct_pending := rest, ct_active := ct_active c @ [next]\<rparr>)))
      else c)"
  by pat_completeness auto
termination
proof (relation "measure (\<lambda>(E, c). length (ct_pending c))")
  fix E and c :: cluster and j rest
  assume "ct_pending c = j # rest"
  then show "((E, connect_with (complete_pumping E) E j (c\<lparr>ct_pending := rest, ct_active := ct_active c @ [j]\<rparr>)), E, c)
      \<in> measure (\<lambda>(E, c). length (ct_pending c))"
    using pending_connect [of E j "c\<lparr>ct_pending := rest, ct_active := ct_active c @ [j]\<rparr>"] by simp
qed simp

declare pump.simps [simp del]

definition complete :: "cluster_env \<Rightarrow> nat \<Rightarrow> outcome \<Rightarrow> bool \<Rightarrow> cluster \<Rightarrow> cluster" where
  "complete E j outcome fenced c =
     (case ct_jobs c j of
        None \<Rightarrow> c
      | Some job \<Rightarrow>
          (let (outcome, c) = release E j job outcome fenced c;
               c = (if \<not> ct_pumping c
                    then (pump E (c\<lparr>ct_pumping := True\<rparr>))\<lparr>ct_pumping := False\<rparr> else c)
           in finish_call job outcome c))"

definition connect :: "cluster_env \<Rightarrow> nat \<Rightarrow> cluster \<Rightarrow> cluster" where
  "connect E j c = connect_with (complete E) E j c"

lemma complete_while_pumping: "ct_pumping c \<Longrightarrow> complete E j out f c = complete_pumping E j out f c"
  by (auto simp: complete_def complete_pumping_def release_def finish_call_def Let_def split: option.splits)

subsection \<open>Events\<close>

text \<open>
  \<open>redeem\<close>, on behalf of request \<open>req\<close>. It always takes over the request and returns \<open>NGX_DONE\<close>.
\<close>

definition cluster_redeem ::
  "externals \<Rightarrow> cluster_env \<Rightarrow> nat \<Rightarrow> string \<Rightarrow> i64 \<Rightarrow> redeem_grant \<Rightarrow> cluster \<Rightarrow> cluster" where
  "cluster_redeem X E req token expires g c =
     (let refused = c\<lparr>ct_finished := ct_finished c @ [(req, Full, g)]\<rparr> in
      if \<not> available (ce_msec E) c then refused
      else if rc_connections (ct_config c) \<le> length (ct_active c)
              \<and> rc_queue (ct_config c) \<le> length (ct_pending c) then refused
      else if \<not> ce_cleanup E then refused
      else
        (let (j, c) = make_job X E (Some req) (Some g) token expires False c;
             c = update_job j (\<lambda>job. job\<lparr>jb_cleanup := True, jb_deadline := True\<rparr>) c
         in if length (ct_active c) < rc_connections (ct_config c)
            then connect E j (c\<lparr>ct_active := ct_active c @ [j]\<rparr>)
            else c\<lparr>ct_pending := ct_pending c @ [j]\<rparr>))"

definition poll :: "externals \<Rightarrow> cluster_env \<Rightarrow> bool \<Rightarrow> cluster \<Rightarrow> cluster" where
  "poll X E exiting c =
     (if exiting then c
      else if \<not> ct_health_busy c \<and> \<not> ct_fenced c then
        (let (j, c) = make_job X E None None [] 0 True (c\<lparr>ct_health_busy := True\<rparr>)
         in connect E j c)
      else c)"

text \<open>
  The connection is writable: \<open>ok\<close> is what \<open>getsockopt\<close> says, \<open>rearm\<close> whether an event could be
  armed again, \<open>sends\<close> what the socket answers to each attempt; when it is used up the socket
  is full.
\<close>

fun write_loop ::
  "cluster_env \<Rightarrow> nat \<Rightarrow> bool \<Rightarrow> int list \<Rightarrow> cluster_job \<Rightarrow> cluster \<Rightarrow> cluster" where
  "write_loop E j rearm sends job c =
     (if jb_sent job < length (jb_output job) then
        (case sends of
           [] \<Rightarrow> (if rearm then c else complete E j Full False c)
         | n # more_sends \<Rightarrow>
             if n = NGX_AGAIN then (if rearm then c else complete E j Full False c)
             else if n \<le> 0 then complete E j Full False c
             else write_loop E j rearm more_sends (job\<lparr>jb_sent := jb_sent job + nat n\<rparr>)
                    (update_job j (jb_sent_update (\<lambda>s. s + nat n)) c))
      else if rearm then c
      else complete E j Full False c)"

declare write_loop.simps [simp del]

definition write_event :: "cluster_env \<Rightarrow> nat \<Rightarrow> bool \<Rightarrow> bool \<Rightarrow> int list \<Rightarrow> cluster \<Rightarrow> cluster" where
  "write_event E j ok rearm sends c =
     (case ct_jobs c j of
        None \<Rightarrow> c
      | Some job \<Rightarrow> if \<not> ok then complete E j Full False c else write_loop E j rearm sends job c)"

text \<open>The replies in the input: \<open>Inl\<close> the job waits for more, \<open>Inr\<close> it completes.\<close>

definition reply_outcome :: "reply \<Rightarrow> outcome \<times> bool" where
  "reply_outcome rep =
     (case rep of
        Integer n \<Rightarrow>
          if n = 1 then (Accepted, False)
          else if n = 0 then (Reused, False)
          else if n = - 1 then (OutExpired, False)
          else if n = - 2 then (Full, True)
          else (Full, False)
      | _ \<Rightarrow> (Full, False))"

function read_replies :: "cluster_job \<Rightarrow> cluster_job + (outcome \<times> bool)" where
  "read_replies job =
     (case read_reply (jb_input job) of
        Inl _ \<Rightarrow> Inr (Full, False)
      | Inr None \<Rightarrow> Inl job
      | Inr (Some (rep, used)) \<Rightarrow>
          (let job' = job\<lparr>jb_input := drop used (jb_input job)\<rparr> in
           if jb_auth job then
             (if rep \<noteq> ReplyOk then Inr (Full, False)
              else read_replies (job'\<lparr>jb_auth := False\<rparr>))
           else Inr (reply_outcome rep)))"
  by pat_completeness auto
termination
  by (relation "measure (\<lambda>job. if jb_auth job then 1 else 0)") auto

declare read_replies.simps [simp del]

text \<open>What \<open>recv\<close> answers: nothing now, an end or an error, or at most 256 bytes.\<close>

datatype recv = RecvAgain | RecvEnd | RecvBytes bytes

fun read_loop ::
  "cluster_env \<Rightarrow> nat \<Rightarrow> bool \<Rightarrow> recv list \<Rightarrow> cluster_job \<Rightarrow> cluster \<Rightarrow> cluster" where
  "read_loop E j rearm [] job c = (if rearm then c else complete E j Full False c)"
| "read_loop E j rearm (RecvAgain # _) job c = (if rearm then c else complete E j Full False c)"
| "read_loop E j rearm (RecvEnd # _) job c = complete E j Full False c"
| "read_loop E j rearm (RecvBytes bs # rest) job c =
     (if bs = [] \<or> length (jb_input job) + length bs > 1024 then complete E j Full False c
      else
        (case read_replies (job\<lparr>jb_input := jb_input job @ bs\<rparr>) of
           Inl job' \<Rightarrow> read_loop E j rearm rest job' (update_job j (\<lambda>_. job') c)
         | Inr (outcome, fenced) \<Rightarrow> complete E j outcome fenced c))"

definition read_event :: "cluster_env \<Rightarrow> nat \<Rightarrow> bool \<Rightarrow> recv list \<Rightarrow> cluster \<Rightarrow> cluster" where
  "read_event E j rearm recvs c =
     (case ct_jobs c j of None \<Rightarrow> c | Some job \<Rightarrow> read_loop E j rearm recvs job c)"

definition timeout :: "cluster_env \<Rightarrow> nat \<Rightarrow> cluster \<Rightarrow> cluster" where
  "timeout E j c = complete E j Full False c"

definition aborted :: "cluster_env \<Rightarrow> nat \<Rightarrow> cluster \<Rightarrow> cluster" where
  "aborted E j c =
     complete E j Full False (update_job j (\<lambda>job. job\<lparr>jb_request := None, jb_cleanup := False\<rparr>) c)"

subsection \<open>Steps\<close>

datatype cluster_event =
    Redeems nat string i64 redeem_grant
  | Polls bool
  | Writes nat bool bool "int list"
  | Reads nat bool "recv list"
  | Expires nat
  | Aborts nat

fun cluster_step :: "externals \<Rightarrow> cluster_env \<Rightarrow> cluster_event \<Rightarrow> cluster \<Rightarrow> cluster" where
  "cluster_step X E (Redeems req token expires g) c = cluster_redeem X E req token expires g c"
| "cluster_step X E (Polls exiting) c = poll X E exiting c"
| "cluster_step X E (Writes j ok rearm sends) c = write_event E j ok rearm sends c"
| "cluster_step X E (Reads j rearm recvs) c = read_event E j rearm recvs c"
| "cluster_step X E (Expires j) c = timeout E j c"
| "cluster_step X E (Aborts j) c = aborted E j c"

text \<open>Requests that a live job holds, and requests that were answered.\<close>

definition waiting :: "cluster \<Rightarrow> nat set" where
  "waiting c = {r. \<exists>j job. ct_jobs c j = Some job \<and> jb_request job = Some r}"

definition answered :: "cluster \<Rightarrow> nat list" where
  "answered c = map fst (ct_finished c)"

text \<open>A handler redeems for its own request, which no other redemption was asked for.\<close>

fun fresh_event :: "cluster_event \<Rightarrow> cluster \<Rightarrow> bool" where
  "fresh_event (Redeems req _ _ _) c = (req \<notin> waiting c \<union> set (answered c))"
| "fresh_event _ c = True"

inductive cluster_reach :: "externals \<Rightarrow> cluster_config \<Rightarrow> cluster \<Rightarrow> bool" for X config where
  reach_start: "cluster_reach X config (cluster_activate config)"
| reach_step: "cluster_reach X config c \<Longrightarrow> fresh_event ev c \<Longrightarrow> cluster_reach X config (cluster_step X E ev c)"

subsection \<open>Invariants of the runtime\<close>

text \<open>The request a job has to answer, if any, and updates that leave a job's duties alone.\<close>

definition owes :: "cluster_job \<Rightarrow> nat list" where
  "owes job = (case (jb_request job, jb_grant job) of (Some r, Some _) \<Rightarrow> [r] | _ \<Rightarrow> [])"

definition same_duties :: "cluster_job \<Rightarrow> cluster_job \<Rightarrow> bool" where
  "same_duties a b \<longleftrightarrow>
     jb_request b = jb_request a \<and> jb_grant b = jb_grant a \<and> jb_health b = jb_health a \<and>
     jb_expires b = jb_expires a \<and> jb_output b = jb_output a \<and> (jb_deadline a \<longrightarrow> jb_deadline b)"

lemma same_duties_refl [simp]: "same_duties a a"
  by (simp add: same_duties_def)

lemma same_duties_trans: "same_duties a b \<Longrightarrow> same_duties b d \<Longrightarrow> same_duties a d"
  by (simp add: same_duties_def)

text \<open>The outcome a job ends with: a late acceptance has expired.\<close>

definition settle :: "cluster_env \<Rightarrow> nat \<Rightarrow> cluster_job \<Rightarrow> outcome \<Rightarrow> outcome" where
  "settle E j job out =
     (if \<not> jb_health job \<and> out = Accepted \<and> ce_done E j \<ge> jb_expires job then OutExpired else out)"

lemma fst_release [simp]: "fst (release E j job out f c) = settle E j job out"
  by (auto simp: release_def settle_def Let_def)

lemma settle_simps [simp]:
  "settle E j job Full = Full" "settle E j job out = Accepted \<longleftrightarrow> out = Accepted \<and> (jb_health job \<or> ce_done E j < jb_expires job)"
  by (auto simp: settle_def)

lemma settle_duties: "same_duties a b \<Longrightarrow> settle E j b out = settle E j a out"
  by (simp add: same_duties_def settle_def)

text \<open>The result of what a connection delivers, before it is acted on.\<close>

fun read_result :: "recv list \<Rightarrow> cluster_job \<Rightarrow> (outcome \<times> bool) option" where
  "read_result [] job = None"
| "read_result (RecvAgain # _) job = None"
| "read_result (RecvEnd # _) job = Some (Full, False)"
| "read_result (RecvBytes bs # rest) job =
     (if bs = [] \<or> length (jb_input job) + length bs > 1024 then Some (Full, False)
      else
        (case read_replies (job\<lparr>jb_input := jb_input job @ bs\<rparr>) of
           Inl job' \<Rightarrow> read_result rest job'
         | Inr res \<Rightarrow> Some res))"

lemma read_replies_duties: "read_replies job = Inl job' \<Longrightarrow> same_duties job job'"
  by (induction job rule: read_replies.induct)
    (subst (asm) (2) read_replies.simps,
     auto simp: same_duties_def Let_def split: sum.splits option.splits if_splits)

lemma heard_duties: "read_replies (job\<lparr>jb_input := input\<rparr>) = Inl job' \<Longrightarrow> same_duties job job'"
  by (drule read_replies_duties) (simp add: same_duties_def)

text \<open>The runtime with one more job.\<close>

definition spawn :: "cluster_job \<Rightarrow> cluster \<Rightarrow> cluster" where
  "spawn job c = c\<lparr>ct_jobs := (ct_jobs c)(ct_next c := Some job), ct_next := ct_next c + 1\<rparr>"

lemma make_job_fst: "fst (make_job X E req g token expires health c) = ct_next c"
  by (simp add: make_job_def)

lemma connect_armed:
  "connect E j c =
     connect E j (update_job j (\<lambda>job. if jb_health job then job\<lparr>jb_deadline := True\<rparr> else job) c)"
proof -
  have "update_job j (\<lambda>job. if jb_health job then job\<lparr>jb_deadline := True\<rparr> else job)
      (update_job j (\<lambda>job. if jb_health job then job\<lparr>jb_deadline := True\<rparr> else job) c) =
    update_job j (\<lambda>job. if jb_health job then job\<lparr>jb_deadline := True\<rparr> else job) c"
    by (cases "ct_jobs c j") (simp_all add: update_job_def)
  then show ?thesis by (simp add: connect_def connect_with_def)
qed

text \<open>
  A property of the runtime that its basic moves keep: changing a job's transport state, freeing a
  job, answering its request, moving the head of the queue to the active jobs. The first argument
  of \<open>I\<close> holds the requests of jobs that are freed and not yet answered, \<open>A\<close> says which
  outcomes may be given to a job; refusing must always be possible. \<open>T\<close> says which changes of a
  job's transport state are covered: all that leave its input alone, and what reading does to
  the jobs in \<open>R\<close>.
\<close>

locale runtime_moves =
  fixes I :: "nat list \<Rightarrow> cluster \<Rightarrow> bool" and A :: "cluster_job \<Rightarrow> outcome \<Rightarrow> bool"
    and T :: "nat \<Rightarrow> cluster_job \<Rightarrow> cluster_job \<Rightarrow> bool" and R :: "nat \<Rightarrow> bool"
  assumes touch: "I ow c \<Longrightarrow> \<forall>job. ct_jobs c j = Some job \<longrightarrow> T j job (f job) \<Longrightarrow> I ow (update_job j f c)"
    and released: "I ow c \<Longrightarrow> ct_jobs c j = Some job \<Longrightarrow> I (owes job @ ow) (snd (release E j job out fenced c))"
    and finished: "I (owes job @ ow) c \<Longrightarrow> A job out \<Longrightarrow> I ow (finish_call job out c)"
    and admit: "I ow c \<Longrightarrow> ct_pending c = j # rest \<Longrightarrow> length (ct_active c) < rc_connections (ct_config c) \<Longrightarrow>
      I ow (c\<lparr>ct_pending := rest, ct_active := ct_active c @ [j]\<rparr>)"
    and flag: "I ow c \<Longrightarrow> I ow (c\<lparr>ct_pumping := b\<rparr>)"
    and refusable: "A job Full"
    and duties: "A job out \<Longrightarrow> same_duties job job' \<Longrightarrow> A job' out"
    and transport: "same_duties job job' \<Longrightarrow> jb_input job' = jb_input job \<Longrightarrow> jb_auth job' = jb_auth job \<Longrightarrow> T j job job'"
    and heard: "R j \<Longrightarrow> read_replies (job\<lparr>jb_input := input\<rparr>) = Inl job' \<Longrightarrow> T j job job'"
begin

lemma I_complete_pumping:
  assumes "I ow c" "\<And>job. ct_jobs c j = Some job \<Longrightarrow> A job (settle E j job out)"
  shows "I ow (complete_pumping E j out f c)"
proof (cases "ct_jobs c j")
  case (Some job)
  from finished [OF released [OF assms(1) Some] assms(2) [OF Some]] Some show ?thesis
    by (simp add: complete_pumping_def case_prod_beta)
qed (simp add: complete_pumping_def assms)

lemma I_connect_with:
  assumes "I ow c" "\<And>c. I ow c \<Longrightarrow> I ow (completing j Full False c)"
  shows "I ow (connect_with completing E j c)"
proof -
  let ?arm = "\<lambda>job. if jb_health job then job\<lparr>jb_deadline := True\<rparr> else job"
  have arm: "I ow (update_job j ?arm c)"
    by (rule touch [OF assms(1)]) (simp add: transport same_duties_def)
  then have "I ow (update_job j (jb_connected_update (\<lambda>_. True)) (update_job j ?arm c))"
    by (rule touch) (simp add: transport same_duties_def)
  with arm show ?thesis using assms(2) by (simp add: connect_with_def Let_def case_prod_beta)
qed

lemma I_connect_pumping: "I ow c \<Longrightarrow> I ow (connect_with (complete_pumping E) E j c)"
  by (rule I_connect_with) (auto intro!: I_complete_pumping simp: refusable)

lemma I_pump: "I ow c \<Longrightarrow> I ow (pump E c)"
proof (induction E c rule: pump.induct)
  case (1 E c)
  show ?case
  proof (cases "length (ct_active c) < rc_connections (ct_config c) \<and> ct_pending c \<noteq> []")
    case True
    then obtain j rest where j: "ct_pending c = j # rest" by (cases "ct_pending c") auto
    from True have room: "length (ct_active c) < rc_connections (ct_config c)" by simp
    from "1.IH" [OF room j I_connect_pumping [OF admit [OF "1.prems" j room]]] show ?thesis
      by (subst pump.simps) (simp add: room j)
  next
    case False
    then show ?thesis using "1.prems" by (subst pump.simps) (auto split: list.splits)
  qed
qed

lemma I_complete:
  assumes "I ow c" "\<And>job. ct_jobs c j = Some job \<Longrightarrow> A job (settle E j job out)"
  shows "I ow (complete E j out f c)"
proof (cases "ct_jobs c j")
  case (Some job)
  let ?c = "snd (release E j job out f c)"
  let ?d = "if \<not> ct_pumping ?c then (pump E (?c\<lparr>ct_pumping := True\<rparr>))\<lparr>ct_pumping := False\<rparr> else ?c"
  have "I (owes job @ ow) ?c" by (rule released [OF assms(1) Some])
  then have "I (owes job @ ow) ?d" by (simp add: flag I_pump)
  from finished [OF this assms(2) [OF Some]] Some show ?thesis
    by (simp add: complete_def case_prod_beta Let_def)
qed (simp add: complete_def assms)

lemma I_give_up: "I ow c \<Longrightarrow> I ow (complete E j Full f c)"
  by (rule I_complete) (simp_all add: refusable)

lemma I_connect: "I ow c \<Longrightarrow> I ow (connect E j c)"
  unfolding connect_def by (rule I_connect_with) (simp_all add: I_give_up)

lemma I_write_loop: "I ow c \<Longrightarrow> I ow (write_loop E j rearm sends job c)"
proof (induction E j rearm sends job c rule: write_loop.induct)
  case (1 E j rearm sends job c)
  have "I ow (update_job j (jb_sent_update (\<lambda>s. s + k)) c)" for k
    by (rule touch [OF "1.prems"]) (simp add: transport same_duties_def)
  with 1 show ?case
    by (subst write_loop.simps) (auto simp: I_give_up split: list.splits)
qed

lemma I_write_event: "I ow c \<Longrightarrow> I ow (write_event E j ok rearm sends c)"
  by (simp add: write_event_def I_write_loop I_give_up split: option.splits)

lemma I_read_loop:
  assumes "I ow c" "ct_jobs c j = Some job" "R j"
    and "\<And>out f. read_result recvs job = Some (out, f) \<Longrightarrow> A job (settle E j job out)"
  shows "I ow (read_loop E j rearm recvs job c)"
  using assms
proof (induction E j rearm recvs job c rule: read_loop.induct)
  case (4 E j rearm bs rest job c)
  show ?case
  proof (cases "bs = [] \<or> length (jb_input job) + length bs > 1024")
    case True
    then show ?thesis using "4.prems"(1) by (simp add: I_give_up)
  next
    case False
    show ?thesis
    proof (cases "read_replies (job\<lparr>jb_input := jb_input job @ bs\<rparr>)")
      case (Inl job')
      then have same: "same_duties job job'" by (rule heard_duties)
      have I': "I ow (update_job j (\<lambda>_. job') c)"
        by (rule touch [OF "4.prems"(1)]) (simp add: "4.prems"(2) heard [OF "4.prems"(3) Inl])
      have here: "ct_jobs (update_job j (\<lambda>_. job') c) j = Some job'"
        using "4.prems"(2) by (simp add: update_job_def)
      have "A job' (settle E j job' out)" if "read_result rest job' = Some (out, f)" for out f
        using "4.prems"(4) [of out f] that False Inl duties [OF _ same] settle_duties [OF same] by simp
      from "4.IH" [OF False Inl I' here "4.prems"(3) this] False Inl show ?thesis by simp
    next
      case (Inr res)
      then show ?thesis using "4.prems" False
        by (cases res) (auto intro!: I_complete)
    qed
  qed
qed (simp_all add: I_give_up)

lemma I_read_event:
  assumes "I ow c" "R j"
    and "\<And>job out f. ct_jobs c j = Some job \<Longrightarrow> read_result recvs job = Some (out, f) \<Longrightarrow> A job (settle E j job out)"
  shows "I ow (read_event E j rearm recvs c)"
  using assms by (auto simp: read_event_def intro!: I_read_loop split: option.splits)

lemma I_timeout: "I ow c \<Longrightarrow> I ow (timeout E j c)"
  by (simp add: timeout_def I_give_up)

lemma I_cluster_step:
  assumes inv: "(\<And>req token expires g. ev \<noteq> Redeems req token expires g) \<Longrightarrow> I [] c"
    and redeem: "\<And>req token expires g job. ev = Redeems req token expires g \<Longrightarrow>
      jb_output job = job_output X (ct_config c) token expires False (ce_now E) \<Longrightarrow>
      jb_request job = Some req \<Longrightarrow> jb_grant job = Some g \<Longrightarrow> \<not> jb_health job \<Longrightarrow> jb_deadline job \<Longrightarrow>
      jb_input job = [] \<Longrightarrow> jb_auth job = (rc_password (ct_config c) \<noteq> []) \<Longrightarrow>
      I [] (c\<lparr>ct_finished := ct_finished c @ [(req, Full, g)]\<rparr>) \<and>
      (length (ct_active c) < rc_connections (ct_config c) \<longrightarrow>
         I [] ((spawn job c)\<lparr>ct_active := ct_active c @ [ct_next c]\<rparr>)) \<and>
      (rc_connections (ct_config c) \<le> length (ct_active c) \<and> length (ct_pending c) < rc_queue (ct_config c) \<longrightarrow>
         I [] ((spawn job c)\<lparr>ct_pending := ct_pending c @ [ct_next c]\<rparr>))"
    and polling: "\<And>job. ev = Polls False \<Longrightarrow> \<not> ct_health_busy c \<Longrightarrow>
      jb_request job = None \<Longrightarrow> jb_health job \<Longrightarrow> jb_deadline job \<Longrightarrow>
      jb_input job = [] \<Longrightarrow> jb_auth job = (rc_password (ct_config c) \<noteq> []) \<Longrightarrow>
      I [] (spawn job (c\<lparr>ct_health_busy := True\<rparr>))"
    and abort: "\<And>j. ev = Aborts j \<Longrightarrow> I [] (update_job j (\<lambda>job. job\<lparr>jb_request := None, jb_cleanup := False\<rparr>) c)"
    and sound: "\<And>j rearm recvs. ev = Reads j rearm recvs \<Longrightarrow> R j"
    and reading: "\<And>j rearm recvs job out f. ev = Reads j rearm recvs \<Longrightarrow> ct_jobs c j = Some job \<Longrightarrow>
      read_result recvs job = Some (out, f) \<Longrightarrow> A job (settle E j job out)"
  shows "I [] (cluster_step X E ev c)"
proof (cases ev)
  case (Redeems req token expires g)
  let ?job = "\<lparr>jb_address = peer_address (rc_address (ct_config c)), jb_output = job_output X (ct_config c) token expires False (ce_now E), jb_sent = 0,
    jb_input = [], jb_auth = (rc_password (ct_config c) \<noteq> []), jb_deadline = True, jb_connected = False,
    jb_request = Some req, jb_cleanup = True, jb_grant = Some g, jb_expires = expires, jb_health = False\<rparr>"
  note ok = redeem [OF Redeems, of ?job, simplified]
  have "update_job (ct_next c) (\<lambda>job. job\<lparr>jb_cleanup := True, jb_deadline := True\<rparr>)
      (snd (make_job X E (Some req) (Some g) token expires False c)) = spawn ?job c"
    by (simp add: make_job_def update_job_def spawn_def fun_upd_idem_iff)
  then show ?thesis using ok
    by (auto simp: Redeems cluster_redeem_def Let_def case_prod_beta make_job_fst spawn_def not_less not_le
        intro!: I_connect)
next
  case (Polls exiting)
  let ?job = "\<lparr>jb_address = peer_address (rc_address (ct_config c)), jb_output = job_output X (ct_config c) [] 0 True (ce_now E), jb_sent = 0,
    jb_input = [], jb_auth = (rc_password (ct_config c) \<noteq> []), jb_deadline = True, jb_connected = False,
    jb_request = None, jb_cleanup = False, jb_grant = None, jb_expires = 0, jb_health = True\<rparr>"
  have "update_job (ct_next c) (\<lambda>job. if jb_health job then job\<lparr>jb_deadline := True\<rparr> else job)
      (snd (make_job X E None None [] 0 True (c\<lparr>ct_health_busy := True\<rparr>))) =
      spawn ?job (c\<lparr>ct_health_busy := True\<rparr>)"
    by (simp add: make_job_def update_job_def spawn_def fun_upd_idem_iff)
  then have "connect E (ct_next c) (snd (make_job X E None None [] 0 True (c\<lparr>ct_health_busy := True\<rparr>))) =
      connect E (ct_next c) (spawn ?job (c\<lparr>ct_health_busy := True\<rparr>))"
    by (subst connect_armed) simp
  then show ?thesis using inv polling [of ?job]
    by (auto simp: Polls poll_def case_prod_beta make_job_fst intro!: I_connect)
qed (use assms in \<open>auto simp: aborted_def intro!: I_write_event I_read_event I_timeout I_give_up\<close>)

end

subsubsection \<open>Bounds of the queue\<close>

definition queue_inv :: "cluster_config \<Rightarrow> nat list \<Rightarrow> cluster \<Rightarrow> bool" where
  "queue_inv config ow c \<longleftrightarrow>
     ct_config c = config \<and> distinct (ct_active c @ ct_pending c) \<and>
     (\<forall>j. j \<in> set (ct_active c) \<union> set (ct_pending c) \<longleftrightarrow> (\<exists>job. ct_jobs c j = Some job \<and> \<not> jb_health job)) \<and>
     length (ct_active c) \<le> rc_connections config \<and> length (ct_pending c) \<le> rc_queue config \<and>
     (\<forall>j job. ct_jobs c j = Some job \<longrightarrow> j < ct_next c) \<and>
     (\<forall>j job. ct_jobs c j = Some job \<and> jb_health job \<longrightarrow> jb_request job = None) \<and>
     (ct_fenced c \<longrightarrow> \<not> ct_ready c)"

lemma removeAll_le: "length xs \<le> n \<Longrightarrow> length (removeAll j xs) \<le> n"
  by (rule order_trans [OF length_removeAll_less_eq])

lemma queue_release:
  assumes "queue_inv config ow c" "ct_jobs c j = Some job"
  shows "queue_inv config ow' (snd (release E j job out f c))"
  using assms
  by (auto simp: queue_inv_def release_def Let_def distinct_removeAll intro!: removeAll_le)

interpretation queue: runtime_moves "queue_inv config" "\<lambda>_ _. True" "\<lambda>_. same_duties" "\<lambda>_. True"
proof (unfold_locales, goal_cases)
  case (1 ow c j f)
  then show ?case by (auto simp: queue_inv_def update_job_def same_duties_def split: if_splits)
next
  case 2
  then show ?case by (rule queue_release)
next
  case (3 job ow c out)
  then show ?case
    by (cases "jb_request job"; cases "jb_grant job") (simp_all add: queue_inv_def finish_call_def)
next
  case (4 ow c j rest)
  then show ?case by (auto simp: queue_inv_def)
qed (auto simp: queue_inv_def intro: heard_duties)

subsubsection \<open>Accounting for requests\<close>

definition req_inv :: "nat list \<Rightarrow> cluster \<Rightarrow> bool" where
  "req_inv ow c \<longleftrightarrow>
     distinct (ow @ answered c) \<and> waiting c \<inter> set (ow @ answered c) = {} \<and>
     (\<forall>j k a b r. ct_jobs c j = Some a \<and> ct_jobs c k = Some b \<and> jb_request a = Some r \<and> jb_request b = Some r \<longrightarrow> j = k) \<and>
     (\<forall>j job. ct_jobs c j = Some job \<longrightarrow> jb_request job \<noteq> None \<longrightarrow> jb_grant job \<noteq> None)"

lemma release_jobs: "ct_jobs (snd (release E j job out f c)) = (ct_jobs c)(j := None)"
  by (simp add: release_def Let_def)

lemma release_finished: "ct_finished (snd (release E j job out f c)) = ct_finished c"
  by (simp add: release_def Let_def)

lemma finish_call_jobs [simp]: "ct_jobs (finish_call job out c) = ct_jobs c"
  by (simp add: finish_call_def split: option.splits)

lemma answered_finish_call: "answered (finish_call job out c) = answered c @ owes job"
  by (simp add: finish_call_def owes_def answered_def split: option.splits)

lemma waiting_cong: "ct_jobs c = ct_jobs d \<Longrightarrow> waiting c = waiting d"
  by (simp add: waiting_def)

lemma update_jobs: "ct_jobs (update_job j f c) = (ct_jobs c)(j := map_option f (ct_jobs c j))"
  by (simp add: update_job_def)

lemma waiting_update:
  "\<forall>job. ct_jobs c j = Some job \<longrightarrow> jb_request (f job) = jb_request job \<Longrightarrow> waiting (update_job j f c) = waiting c"
  by (fastforce simp: waiting_def update_jobs split: if_splits)

lemma req_inv_unique:
  "req_inv ow c \<Longrightarrow> ct_jobs c j = Some a \<Longrightarrow> ct_jobs c k = Some b \<Longrightarrow> jb_request a = Some r \<Longrightarrow>
   jb_request b = Some r \<Longrightarrow> j = k"
  unfolding req_inv_def by meson

lemma req_inv_grant: "req_inv ow c \<Longrightarrow> ct_jobs c j = Some a \<Longrightarrow> jb_request a \<noteq> None \<Longrightarrow> jb_grant a \<noteq> None"
  unfolding req_inv_def by meson

lemma req_released:
  assumes "req_inv ow c" "ct_jobs c j = Some job"
  shows "req_inv (owes job @ ow) (snd (release E j job out f c))"
proof -
  let ?c = "snd (release E j job out f c)"
  have ans: "answered ?c = answered c" by (simp add: answered_def release_finished)
  have sub: "waiting ?c \<subseteq> waiting c" by (auto simp: waiting_def release_jobs split: if_splits)
  have own: "set (owes job) \<subseteq> waiting c"
    using assms(2) by (auto simp: owes_def waiting_def intro!: exI [of _ j] split: option.splits)
  have keep: "ct_jobs c i = Some a \<and> i \<noteq> j" if "ct_jobs ?c i = Some a" for i a
    using that by (cases "i = j") (simp_all add: release_jobs)
  have owed: "jb_request job = Some r" if "r \<in> set (owes job)" for r
    using that by (auto simp: owes_def split: option.splits)
  have gone: "waiting ?c \<inter> set (owes job) = {}"
  proof (rule equals0I)
    fix r assume "r \<in> waiting ?c \<inter> set (owes job)"
    then obtain k b where "ct_jobs ?c k = Some b" "jb_request b = Some r" "r \<in> set (owes job)"
      unfolding waiting_def by blast
    with keep [of k b] owed [of r] req_inv_unique [OF assms(1,2), of k b r] show False by simp
  qed
  have one: "distinct (owes job)" by (simp add: owes_def split: option.splits)
  have uniq: "\<forall>i k a b r. ct_jobs ?c i = Some a \<and> ct_jobs ?c k = Some b \<and> jb_request a = Some r \<and> jb_request b = Some r \<longrightarrow> i = k"
    by (meson keep req_inv_unique [OF assms(1)])
  have grants: "\<forall>i a. ct_jobs ?c i = Some a \<longrightarrow> jb_request a \<noteq> None \<longrightarrow> jb_grant a \<noteq> None"
    using keep req_inv_grant [OF assms(1)] by blast
  have d: "distinct (ow @ answered c)" "waiting c \<inter> set (ow @ answered c) = {}"
    using assms(1) unfolding req_inv_def by blast+
  then have "distinct ((owes job @ ow) @ answered ?c)" using one own unfolding ans by auto
  moreover have "waiting ?c \<inter> set ((owes job @ ow) @ answered ?c) = {}"
    using d(2) sub gone unfolding ans by auto
  ultimately show ?thesis unfolding req_inv_def using uniq grants by blast
qed

interpretation req: runtime_moves req_inv "\<lambda>_ _. True" "\<lambda>_. same_duties" "\<lambda>_. True"
proof (unfold_locales, goal_cases)
  case (1 ow c j f)
  then have "waiting (update_job j f c) = waiting c" by (intro waiting_update) (auto simp: same_duties_def)
  with 1 show ?case
    unfolding req_inv_def by (auto simp: update_job_def same_duties_def answered_def split: if_splits)
next
  case 2
  then show ?case by (rule req_released)
next
  case (3 job ow c out)
  then show ?case
    by (auto simp: req_inv_def answered_finish_call waiting_cong [of "finish_call job out c" c])
qed (auto simp: req_inv_def waiting_def answered_def intro: heard_duties)

subsubsection \<open>No request is lost, no acceptance invented, the fence stays, deadlines are armed\<close>

definition kept_inv :: "nat set \<Rightarrow> nat list \<Rightarrow> cluster \<Rightarrow> bool" where
  "kept_inv R ow c \<longleftrightarrow>
     R \<subseteq> waiting c \<union> set ow \<union> set (answered c) \<and>
     (\<forall>j job. ct_jobs c j = Some job \<longrightarrow> jb_request job \<noteq> None \<longrightarrow> jb_grant job \<noteq> None)"

definition granted_inv :: "(nat \<times> redeem_grant) set \<Rightarrow> nat list \<Rightarrow> cluster \<Rightarrow> bool" where
  "granted_inv S ow c \<longleftrightarrow> (\<forall>r g. (r, Accepted, g) \<in> set (ct_finished c) \<longrightarrow> (r, g) \<in> S)"

definition may_grant :: "(nat \<times> redeem_grant) set \<Rightarrow> cluster_job \<Rightarrow> outcome \<Rightarrow> bool" where
  "may_grant S job out \<longleftrightarrow>
     (out = Accepted \<longrightarrow> (\<forall>r g. jb_request job = Some r \<and> jb_grant job = Some g \<longrightarrow> (r, g) \<in> S))"

definition fenced_inv :: "nat list \<Rightarrow> cluster \<Rightarrow> bool" where
  "fenced_inv ow c \<longleftrightarrow> ct_fenced c"

definition armed_inv :: "nat list \<Rightarrow> cluster \<Rightarrow> bool" where
  "armed_inv ow c \<longleftrightarrow> (\<forall>j job. ct_jobs c j = Some job \<longrightarrow> jb_deadline job)"

lemma kept_released:
  assumes "kept_inv R ow c" "ct_jobs c j = Some job"
  shows "kept_inv R (owes job @ ow) (snd (release E j job out f c))"
proof -
  let ?c = "snd (release E j job out f c)"
  have sub: "waiting c \<subseteq> waiting ?c \<union> set (owes job)"
  proof
    fix r assume r: "r \<in> waiting c"
    from r obtain k b where b: "ct_jobs c k = Some b" "jb_request b = Some r" unfolding waiting_def by blast
    show "r \<in> waiting ?c \<union> set (owes job)"
    proof (cases "k = j")
      case True
      with b assms have "jb_grant job \<noteq> None" "jb_request job = Some r" by (auto simp: kept_inv_def)
      then show ?thesis by (auto simp: owes_def)
    next
      case False
      with b have "ct_jobs ?c k = Some b" by (simp add: release_jobs)
      with b(2) show ?thesis unfolding waiting_def by blast
    qed
  qed
  have ans: "answered ?c = answered c" by (simp add: answered_def release_finished)
  have "R \<subseteq> waiting c \<union> set ow \<union> set (answered c)" using assms(1) unfolding kept_inv_def by (rule conjunct1)
  then have "R \<subseteq> waiting ?c \<union> set (owes job @ ow) \<union> set (answered ?c)"
    using sub unfolding ans set_append by blast
  moreover have "\<forall>k a. ct_jobs ?c k = Some a \<longrightarrow> jb_request a \<noteq> None \<longrightarrow> jb_grant a \<noteq> None"
    using assms(1) by (simp add: kept_inv_def release_jobs)
  ultimately show ?thesis unfolding kept_inv_def by blast
qed

interpretation kept: runtime_moves "kept_inv R" "\<lambda>_ _. True" "\<lambda>_. same_duties" "\<lambda>_. True"
proof (unfold_locales, goal_cases)
  case (1 ow c j f)
  then have "waiting (update_job j f c) = waiting c" by (intro waiting_update) (auto simp: same_duties_def)
  with 1 show ?case
    unfolding kept_inv_def by (auto simp: update_job_def same_duties_def answered_def split: if_splits)
next
  case 2
  then show ?case by (rule kept_released)
next
  case (3 job ow c out)
  then show ?case
    by (auto simp: kept_inv_def answered_finish_call waiting_cong [of "finish_call job out c" c])
qed (auto simp: kept_inv_def waiting_def answered_def intro: heard_duties)

interpretation granted: runtime_moves "granted_inv S" "may_grant S" "\<lambda>_. same_duties" "\<lambda>_. True"
  by unfold_locales
    (auto simp: granted_inv_def may_grant_def update_job_def release_finished finish_call_def
      same_duties_def split: option.splits dest: heard_duties)

interpretation fence: runtime_moves fenced_inv "\<lambda>_ _. True" "\<lambda>_. same_duties" "\<lambda>_. True"
  by unfold_locales
    (auto simp: fenced_inv_def update_job_def release_def finish_call_def Let_def split: option.splits intro: heard_duties)

interpretation armed: runtime_moves armed_inv "\<lambda>_ _. True" "\<lambda>_. same_duties" "\<lambda>_. True"
  by unfold_locales
    (auto simp: armed_inv_def update_job_def release_jobs same_duties_def split: if_splits dest: heard_duties)

subsection \<open>Reachable states\<close>

lemma waiting_spawn:
  "waiting (spawn job c) \<subseteq> waiting c \<union> set_option (jb_request job)"
  by (auto simp: waiting_def spawn_def split: if_splits)

lemma queue_step: "queue_inv config [] c \<Longrightarrow> queue_inv config [] (cluster_step X E ev c)"
  by (rule queue.I_cluster_step)
    (auto simp: queue_inv_def spawn_def update_job_def less_Suc_eq split: if_splits)

lemma armed_step: "armed_inv [] c \<Longrightarrow> armed_inv [] (cluster_step X E ev c)"
  by (rule armed.I_cluster_step) (auto simp: armed_inv_def spawn_def update_job_def split: if_splits)

lemma fence_step: "fenced_inv [] c \<Longrightarrow> fenced_inv [] (cluster_step X E ev c)"
  by (rule fence.I_cluster_step) (auto simp: fenced_inv_def spawn_def update_job_def)

lemma req_step:
  assumes inv: "req_inv [] c" and fresh: "fresh_event ev c" and slot: "ct_jobs c (ct_next c) = None"
  shows "req_inv [] (cluster_step X E ev c)"
proof (rule req.I_cluster_step)
  fix req token expires g and job :: cluster_job
  assume ev: "ev = Redeems req token expires g" and job: "jb_request job = Some req" "jb_grant job = Some g"
  from fresh ev have new: "req \<notin> waiting c" "req \<notin> set (answered c)" by simp_all
  have "req_inv [] (c\<lparr>ct_finished := ct_finished c @ [(req, Full, g)]\<rparr>)"
    using inv new by (auto simp: req_inv_def answered_def waiting_def)
  moreover have spawn: "req_inv [] (spawn job c)"
  proof -
    have no: "jb_request b \<noteq> Some req" if "ct_jobs c k = Some b" for k b using that new(1) by (auto simp: waiting_def)
    have "waiting (spawn job c) \<inter> set (answered c) = {}"
      using waiting_spawn [of job c] inv new(2) job(1) by (auto simp: req_inv_def)
    moreover have "answered (spawn job c) = answered c" by (simp add: answered_def spawn_def)
    ultimately show ?thesis
      using inv no job unfolding req_inv_def by (auto simp: spawn_def split: if_splits)
  qed
  moreover have "req_inv [] ((spawn job c)\<lparr>ct_active := as\<rparr>) = req_inv [] (spawn job c)"
    "req_inv [] ((spawn job c)\<lparr>ct_pending := as\<rparr>) = req_inv [] (spawn job c)" for as
    by (simp_all add: req_inv_def waiting_def answered_def)
  ultimately show "req_inv [] (c\<lparr>ct_finished := ct_finished c @ [(req, Full, g)]\<rparr>) \<and>
      (length (ct_active c) < rc_connections (ct_config c) \<longrightarrow>
         req_inv [] ((spawn job c)\<lparr>ct_active := ct_active c @ [ct_next c]\<rparr>)) \<and>
      (rc_connections (ct_config c) \<le> length (ct_active c) \<and> length (ct_pending c) < rc_queue (ct_config c) \<longrightarrow>
         req_inv [] ((spawn job c)\<lparr>ct_pending := ct_pending c @ [ct_next c]\<rparr>))"
    by simp
next
  fix job :: cluster_job assume job: "jb_request job = None"
  have "waiting (spawn job (c\<lparr>ct_health_busy := True\<rparr>)) \<subseteq> waiting c"
    using waiting_spawn [of job "c\<lparr>ct_health_busy := True\<rparr>"] job by (simp add: waiting_def)
  then show "req_inv [] (spawn job (c\<lparr>ct_health_busy := True\<rparr>))"
    using inv job unfolding req_inv_def by (auto simp: spawn_def answered_def split: if_splits)
next
  fix j
  let ?f = "\<lambda>job. job\<lparr>jb_request := None, jb_cleanup := False\<rparr>"
  have "waiting (update_job j ?f c) \<subseteq> waiting c"
    by (auto simp: waiting_def update_jobs split: if_splits)
  then show "req_inv [] (update_job j ?f c)"
    using inv unfolding req_inv_def by (auto simp: update_job_def answered_def split: if_splits)
qed (simp_all add: inv)

text \<open>The request that an abort takes away: the one its own job holds.\<close>

fun withdrawn :: "cluster_event \<Rightarrow> cluster \<Rightarrow> nat set" where
  "withdrawn (Aborts j) c = set_option (Option.bind (ct_jobs c j) jb_request)"
| "withdrawn _ c = {}"

lemma kept_step:
  assumes grants: "\<forall>j job. ct_jobs c j = Some job \<longrightarrow> jb_request job \<noteq> None \<longrightarrow> jb_grant job \<noteq> None"
    and slot: "ct_jobs c (ct_next c) = None"
    and R: "R = waiting c \<union> set (answered c) \<union> (case ev of Redeems req _ _ _ \<Rightarrow> {req} | _ \<Rightarrow> {}) - withdrawn ev c"
  shows "kept_inv R [] (cluster_step X E ev c)"
proof (rule kept.I_cluster_step)
  have spawn: "waiting c \<union> set_option (jb_request job) \<subseteq> waiting (spawn job c)" for job
  proof -
    have "ct_jobs (spawn job c) (ct_next c) = Some job" by (simp add: spawn_def)
    moreover have "ct_jobs (spawn job c) j = Some b" if "ct_jobs c j = Some b" for j b
      using that slot by (auto simp: spawn_def)
    ultimately show ?thesis unfolding waiting_def by (cases "jb_request job") auto
  qed
  {
    assume "\<And>req token expires g. ev \<noteq> Redeems req token expires g"
    then show "kept_inv R [] c" using grants R by (cases ev) (auto simp: kept_inv_def)
  }
  {
    fix req token expires g and job :: cluster_job
    assume ev: "ev = Redeems req token expires g" and job: "jb_request job = Some req" "jb_grant job = Some g"
    have "kept_inv R [] (c\<lparr>ct_finished := ct_finished c @ [(req, Full, g)]\<rparr>)"
      using grants R ev by (auto simp: kept_inv_def answered_def waiting_def)
    moreover have "kept_inv R [] (spawn job c)"
      using grants R ev job spawn [of job] unfolding kept_inv_def
      by (auto simp: answered_def spawn_def split: if_splits)
    moreover have "kept_inv R [] ((spawn job c)\<lparr>ct_active := as\<rparr>) = kept_inv R [] (spawn job c)"
      "kept_inv R [] ((spawn job c)\<lparr>ct_pending := as\<rparr>) = kept_inv R [] (spawn job c)" for as
      by (simp_all add: kept_inv_def waiting_def answered_def)
    ultimately show "kept_inv R [] (c\<lparr>ct_finished := ct_finished c @ [(req, Full, g)]\<rparr>) \<and>
        (length (ct_active c) < rc_connections (ct_config c) \<longrightarrow>
           kept_inv R [] ((spawn job c)\<lparr>ct_active := ct_active c @ [ct_next c]\<rparr>)) \<and>
        (rc_connections (ct_config c) \<le> length (ct_active c) \<and> length (ct_pending c) < rc_queue (ct_config c) \<longrightarrow>
           kept_inv R [] ((spawn job c)\<lparr>ct_pending := ct_pending c @ [ct_next c]\<rparr>))"
      by simp
  }
  {
    fix job :: cluster_job assume "ev = Polls False" "jb_request job = None"
    moreover have "kept_inv R [] (spawn job (c\<lparr>ct_health_busy := True\<rparr>)) = kept_inv R [] (spawn job c)"
      by (simp add: kept_inv_def waiting_def answered_def spawn_def)
    ultimately show "kept_inv R [] (spawn job (c\<lparr>ct_health_busy := True\<rparr>))"
      using grants R spawn [of job] unfolding kept_inv_def
      by (auto simp: answered_def spawn_def split: if_splits)
  }
  {
    fix j assume ev: "ev = Aborts j"
    let ?f = "\<lambda>job :: cluster_job. job\<lparr>jb_request := None, jb_cleanup := False\<rparr>"
    have "waiting c - withdrawn ev c \<subseteq> waiting (update_job j ?f c)"
      by (fastforce simp: ev waiting_def update_job_def)
    then show "kept_inv R [] (update_job j ?f c)"
      using grants R ev by (auto simp: kept_inv_def answered_def update_job_def)
  }
qed simp_all

subsubsection \<open>The queue is served\<close>

interpretation same_config: runtime_moves "\<lambda>ow c. ct_config c = config" "\<lambda>_ _. True" "\<lambda>_. same_duties" "\<lambda>_. True"
  by unfold_locales
    (auto simp: update_job_def release_def finish_call_def Let_def split: option.splits intro: heard_duties)

text \<open>Between events nothing waits in the queue while a connection could be opened.\<close>

definition served :: "cluster \<Rightarrow> bool" where
  "served c \<longleftrightarrow>
     \<not> ct_pumping c \<and> (ct_pending c = [] \<or> rc_connections (ct_config c) \<le> length (ct_active c))"

lemma pump_served: "ct_pending (pump E c) = [] \<or> rc_connections (ct_config c) \<le> length (ct_active (pump E c))"
proof (induction E c rule: pump.induct)
  case (1 E c)
  show ?case
  proof (cases "length (ct_active c) < rc_connections (ct_config c) \<and> ct_pending c \<noteq> []")
    case True
    then obtain j rest where j: "ct_pending c = j # rest" by (cases "ct_pending c") auto
    from True have room: "length (ct_active c) < rc_connections (ct_config c)" by simp
    let ?c = "connect_with (complete_pumping E) E j (c\<lparr>ct_pending := rest, ct_active := ct_active c @ [j]\<rparr>)"
    have "ct_config ?c = ct_config c" by (rule same_config.I_connect_pumping) simp
    with "1.IH" [OF room j] have "ct_pending (pump E ?c) = [] \<or> rc_connections (ct_config c) \<le> length (ct_active (pump E ?c))"
      by simp
    then show ?thesis by (subst (1 2) pump.simps) (simp add: room j)
  next
    case False
    then show ?thesis by (subst (1 2) pump.simps) (auto split: list.splits)
  qed
qed

lemma finish_call_fields [simp]:
  "ct_pumping (finish_call job out c) = ct_pumping c" "ct_pending (finish_call job out c) = ct_pending c"
  "ct_active (finish_call job out c) = ct_active c" "ct_config (finish_call job out c) = ct_config c"
  "ct_fenced (finish_call job out c) = ct_fenced c"
  by (simp_all add: finish_call_def split: option.splits)

lemma served_complete:
  assumes "served c" shows "served (complete E j out f c)"
proof (cases "ct_jobs c j")
  case (Some job)
  let ?c = "(snd (release E j job out f c))\<lparr>ct_pumping := True\<rparr>"
  have "ct_pumping (snd (release E j job out f c)) = ct_pumping c" by (simp add: release_def Let_def)
  moreover have "ct_config (pump E ?c) = ct_config ?c" by (rule same_config.I_pump) simp
  ultimately show ?thesis using assms Some pump_served [of E ?c]
    by (simp add: complete_def served_def case_prod_beta Let_def)
qed (simp add: complete_def assms)

lemma served_update [simp]: "served (update_job j f c) = served c"
  by (simp add: served_def update_job_def)

lemma served_connect: "served c \<Longrightarrow> served (connect E j c)"
  by (simp add: connect_def connect_with_def Let_def case_prod_beta served_complete)

lemma served_write: "served c \<Longrightarrow> served (write_loop E j rearm sends job c)"
  by (induction E j rearm sends job c rule: write_loop.induct)
    (subst write_loop.simps, auto simp: served_complete split: list.splits)

lemma served_read: "served c \<Longrightarrow> served (read_loop E j rearm recvs job c)"
  by (induction E j rearm recvs job c rule: read_loop.induct)
    (auto simp: served_complete split: sum.splits)

lemma served_step:
  assumes "served c" shows "served (cluster_step X E ev c)"
proof (cases ev)
  case (Redeems req token expires g)
  have "served ((update_job j f (snd (make_job X E a b token expires False c)))\<lparr>ct_active := ct_active c @ [j]\<rparr>)" for j f a b
    using assms by (auto simp: served_def update_job_def make_job_def)
  moreover have "served ((update_job j f (snd (make_job X E a b token expires False c)))\<lparr>ct_pending := ct_pending c @ [j]\<rparr>)"
    if "rc_connections (ct_config c) \<le> length (ct_active c)" for j f a b
    using assms that by (simp add: served_def update_job_def make_job_def)
  moreover have "served (c\<lparr>ct_finished := fs\<rparr>)" for fs using assms by (simp add: served_def)
  moreover have "ct_active (update_job j f (snd (make_job X E a b token expires False c))) = ct_active c"
    "ct_pending (update_job j f (snd (make_job X E a b token expires False c))) = ct_pending c"
    "ct_config (update_job j f (snd (make_job X E a b token expires False c))) = ct_config c" for j f a b
    by (simp_all add: update_job_def make_job_def)
  ultimately show ?thesis
    by (auto simp: Redeems cluster_redeem_def Let_def case_prod_beta make_job_fst not_less intro!: served_connect)
next
  case (Polls exiting)
  have "served (snd (make_job X E None None [] 0 True (c\<lparr>ct_health_busy := True\<rparr>)))"
    using assms by (simp add: served_def make_job_def)
  then show ?thesis using assms by (simp add: Polls poll_def case_prod_beta served_connect)
qed (use assms in \<open>auto simp: write_event_def read_event_def timeout_def aborted_def served_complete
    served_write served_read split: option.splits\<close>)

subsubsection \<open>All of it\<close>

lemma reach_inv:
  assumes "cluster_reach X config c"
  shows "queue_inv config [] c \<and> req_inv [] c \<and> armed_inv [] c \<and> served c"
  using assms
proof (induction rule: cluster_reach.induct)
  case reach_start
  show ?case
    by (simp add: queue_inv_def req_inv_def armed_inv_def served_def cluster_activate_def waiting_def answered_def)
next
  case (reach_step c ev E)
  then have q: "queue_inv config [] c" and r: "req_inv [] c" and "armed_inv [] c" "served c" by simp_all
  have "ct_jobs c (ct_next c) = None"
  proof (rule ccontr)
    assume "ct_jobs c (ct_next c) \<noteq> None"
    then obtain job where "ct_jobs c (ct_next c) = Some job" by blast
    with q have "ct_next c < ct_next c" unfolding queue_inv_def by blast
    then show False by simp
  qed
  with reach_step r show ?case
    using queue_step [OF q] armed_step served_step req_step by blast
qed

lemma answered_complete:
  assumes "ct_jobs c j = Some job"
  shows "set (owes job) \<subseteq> set (answered (complete E j out f c))"
  using assms by (simp add: complete_def case_prod_beta Let_def answered_finish_call)

text \<open>
  C12. The cluster client stays within its budget: in every reachable state at most the configured
  number of redemptions is on a connection and at most the configured number is queued, each live
  redemption is in exactly one of the two, one is queued only while every connection is in use, and
  a fenced client is never ready.
\<close>

theorem cluster_queue_bounds:
  assumes "cluster_reach X config c"
  shows "length (ct_active c) \<le> rc_connections config \<and> length (ct_pending c) \<le> rc_queue config \<and>
    distinct (ct_active c @ ct_pending c) \<and>
    (\<forall>j. j \<in> set (ct_active c) \<union> set (ct_pending c) \<longleftrightarrow> (\<exists>job. ct_jobs c j = Some job \<and> \<not> jb_health job)) \<and>
    (ct_pending c \<noteq> [] \<longrightarrow> length (ct_active c) = rc_connections config) \<and>
    (ct_fenced c \<longrightarrow> \<not> ct_ready c)"
proof -
  from reach_inv [OF assms] have q: "queue_inv config [] c" and s: "served c" by simp_all
  from q s have "ct_pending c \<noteq> [] \<longrightarrow> length (ct_active c) = rc_connections config"
    unfolding queue_inv_def served_def by (auto intro: order_antisym)
  with q show ?thesis unfolding queue_inv_def by blast
qed

text \<open>
  C13. Every request handed to the cluster client is answered exactly once. Along a run in which
  each request asks at most once, no request is answered twice and none is both waiting and
  answered; no event forgets a request, except that the abort of a request takes away that very
  request and no other; and a request that waits is held by a job whose deadline is armed, which
  when it fires answers the request.
\<close>

theorem cluster_answers_once:
  assumes "cluster_reach X config c" "fresh_event ev c" and c': "c' = cluster_step X E ev c"
  shows "distinct (answered c') \<and> waiting c' \<inter> set (answered c') = {} \<and>
    waiting c \<union> set (answered c) \<union> (case ev of Redeems req _ _ _ \<Rightarrow> {req} | _ \<Rightarrow> {})
      \<subseteq> waiting c' \<union> set (answered c') \<union> withdrawn ev c \<and>
    (\<forall>r\<in>waiting c'. \<exists>j job. ct_jobs c' j = Some job \<and> jb_request job = Some r \<and> jb_deadline job \<and>
       (\<forall>E'. r \<in> set (answered (timeout E' j c'))))"
proof -
  from reach_inv [OF assms(1)] have q: "queue_inv config [] c" and r: "req_inv [] c" by simp_all
  from reach_inv [OF reach_step [OF assms(1,2), of E]]
  have r': "req_inv [] c'" and a': "armed_inv [] c'" unfolding c' by simp_all
  have "ct_jobs c (ct_next c) \<noteq> Some job" for job using q unfolding queue_inv_def by (metis less_irrefl)
  then have slot: "ct_jobs c (ct_next c) = None" by (cases "ct_jobs c (ct_next c)") auto
  have grants: "\<forall>j job. ct_jobs c j = Some job \<longrightarrow> jb_request job \<noteq> None \<longrightarrow> jb_grant job \<noteq> None"
    using req_inv_grant [OF r] by blast
  have lost: "waiting c \<union> set (answered c) \<union> (case ev of Redeems req _ _ _ \<Rightarrow> {req} | _ \<Rightarrow> {})
      \<subseteq> waiting c' \<union> set (answered c') \<union> withdrawn ev c"
    using kept_step [OF grants slot refl, of ev X E] unfolding kept_inv_def c' by auto
  have "\<exists>j job. ct_jobs c' j = Some job \<and> jb_request job = Some q \<and> jb_deadline job \<and>
       (\<forall>E'. q \<in> set (answered (timeout E' j c')))" if "q \<in> waiting c'" for q
  proof -
    from that obtain j job where j: "ct_jobs c' j = Some job" "jb_request job = Some q" unfolding waiting_def by blast
    then have "jb_grant job \<noteq> None" using req_inv_grant [OF r'] by blast
    then have "q \<in> set (owes job)" using j(2) by (auto simp: owes_def)
    then have "q \<in> set (answered (timeout E' j c'))" for E'
      using answered_complete [OF j(1)] unfolding timeout_def by blast
    moreover have "jb_deadline job" using a' j(1) unfolding armed_inv_def by blast
    ultimately show ?thesis using j by blast
  qed
  moreover have "distinct (answered c')" "waiting c' \<inter> set (answered c') = {}"
    using r' unfolding req_inv_def by simp_all
  ultimately show ?thesis using lost by blast
qed

lemma accepted_on_reply:
  assumes q: "queue_inv config [] c"
    and "(r, Accepted, g) \<in> set (ct_finished (cluster_step X E ev c))" "(r, Accepted, g) \<notin> set (ct_finished c)"
  shows "\<exists>j rearm recvs job f. ev = Reads j rearm recvs \<and> ct_jobs c j = Some job \<and>
    jb_request job = Some r \<and> jb_grant job = Some g \<and>
    read_result recvs job = Some (Accepted, f) \<and> ce_done E j < jb_expires job"
proof -
  define S where "S = {(r, g). (r, Accepted, g) \<in> set (ct_finished c)} \<union>
    {(r, g). \<exists>j rearm recvs job f. ev = Reads j rearm recvs \<and> ct_jobs c j = Some job \<and>
      jb_request job = Some r \<and> jb_grant job = Some g \<and>
      read_result recvs job = Some (Accepted, f) \<and> ce_done E j < jb_expires job}"
  have health: "jb_request job = None" if "ct_jobs c j = Some job" "jb_health job" for j job
    using q that unfolding queue_inv_def by blast
  have start: "granted_inv S [] c" by (simp add: granted_inv_def S_def)
  have "granted_inv S [] (cluster_step X E ev c)"
  proof (rule granted.I_cluster_step)
    fix j rearm recvs job out f
    assume "ev = Reads j rearm recvs" "ct_jobs c j = Some job" "read_result recvs job = Some (out, f)"
    with health [of j job] show "may_grant S job (settle E j job out)"
      unfolding may_grant_def S_def by auto
  qed (use start in \<open>auto simp: granted_inv_def spawn_def update_job_def\<close>)
  with assms(2) have "(r, g) \<in> S" unfolding granted_inv_def by blast
  with assms(3) show ?thesis unfolding S_def by blast
qed

text \<open>
  C11. A grant is released only on an authoritative acceptance: when an event makes the client
  answer a request with \<open>Accepted\<close>, the event is a read on the connection of that request's own
  job, the server's reply to that job's transaction was the acceptance, and the token had not
  expired when the reply was handled. Timeouts, lost connections, malformed or oversized replies
  and every other event never accept.
\<close>

theorem cluster_accepts_only_on_reply:
  assumes "cluster_reach X config c"
    and "(r, Accepted, g) \<in> set (ct_finished (cluster_step X E ev c))" "(r, Accepted, g) \<notin> set (ct_finished c)"
  shows "\<exists>j rearm recvs job f. ev = Reads j rearm recvs \<and> ct_jobs c j = Some job \<and>
    jb_request job = Some r \<and> jb_grant job = Some g \<and>
    read_result recvs job = Some (Accepted, f) \<and> ce_done E j < jb_expires job"
  by (rule accepted_on_reply [OF conjunct1 [OF reach_inv [OF assms(1)]] assms(2,3)])

lemma read_loop_result:
  assumes "ct_jobs c j = Some job" "read_result recvs job = Some (out, f)"
  shows "\<exists>c' job'. read_loop E j rearm recvs job c = complete E j out f c' \<and> ct_jobs c' j = Some job' \<and> same_duties job job'"
  using assms
proof (induction E j rearm recvs job c rule: read_loop.induct)
  case (4 E j rearm bs rest job c)
  show ?case
  proof (cases "bs = [] \<or> length (jb_input job) + length bs > 1024")
    case True
    then show ?thesis using "4.prems" by auto
  next
    case False
    show ?thesis
    proof (cases "read_replies (job\<lparr>jb_input := jb_input job @ bs\<rparr>)")
      case (Inl job')
      have "ct_jobs (update_job j (\<lambda>_. job') c) j = Some job'" using "4.prems"(1) by (simp add: update_job_def)
      from "4.IH" [OF False Inl this] "4.prems"(2) False Inl same_duties_trans [OF heard_duties [OF Inl]]
      show ?thesis by (auto; blast)
    next
      case (Inr res)
      with "4.prems" False show ?thesis by auto
    qed
  qed
qed auto

lemma complete_fences: "ct_jobs c j = Some job \<Longrightarrow> ct_fenced (complete E j out True c)"
proof -
  assume job: "ct_jobs c j = Some job"
  let ?c = "snd (release E j job out True c)"
  have "fenced_inv [] ?c" by (simp add: fenced_inv_def release_def Let_def)
  then have "fenced_inv [] (if \<not> ct_pumping ?c then (pump E (?c\<lparr>ct_pumping := True\<rparr>))\<lparr>ct_pumping := False\<rparr> else ?c)"
    by (simp add: fence.flag fence.I_pump)
  then show "ct_fenced (complete E j out True c)"
    using job by (simp add: complete_def fenced_inv_def case_prod_beta Let_def split: if_splits)
qed

text \<open>
  C14. Losing the store is final: after the server has reported that the epoch is not the
  provisioned one, whatever happens next, the client has no issuer identity, so that no context
  can be formed with it, and it is not available for redemptions.
\<close>

theorem cluster_fence_is_final:
  assumes "ct_jobs c j = Some job" "read_result recvs job = Some (out, True)"
  shows "let c' = fold (\<lambda>(E, ev). cluster_step X E ev) evs (cluster_step X E (Reads j rearm recvs) c)
    in cluster_issuer c' = None \<and> \<not> available msec c'"
proof -
  from read_loop_result [OF assms] obtain c' job'
    where "read_loop E j rearm recvs job c = complete E j out True c'" "ct_jobs c' j = Some job'" by blast
  then have "fenced_inv [] (cluster_step X E (Reads j rearm recvs) c)"
    using assms(1) complete_fences by (simp add: read_event_def fenced_inv_def)
  then have "fenced_inv [] (fold (\<lambda>(E, ev). cluster_step X E ev) evs (cluster_step X E (Reads j rearm recvs) c))"
    by (induction evs rule: rev_induct) (auto intro: fence_step split: prod.splits)
  then show ?thesis by (simp add: fenced_inv_def cluster_issuer_def available_def Let_def)
qed

subsection \<open>A run\<close>

text \<open>The health check succeeds, a redemption is sent, and the server accepts it.\<close>

definition small_config :: cluster_config where
  "small_config =
     \<lparr>rc_address = SockV4 0x7F000001 6379, rc_namespace = ''n'', rc_epoch = replicate 64 (CHR ''0''),
      rc_issuer = replicate 32 7, rc_username = [], rc_password = [], rc_timeout = 500,
      rc_connections = 1, rc_queue = 1, rc_skew = 5\<rparr>"

definition calm :: cluster_env where
  "calm = \<lparr>ce_now = 100, ce_done = (\<lambda>_. 101), ce_msec = 1000, ce_cleanup = True, ce_connect = (\<lambda>_. (True, NGX_AGAIN))\<rparr>"

definition one_grant :: redeem_grant where
  "one_grant = \<lparr>rg_cookie = ''pow=x'', rg_redirect = None, rg_difficulty = 1, rg_kind = ''pow''\<rparr>"

definition accept_reply :: "recv list" where
  "accept_reply = [RecvBytes (as_bytes '':1'' @ CRLF)]"

lemma accept_reply_read: "read_reply [58, 49, 13, 10] = Inr (Some (Integer 1, 4))"
proof -
  have "parse_i64 ''1'' = Some 1"
    by (simp add: parse_i64_def parse_unsigned_def digit_val_def)
  moreover have "from_utf8 [49] = Some ''1''"
    by code_simp
  ultimately show ?thesis
    by (simp add: read_reply_def CRLF_def starts_with_def as_bytes_def)
qed

lemma accept_result: "jb_input job = [] \<Longrightarrow> \<not> jb_auth job \<Longrightarrow> read_result accept_reply job = Some (Accepted, False)"
  by (simp add: accept_reply_def as_bytes_def CRLF_def read_replies.simps accept_reply_read reply_outcome_def)

definition run1 :: cluster where
  "run1 = cluster_step sample calm (Polls False) (cluster_activate small_config)"

definition run2 :: cluster where
  "run2 = cluster_step sample calm (Reads 0 True accept_reply) run1"

definition run3 :: "string \<Rightarrow> redeem_grant \<Rightarrow> cluster" where
  "run3 t g = cluster_step sample calm (Redeems 7 t 160 g) run2"

lemma run1_eq:
  "run1 = (cluster_activate small_config)\<lparr>ct_next := 1, ct_health_busy := True,
     ct_jobs := (\<lambda>_. None)(0 \<mapsto>
       \<lparr>jb_address = peer_address (rc_address small_config), jb_output = job_output sample small_config [] 0 True 100, jb_sent = 0, jb_input = [], jb_auth = False,
        jb_deadline = True, jb_connected = True, jb_request = None, jb_cleanup = False, jb_grant = None,
        jb_expires = 0, jb_health = True\<rparr>)\<rparr>"
  by (simp add: run1_def poll_def make_job_def cluster_activate_def connect_def connect_with_def update_job_def
      calm_def small_config_def)

lemma run2_eq: "run2 = (cluster_activate small_config)\<lparr>ct_next := 1, ct_ready := True, ct_last_ok := 1000\<rparr>"
  by (simp add: run2_def read_event_def run1_eq accept_reply_def as_bytes_def CRLF_def read_replies.simps
      accept_reply_read reply_outcome_def complete_def release_def finish_call_def pump.simps
      cluster_activate_def calm_def fun_upd_idem_iff small_config_def)

lemma run3_eq:
  "run3 t g = run2\<lparr>ct_next := 2, ct_active := [1],
     ct_jobs := (\<lambda>_. None)(1 \<mapsto>
       \<lparr>jb_address = peer_address (rc_address small_config), jb_output = job_output sample small_config t 160 False 100, jb_sent = 0, jb_input = [], jb_auth = False,
        jb_deadline = True, jb_connected = True, jb_request = Some 7, jb_cleanup = True, jb_grant = Some g,
        jb_expires = 160, jb_health = False\<rparr>)\<rparr>"
  by (simp add: run3_def run2_eq cluster_redeem_def available_def make_job_def connect_def connect_with_def
      update_job_def calm_def small_config_def cluster_activate_def)

lemma run_reach: "cluster_reach sample small_config run2" "cluster_reach sample small_config (run3 t g)"
proof -
  have r1: "cluster_reach sample small_config run1"
    unfolding run1_def by (rule reach_step [OF reach_start]) simp
  show r2: "cluster_reach sample small_config run2" unfolding run2_def by (rule reach_step [OF r1]) simp
  show "cluster_reach sample small_config (run3 t g)"
    unfolding run3_def by (rule reach_step [OF r2]) (simp add: run2_eq cluster_activate_def waiting_def answered_def)
qed

lemma run_accepts:
  "(7, Accepted, g) \<in> set (ct_finished (cluster_step sample calm (Reads 1 True accept_reply) (run3 t g)))"
  "(7, Accepted, g) \<notin> set (ct_finished (run3 t g))"
  by (simp_all add: read_event_def run3_eq run2_eq accept_reply_def as_bytes_def CRLF_def read_replies.simps
      accept_reply_read reply_outcome_def complete_def release_def finish_call_def pump.simps
      cluster_activate_def calm_def)

theorem cluster_queue_bounds_witness:
  "cluster_reach sample small_config (run3 ''t'' one_grant) \<and> length (ct_active (run3 ''t'' one_grant)) \<le> 1 \<and> ct_active (run3 ''t'' one_grant) = [1]"
  using cluster_queue_bounds [OF run_reach(2)] run_reach(2) by (simp add: small_config_def run3_eq)

theorem cluster_answers_once_witness:
  "waiting (run3 ''t'' one_grant) = {7} \<and> 7 \<in> set (answered (timeout calm 1 (run3 ''t'' one_grant)))"
proof -
  have fresh: "fresh_event (Redeems 7 ''t'' 160 one_grant) run2"
    by (simp add: run2_eq cluster_activate_def waiting_def answered_def)
  have w: "waiting (run3 ''t'' one_grant) = {7}" by (simp add: run3_eq waiting_def)
  from cluster_answers_once [OF run_reach(1) fresh run3_def] w
  obtain j job where "ct_jobs (run3 ''t'' one_grant) j = Some job" "7 \<in> set (answered (timeout calm j (run3 ''t'' one_grant)))" by auto
  moreover from this have "j = 1" by (simp add: run3_eq split: if_splits)
  ultimately show ?thesis using w by simp
qed

theorem cluster_accepts_only_on_reply_witness:
  "(7, Accepted, one_grant) \<in> set (ct_finished (cluster_step sample calm (Reads 1 True accept_reply) (run3 ''t'' one_grant))) \<and>
   (\<exists>j rearm recvs job f. Reads 1 True accept_reply = Reads j rearm recvs \<and> ct_jobs (run3 ''t'' one_grant) j = Some job \<and>
      jb_request job = Some 7 \<and> read_result recvs job = Some (Accepted, f))"
proof -
  note run = run_accepts [where t = "''t''" and g = one_grant]
  from run(1) cluster_accepts_only_on_reply [OF run_reach(2) run] show ?thesis by blast
qed

lemma fence_reply_read: "read_reply [58, 45, 50, 13, 10] = Inr (Some (Integer (- 2), 5))"
proof -
  have "parse_i64 ''-2'' = Some (- 2)"
    by (simp add: parse_i64_def digit_val_def in_i64_def i64_min_def i64_max_def)
  moreover have "from_utf8 [45, 50] = Some ''-2''"
    by code_simp
  ultimately show ?thesis
    by (simp add: read_reply_def CRLF_def starts_with_def as_bytes_def)
qed

theorem cluster_fence_is_final_witness:
  "cluster_issuer (cluster_step sample calm (Reads 1 True [RecvBytes [58, 45, 50, 13, 10]]) (run3 ''t'' one_grant)) = None"
proof -
  obtain job where job: "ct_jobs (run3 ''t'' one_grant) 1 = Some job" "jb_input job = []" "\<not> jb_auth job" by (simp add: run3_eq)
  then have "read_result [RecvBytes [58, 45, 50, 13, 10]] job = Some (Full, True)"
    by (simp add: read_replies.simps fence_reply_read reply_outcome_def)
  from cluster_fence_is_final [OF job(1) this, of sample "[]" calm True 0] show ?thesis by (simp add: Let_def)
qed

end
