(* ===== verification/Ranges.thy ===== *)
theory Ranges
  imports Ip Wire Sample "HOL-Library.Product_Lexorder"
begin

text \<open>
  \<open>pow-gate-core/src/ranges.rs\<close>: sorted interval lists per address family, filled from CIDR texts
  and crawler feeds and searched by bisection, and the label-wise comparison of host names.
  \<open>slice::partition_point\<close> is read by its documentation: on a slice partitioned by the predicate,
  the length of the first part; the invariant \<open>wf_ranges\<close> provides the partition.
\<close>

subsection \<open>Interval lists\<close>

type_synonym 'a ranges = "('a \<times> 'a) list"

definition partition_point :: "('b \<Rightarrow> bool) \<Rightarrow> 'b list \<Rightarrow> nat" where
  "partition_point P xs = length (takeWhile P xs)"

definition contains_interval :: "'a::linorder ranges \<Rightarrow> 'a \<Rightarrow> bool" where
  "contains_interval ranges address =
     (let i = partition_point (\<lambda>(start, _). start \<le> address) ranges
      in i \<noteq> 0 \<and> address \<le> snd (ranges ! (i - 1)))"

definition insert_interval :: "'a::linorder ranges \<Rightarrow> 'a \<times> 'a \<Rightarrow> 'a ranges" where
  "insert_interval ranges interval =
     (let begn = partition_point (\<lambda>(_, end). end < fst interval) ranges;
          ende = partition_point (\<lambda>(start, _). start \<le> snd interval) ranges;
          interval' = (if begn < ende
                       then (min (fst interval) (fst (ranges ! begn)),
                             max (snd interval) (snd (ranges ! (ende - 1))))
                       else interval)
      in take begn ranges @ [interval'] @ drop ende ranges)"

text \<open>The loop of \<open>normalize\<close> rewrites the sorted vector in place: \<open>used\<close> entries at its front are
  final.\<close>

fun normalize_loop :: "nat \<Rightarrow> nat \<Rightarrow> nat \<Rightarrow> 'a::linorder ranges \<Rightarrow> 'a ranges \<times> nat" where
  "normalize_loop 0 i used ranges = (ranges, used)"
| "normalize_loop (Suc n) i used ranges =
     (if used \<noteq> 0 \<and> fst (ranges ! i) \<le> snd (ranges ! (used - 1))
      then normalize_loop n (i + 1) used
             (ranges[used - 1 := (fst (ranges ! (used - 1)),
                                  max (snd (ranges ! (used - 1))) (snd (ranges ! i)))])
      else normalize_loop n (i + 1) (used + 1) (ranges[used := ranges ! i]))"

definition normalize :: "'a::linorder ranges \<Rightarrow> 'a ranges" where
  "normalize ranges =
     (let ranges = sort ranges; (ranges, used) = normalize_loop (length ranges) 0 0 ranges
      in take used ranges)"

subsection \<open>Address sets\<close>

record ip_range_set =
  rs_v4 :: "u32 ranges"
  rs_v6 :: "u128 ranges"
  rs_prefixes :: usize

definition range_set_new :: ip_range_set where
  "range_set_new = \<lparr>rs_v4 = [], rs_v6 = [], rs_prefixes = 0\<rparr>"

text \<open>The address text and prefix of a CIDR, \<open>None\<close> when the prefix is not a number.\<close>

definition cidr_parts :: "string \<Rightarrow> (string \<times> nat option) option" where
  "cidr_parts cidr =
     (case split_once (CHR ''/'') cidr of
        Some (i, p) \<Rightarrow>
          (case parse_u32 (trim p) of Some bits \<Rightarrow> Some (trim i, Some bits) | None \<Rightarrow> None)
      | None \<Rightarrow> Some (trim cidr, None))"

definition push_cidr :: "string \<Rightarrow> ip_range_set \<Rightarrow> bool \<times> ip_range_set" where
  "push_cidr cidr s =
     (case cidr_parts cidr of
        None \<Rightarrow> (False, s)
      | Some (ip_str, prefix) \<Rightarrow>
          (case parse_ip ip_str of
             Some (V4 a) \<Rightarrow>
               (let bits = (case prefix of Some b \<Rightarrow> b | None \<Rightarrow> 32) in
                if bits > 32 then (False, s)
                else
                  let msk = (if bits = 0 then 0 else push_bit (32 - bits) (-1 :: u32))
                  in (True, s\<lparr>rs_v4 := rs_v4 s @ [(a AND msk, a OR NOT msk)],
                              rs_prefixes := rs_prefixes s + 1\<rparr>))
           | Some (V6 a) \<Rightarrow>
               (let bits = (case prefix of Some b \<Rightarrow> b | None \<Rightarrow> 128) in
                if bits > 128 then (False, s)
                else
                  let msk = (if bits = 0 then 0 else push_bit (128 - bits) (-1 :: u128))
                  in (True, s\<lparr>rs_v6 := rs_v6 s @ [(a AND msk, a OR NOT msk)],
                              rs_prefixes := rs_prefixes s + 1\<rparr>))
           | None \<Rightarrow> (False, s)))"

definition add_cidr :: "string \<Rightarrow> ip_range_set \<Rightarrow> bool \<times> ip_range_set" where
  "add_cidr cidr s =
     (let v4_len = length (rs_v4 s) in
      case push_cidr cidr s of
        (False, s) \<Rightarrow> (False, s)
      | (True, s) \<Rightarrow>
          (True,
           if length (rs_v4 s) \<noteq> v4_len
           then s\<lparr>rs_v4 := insert_interval (butlast (rs_v4 s)) (last (rs_v4 s))\<rparr>
           else s\<lparr>rs_v6 := insert_interval (butlast (rs_v6 s)) (last (rs_v6 s))\<rparr>))"

definition set_contains :: "ip_range_set \<Rightarrow> ip_addr \<Rightarrow> bool" where
  "set_contains s ip =
     (case ip of V4 x \<Rightarrow> contains_interval (rs_v4 s) x | V6 x \<Rightarrow> contains_interval (rs_v6 s) x)"

definition set_is_empty :: "ip_range_set \<Rightarrow> bool" where
  "set_is_empty s \<longleftrightarrow> rs_prefixes s = 0"

subsection \<open>Feeds\<close>

text \<open>The loop over the parsed prefixes: \<open>None\<close> is the early return of 0.\<close>

definition feed_one :: "string option \<Rightarrow> usize \<times> ip_range_set \<Rightarrow> (usize \<times> ip_range_set) option" where
  "feed_one c st =
     (case c of
        None \<Rightarrow> Some st
      | Some c \<Rightarrow> (case push_cidr c (snd st) of
                     (True, s) \<Rightarrow> Some (fst st + 1, s)
                   | (False, _) \<Rightarrow> None))"

fun feed_loop ::
  "(string option \<times> string option) list \<Rightarrow> usize \<times> ip_range_set \<Rightarrow> (usize \<times> ip_range_set) option" where
  "feed_loop [] st = Some st"
| "feed_loop ((v4, v6) # ps) st =
     (if v4 = None \<and> v6 = None then None
      else case feed_one v4 st of
          None \<Rightarrow> None
        | Some st \<Rightarrow> (case feed_one v6 st of None \<Rightarrow> None | Some st \<Rightarrow> feed_loop ps st))"

definition add_feed_json :: "externals \<Rightarrow> bytes \<Rightarrow> ip_range_set \<Rightarrow> usize \<times> ip_range_set" where
  "add_feed_json X bs s =
     (case (case de_feed X bs of
              None \<Rightarrow> Some (0, range_set_new)
            | Some prefixes \<Rightarrow>
                if length prefixes > 100000 then None else feed_loop prefixes (0, range_set_new)) of
        None \<Rightarrow> (0, s)
      | Some (n, parsed) \<Rightarrow>
          (n, \<lparr>rs_v4 = normalize (rs_v4 s @ rs_v4 parsed), rs_v6 = normalize (rs_v6 s @ rs_v6 parsed),
               rs_prefixes = rs_prefixes s + rs_prefixes parsed\<rparr>))"

subsection \<open>Host names\<close>

definition host_matches_suffix :: "string \<Rightarrow> string \<Rightarrow> bool" where
  "host_matches_suffix host suffix =
     (let host = to_ascii_lowercase (trim_end_matches (CHR ''.'') (trim host));
          suffix = to_ascii_lowercase (trim_matches (CHR ''.'') (trim suffix))
      in if host = [] \<or> suffix = [] then False
         else host = suffix \<or> ends_with host (CHR ''.'' # suffix))"

definition fcrdns_confirms ::
  "string \<Rightarrow> string list \<Rightarrow> ip_addr \<Rightarrow> (string \<Rightarrow> ip_addr list) \<Rightarrow> bool" where
  "fcrdns_confirms host suffixes ip forward \<longleftrightarrow>
     list_ex (\<lambda>s. host_matches_suffix host s) suffixes \<and> ip \<in> set (forward host)"

subsection \<open>The interface of an interval set\<close>

definition wf_ranges :: "'a::linorder ranges \<Rightarrow> bool" where
  "wf_ranges rs \<longleftrightarrow> (\<forall>(l, h)\<in>set rs. l \<le> h) \<and> sorted_wrt (\<lambda>(l, h) (l', h'). h < l') rs"

definition covered :: "'a::linorder ranges \<Rightarrow> 'a \<Rightarrow> bool" where
  "covered rs x \<longleftrightarrow> (\<exists>(l, h)\<in>set rs. l \<le> x \<and> x \<le> h)"

text \<open>What the address sets rely on: searching decides membership, inserting and rebuilding keep
  the representation invariant and add exactly the given intervals.\<close>

locale interval_set =
  fixes find :: "'a::linorder ranges \<Rightarrow> 'a \<Rightarrow> bool"
    and ins :: "'a ranges \<Rightarrow> 'a \<times> 'a \<Rightarrow> 'a ranges"
    and rebuild :: "'a ranges \<Rightarrow> 'a ranges"
    and inv :: "'a ranges \<Rightarrow> bool"
  assumes inv_Nil: "inv []"
    and find_iff: "inv rs \<Longrightarrow> find rs x \<longleftrightarrow> covered rs x"
    and ins_inv: "inv rs \<Longrightarrow> l \<le> h \<Longrightarrow> inv (ins rs (l, h))"
    and ins_covered: "inv rs \<Longrightarrow> l \<le> h \<Longrightarrow> covered (ins rs (l, h)) x \<longleftrightarrow> covered rs x \<or> l \<le> x \<and> x \<le> h"
    and rebuild_inv: "\<forall>(l, h)\<in>set rs. l \<le> h \<Longrightarrow> inv (rebuild rs)"
    and rebuild_covered: "\<forall>(l, h)\<in>set rs. l \<le> h \<Longrightarrow> covered (rebuild rs) x \<longleftrightarrow> covered rs x"
begin

lemma find_ins: "inv rs \<Longrightarrow> l \<le> h \<Longrightarrow> find (ins rs (l, h)) x \<longleftrightarrow> find rs x \<or> l \<le> x \<and> x \<le> h"
  by (simp add: find_iff ins_inv ins_covered)

lemma find_rebuild: "\<forall>(l, h)\<in>set rs. l \<le> h \<Longrightarrow> find (rebuild rs) x \<longleftrightarrow> covered rs x"
  by (simp add: find_iff rebuild_inv rebuild_covered)

end

lemma covered_Nil [simp]: "\<not> covered [] x"
  by (simp add: covered_def)

lemma covered_append [simp]: "covered (a @ b) x \<longleftrightarrow> covered a x \<or> covered b x"
  by (auto simp: covered_def)

lemma covered_Cons [simp]: "covered ((l, h) # r) x \<longleftrightarrow> l \<le> x \<and> x \<le> h \<or> covered r x"
  by (auto simp: covered_def)

subsection \<open>Searching\<close>

lemma wf_ranges_append:
  "wf_ranges (a @ b) \<longleftrightarrow> wf_ranges a \<and> wf_ranges b \<and> (\<forall>(l, h)\<in>set a. \<forall>(l', h')\<in>set b. h < l')"
  by (auto simp: wf_ranges_def sorted_wrt_append)

lemma wf_ranges_Cons:
  "wf_ranges ((l, h) # rs) \<longleftrightarrow> l \<le> h \<and> wf_ranges rs \<and> (\<forall>(l', h')\<in>set rs. h < l')"
  by (auto simp: wf_ranges_def)

lemma wf_ranges_Nil [simp]: "wf_ranges []"
  by (simp add: wf_ranges_def)

lemma after_start_point:
  assumes "wf_ranges rs" "(l, h) \<in> set (drop (partition_point (\<lambda>(s, _). s \<le> x) rs) rs)"
  shows "x < l"
  using assms
proof (induction rs)
  case (Cons r rs)
  obtain a b where r: "r = (a, b)" by fastforce
  show ?case
  proof (cases "a \<le> x")
    case True
    with Cons r show ?thesis by (simp add: partition_point_def wf_ranges_Cons)
  next
    case False
    with Cons.prems r have "(l, h) = (a, b) \<or> (l, h) \<in> set rs \<and> b < l" "a \<le> b"
      by (auto simp: partition_point_def wf_ranges_Cons)
    with False show ?thesis by auto
  qed
qed simp

lemma before_start_point:
  "(l, h) \<in> set (take (partition_point (\<lambda>(s, _). s \<le> x) rs) (rs :: 'a::linorder ranges)) \<Longrightarrow> l \<le> x"
  by (auto simp: partition_point_def takeWhile_eq_take [symmetric] dest: set_takeWhileD)

lemma before_end_point:
  "(l, h) \<in> set (take (partition_point (\<lambda>(_, e). e < x) rs) (rs :: 'a::linorder ranges)) \<Longrightarrow> h < x"
  by (auto simp: partition_point_def takeWhile_eq_take [symmetric] dest: set_takeWhileD)

lemma after_end_point:
  assumes "wf_ranges rs" "(l, h) \<in> set (drop (partition_point (\<lambda>(_, e). e < x) rs) rs)"
  shows "x \<le> h"
  using assms
proof (induction rs)
  case (Cons r rs)
  obtain a b where r: "r = (a, b)" by fastforce
  show ?case
  proof (cases "b < x")
    case True
    with Cons r show ?thesis by (simp add: partition_point_def wf_ranges_Cons)
  next
    case False
    with Cons.prems r have "(l, h) = (a, b) \<or> (l, h) \<in> set rs \<and> b < l \<and> l \<le> h"
      by (auto simp: partition_point_def wf_ranges_Cons wf_ranges_def)
    with False show ?thesis by auto
  qed
qed simp

lemma partition_point_le [simp]: "partition_point P xs \<le> length xs"
  by (simp add: partition_point_def length_takeWhile_le)

lemma contains_interval_iff:
  assumes wf: "wf_ranges rs"
  shows "contains_interval rs x \<longleftrightarrow> covered rs x"
proof -
  define i where "i = partition_point (\<lambda>(s, _). s \<le> x) rs"
  have split: "covered rs x \<longleftrightarrow> covered (take i rs) x \<or> covered (drop i rs) x"
    by (metis append_take_drop_id covered_append)
  have right: "\<not> covered (drop i rs) x"
    using after_start_point [OF wf] unfolding i_def covered_def by fastforce
  show ?thesis
  proof (cases i)
    case 0
    then show ?thesis using split right by (simp add: contains_interval_def i_def [symmetric])
  next
    case (Suc j)
    then have j: "j < length rs" using partition_point_le [of _ rs] unfolding i_def by (metis Suc_le_eq)
    obtain l h where r: "rs ! j = (l, h)" by fastforce
    have take: "take i rs = take j rs @ [(l, h)]" using Suc j r by (simp add: take_Suc_conv_app_nth)
    then have "(l, h) \<in> set (take i rs)" by simp
    then have "l \<le> x" using before_start_point unfolding i_def by blast
    have "wf_ranges (take i rs)" using wf by (metis append_take_drop_id wf_ranges_append)
    then have "\<forall>(l', h')\<in>set (take j rs). h' < l" unfolding take wf_ranges_append by auto
    with \<open>l \<le> x\<close> have "\<not> covered (take j rs) x" by (fastforce simp: covered_def)
    with take \<open>l \<le> x\<close> split right have "covered rs x \<longleftrightarrow> x \<le> h" by simp
    then show ?thesis using Suc r by (simp add: contains_interval_def i_def [symmetric])
  qed
qed

subsection \<open>Inserting\<close>

lemma takeWhile_length_mono:
  "\<forall>y\<in>set xs. P y \<longrightarrow> Q y \<Longrightarrow> length (takeWhile P xs) \<le> length (takeWhile Q xs)"
  by (induction xs) auto

text \<open>The vector falls into the intervals left of the new one, those that meet it and those right
  of it.\<close>

lemma insert_interval_parts:
  assumes wf: "wf_ranges rs" and lh: "l \<le> h"
  obtains A B C where "rs = A @ B @ C"
    "length A = partition_point (\<lambda>(_, e). e < l) rs" "length (A @ B) = partition_point (\<lambda>(s, _). s \<le> h) rs"
    "\<forall>(a, b)\<in>set A. b < l" "\<forall>(a, b)\<in>set B. l \<le> b \<and> a \<le> h" "\<forall>(a, b)\<in>set C. h < a"
proof -
  define n where "n = partition_point (\<lambda>(_, e). e < l) rs"
  define m where "m = partition_point (\<lambda>(s, _). s \<le> h) rs"
  have le: "n \<le> m"
    unfolding n_def m_def partition_point_def
    by (rule takeWhile_length_mono) (use wf lh in \<open>auto simp: wf_ranges_def\<close>)
  have m: "m \<le> length rs" unfolding m_def by simp
  have rs: "rs = take n rs @ drop n (take m rs) @ drop m rs"
    using le by (metis append_assoc append_take_drop_id min.absorb1 take_take)
  show thesis
  proof (rule that [OF rs])
    show "\<forall>(a, b)\<in>set (take n rs). b < l" using before_end_point unfolding n_def by blast
    show "\<forall>(a, b)\<in>set (drop m rs). h < a" using after_start_point [OF wf] unfolding m_def by blast
    have "set (drop n (take m rs)) \<subseteq> set (drop n rs) \<inter> set (take m rs)"
      by (auto dest: in_set_dropD) (metis append_take_drop_id drop_append in_set_conv_decomp in_set_dropD in_set_takeD take_drop drop_take)
    then show "\<forall>(a, b)\<in>set (drop n (take m rs)). l \<le> b \<and> a \<le> h"
      using after_end_point [OF wf] before_start_point unfolding n_def m_def by blast
  qed (use le m n_def m_def in auto)
qed

lemma insert_interval_eq:
  assumes "rs = A @ B @ C" "length A = partition_point (\<lambda>(_, e). e < l) rs"
    "length (A @ B) = partition_point (\<lambda>(s, _). s \<le> h) rs"
  shows "insert_interval rs (l, h) =
    A @ (if B = [] then (l, h) else (min l (fst (hd B)), max h (snd (last B)))) # C"
proof -
  have "rs ! length A = hd B" "rs ! (length (A @ B) - 1) = last B" if "B \<noteq> []"
    using that by (cases B; simp add: assms(1) nth_append last_conv_nth)+
  then show ?thesis
    unfolding insert_interval_def Let_def fst_conv snd_conv assms(2,3) [symmetric]
    by (cases "B = []") (simp_all add: assms(1))
qed

text \<open>Every interval of a well-formed list lies between its first start and its last end.\<close>

lemma interval_hull:
  "wf_ranges B \<Longrightarrow> (a, b) \<in> set B \<Longrightarrow> hd B = (f, g) \<Longrightarrow> last B = (f', g') \<Longrightarrow> B \<noteq> [] \<Longrightarrow> f \<le> a \<and> b \<le> g'"
proof (induction B arbitrary: a b f g)
  case (Cons r B)
  from Cons.prems have r: "r = (f, g)" by simp
  show ?case
  proof (cases "B = []")
    case True
    with Cons.prems r show ?thesis by (auto simp: wf_ranges_Cons)
  next
    case False
    obtain f2 g2 where h2: "hd B = (f2, g2)" by fastforce
    have wf: "wf_ranges B" "f \<le> g" "g < f2"
      using Cons.prems(1) r h2 False hd_in_set [OF False] by (auto simp: wf_ranges_Cons)
    have lst: "last B = (f', g')" using Cons.prems(4) False by simp
    have mem: "(f2, g2) \<in> set B" using h2 False hd_in_set by metis
    then have "f2 \<le> g2" "g2 \<le> g'"
      using wf(1) Cons.IH [OF wf(1) mem h2 lst False] by (auto simp: wf_ranges_def)
    moreover have "f2 \<le> a \<and> b \<le> g'" if "(a, b) \<in> set B"
      using Cons.IH [OF wf(1) that h2 lst False] .
    ultimately show ?thesis using Cons.prems(2) r wf by auto
  qed
qed simp

text \<open>The hull of intervals that all touch a new one covers what they and the new one cover.\<close>

lemma hull_covered:
  fixes x :: "'a::linorder"
  assumes mem: "(f, g) \<in> set B" "(f', g') \<in> set B" and touch: "l \<le> g" "f' \<le> h"
    and out: "\<And>a b. (a, b) \<in> set B \<Longrightarrow> f \<le> a \<and> b \<le> g'"
  shows "min l f \<le> x \<and> x \<le> max h g' \<longleftrightarrow> covered B x \<or> l \<le> x \<and> x \<le> h"
proof
  assume "min l f \<le> x \<and> x \<le> max h g'"
  with touch have "f \<le> x \<and> x \<le> g \<or> f' \<le> x \<and> x \<le> g' \<or> l \<le> x \<and> x \<le> h"
    by (auto simp: min_le_iff_disj le_max_iff_disj)
  then show "covered B x \<or> l \<le> x \<and> x \<le> h" using mem by (auto simp: covered_def)
next
  assume "covered B x \<or> l \<le> x \<and> x \<le> h"
  then show "min l f \<le> x \<and> x \<le> max h g'"
  proof
    assume "covered B x"
    then obtain a b where "(a, b) \<in> set B" "a \<le> x" "x \<le> b" by (auto simp: covered_def)
    with out [of a b] show ?thesis by (meson le_max_iff_disj min_le_iff_disj order_trans)
  qed (auto simp: min_le_iff_disj le_max_iff_disj)
qed

lemma insert_interval_correct:
  assumes wf: "wf_ranges rs" and lh: "l \<le> h"
  shows "wf_ranges (insert_interval rs (l, h))"
    and "covered (insert_interval rs (l, h)) x \<longleftrightarrow> covered rs x \<or> l \<le> x \<and> x \<le> h"
proof -
  obtain A B C where parts: "rs = A @ B @ C"
    "length A = partition_point (\<lambda>(_, e). e < l) rs" "length (A @ B) = partition_point (\<lambda>(s, _). s \<le> h) rs"
    and A: "\<forall>(a, b)\<in>set A. b < l" and B: "\<forall>(a, b)\<in>set B. l \<le> b \<and> a \<le> h" and C: "\<forall>(a, b)\<in>set C. h < a"
    by (rule insert_interval_parts [OF wf lh])
  note eq = insert_interval_eq [OF parts]
  have wfs: "wf_ranges A" "wf_ranges B" "wf_ranges C"
    and A_left: "\<forall>(a, b)\<in>set A. \<forall>(a', b')\<in>set (B @ C). b < a'"
    and BC: "\<forall>(a, b)\<in>set B. \<forall>(a', b')\<in>set C. b < a'"
    using wf unfolding parts(1) wf_ranges_append by blast+
  then have AB: "\<forall>(a, b)\<in>set A. \<forall>(a', b')\<in>set B. b < a'" and AC: "\<forall>(a, b)\<in>set A. \<forall>(a', b')\<in>set C. b < a'"
    by fastforce+
  show "wf_ranges (insert_interval rs (l, h))"
  proof (cases "B = []")
    case True
    then show ?thesis using eq wfs A C AC lh by (auto simp: wf_ranges_append wf_ranges_Cons)
  next
    case False
    obtain f g f' g' where hd: "hd B = (f, g)" and last: "last B = (f', g')" by fastforce
    have "(f, g) \<in> set B" "(f', g') \<in> set B" using False hd last hd_in_set last_in_set by metis+
    note mem = this
    have "b < min l f" if "(a, b) \<in> set A" for a b
      using bspec [OF A that] bspec [OF bspec [OF AB that, simplified] mem(1)] by simp
    moreover have "max h g' < a" if "(a, b) \<in> set C" for a b
      using bspec [OF C that] bspec [OF bspec [OF BC mem(2), simplified] that] by simp
    ultimately have "\<forall>(a, b)\<in>set A. b < min l f" "\<forall>(a, b)\<in>set C. max h g' < a" by blast+
    moreover have "min l f \<le> max h g'" using lh by (simp add: min_le_iff_disj le_max_iff_disj)
    ultimately show ?thesis
      using eq False hd last wfs AC by (auto simp: wf_ranges_append wf_ranges_Cons)
  qed
  show "covered (insert_interval rs (l, h)) x \<longleftrightarrow> covered rs x \<or> l \<le> x \<and> x \<le> h"
  proof (cases "B = []")
    case True
    then show ?thesis using eq parts(1) by auto
  next
    case False
    obtain f g f' g' where hd: "hd B = (f, g)" and last: "last B = (f', g')" by fastforce
    have mem: "(f, g) \<in> set B" "(f', g') \<in> set B" using False hd last hd_in_set last_in_set by metis+
    have out: "f \<le> a \<and> b \<le> g'" if "(a, b) \<in> set B" for a b
      using wfs(2) that hd last False by (intro interval_hull) 
    have "min l f \<le> x \<and> x \<le> max h g' \<longleftrightarrow> covered B x \<or> l \<le> x \<and> x \<le> h"
      by (rule hull_covered [OF mem _ _ out]) (use B mem in auto)
    then show ?thesis using eq False hd last parts(1) by auto
  qed
qed

subsection \<open>Rebuilding\<close>

text \<open>The in-place loop as a fold over the remaining intervals.\<close>

fun merge_into :: "'a::linorder ranges \<Rightarrow> 'a ranges \<Rightarrow> 'a ranges" where
  "merge_into front [] = front"
| "merge_into front (r # rest) =
     (if front \<noteq> [] \<and> fst r \<le> snd (last front)
      then merge_into (butlast front @ [(fst (last front), max (snd (last front)) (snd r))]) rest
      else merge_into (front @ [r]) rest)"

lemma last_take: "0 < u \<Longrightarrow> u \<le> length xs \<Longrightarrow> last (take u xs) = xs ! (u - 1)"
  by (subst last_conv_nth) (auto simp: min.absorb2)

lemma normalize_loop_merge:
  assumes "i + n = length ranges" "used \<le> i"
  shows "(case normalize_loop n i used ranges of (rs, u) \<Rightarrow> take u rs)
    = merge_into (take used ranges) (drop i ranges)"
  using assms
proof (induction n i used ranges rule: normalize_loop.induct)
  case (2 n i used ranges)
  have i: "i < length ranges" using "2.prems" by simp
  then have drop: "drop i ranges = ranges ! i # drop (i + 1) ranges" by (simp add: Cons_nth_drop_Suc)
  show ?case
  proof (cases "used \<noteq> 0 \<and> fst (ranges ! i) \<le> snd (ranges ! (used - 1))")
    case True
    define v where "v = (fst (ranges ! (used - 1)), max (snd (ranges ! (used - 1))) (snd (ranges ! i)))"
    have u: "used - 1 < length ranges" "used - 1 < i" using True "2.prems" i by auto
    have last: "last (take used ranges) = ranges ! (used - 1)" "take used ranges \<noteq> []"
      using True "2.prems" i last_take [of used ranges] by auto
    have front: "take used (ranges[used - 1 := v]) = butlast (take used ranges) @ [v]"
      using True u by (cases used) (auto simp: take_Suc_conv_app_nth butlast_take take_update_cancel)
    have rest: "drop (i + 1) (ranges[used - 1 := v]) = drop (i + 1) ranges"
      using u by (simp add: drop_update_cancel)
    from "2.IH"(1) [OF True] "2.prems" True
    have "(case normalize_loop n (i + 1) used (ranges[used - 1 := v]) of (rs, u) \<Rightarrow> take u rs)
        = merge_into (take used (ranges[used - 1 := v])) (drop (i + 1) (ranges[used - 1 := v]))"
      by (simp add: v_def)
    then show ?thesis using True last unfolding front rest drop by (simp add: v_def)
  next
    case False
    have front: "take (used + 1) (ranges[used := ranges ! i]) = take used ranges @ [ranges ! i]"
      using "2.prems" i by (simp add: take_Suc_conv_app_nth take_update_cancel)
    have rest: "drop (i + 1) (ranges[used := ranges ! i]) = drop (i + 1) ranges"
      using "2.prems" by (simp add: drop_update_cancel)
    have cond: "\<not> (take used ranges \<noteq> [] \<and> fst (ranges ! i) \<le> snd (last (take used ranges)))"
      using False "2.prems" i last_take [of used ranges] by auto
    from "2.IH"(2) [OF False] "2.prems"
    have "(case normalize_loop n (i + 1) (used + 1) (ranges[used := ranges ! i]) of (rs, u) \<Rightarrow> take u rs)
        = merge_into (take (used + 1) (ranges[used := ranges ! i])) (drop (i + 1) (ranges[used := ranges ! i]))"
      by simp
    then show ?thesis
      unfolding drop normalize_loop.simps merge_into.simps if_not_P [OF False] if_not_P [OF cond] front rest .
  qed
qed simp

lemma merge_into_correct:
  assumes "wf_ranges front" "\<forall>(l, h)\<in>set rest. l \<le> h" "sorted (map fst rest)"
    and "front \<noteq> [] \<Longrightarrow> \<forall>r\<in>set rest. fst (last front) \<le> fst r"
  shows "wf_ranges (merge_into front rest) \<and>
    (covered (merge_into front rest) x \<longleftrightarrow> covered front x \<or> covered rest x)"
  using assms
proof (induction front rest rule: merge_into.induct)
  case (2 front r rest)
  obtain l h where r: "r = (l, h)" by fastforce
  have lh: "l \<le> h" and rest: "\<forall>(l, h)\<in>set rest. l \<le> h" "sorted (map fst rest)" "\<forall>r'\<in>set rest. l \<le> fst r'"
    using "2.prems" r by auto
  show ?case
  proof (cases "front \<noteq> [] \<and> fst r \<le> snd (last front)")
    case True
    define F where "F = butlast front"
    obtain a b where last: "last front = (a, b)" by fastforce
    have fr: "front = F @ [(a, b)]" using True last by (metis F_def append_butlast_last_id)
    have wf: "wf_ranges F" "a \<le> b" "\<forall>(l', h')\<in>set F. h' < a"
      using "2.prems"(1) unfolding fr by (auto simp: wf_ranges_append wf_ranges_Cons)
    have al: "a \<le> l" using "2.prems"(4) True last r by simp
    have new: "wf_ranges (F @ [(a, max b h)])"
      using wf by (auto simp: wf_ranges_append wf_ranges_Cons le_max_iff_disj)
    have "wf_ranges (merge_into (F @ [(a, max b h)]) rest) \<and>
      (covered (merge_into (F @ [(a, max b h)]) rest) x \<longleftrightarrow> covered (F @ [(a, max b h)]) x \<or> covered rest x)"
      using "2.IH"(1) [OF True] new rest "2.prems"(4) True last r unfolding F_def by auto
    moreover have "a \<le> x \<and> x \<le> max b h \<longleftrightarrow> a \<le> x \<and> x \<le> b \<or> l \<le> x \<and> x \<le> h"
      using al True last r by (auto simp: le_max_iff_disj)
    ultimately show ?thesis using True last r fr by (auto simp: F_def [symmetric])
  next
    case False
    have "wf_ranges (front @ [r])"
    proof (cases "front = []")
      case True
      then show ?thesis using lh r by (simp add: wf_ranges_Cons)
    next
      case ne: False
      obtain a b where last: "last front = (a, b)" by fastforce
      have "h' \<le> b" if "(l', h') \<in> set front" for l' h'
        using interval_hull [OF "2.prems"(1) that prod.collapse [symmetric] last ne] by simp
      moreover have "b < l" using False ne last r by simp
      ultimately show ?thesis
        using "2.prems"(1) lh r by (fastforce simp: wf_ranges_append wf_ranges_Cons)
    qed
    with "2.IH"(2) [OF False] rest r show ?thesis using False by auto
  qed
qed simp

lemma normalize_eq: "normalize ranges = merge_into [] (sort ranges)"
  using normalize_loop_merge [of 0 "length (sort ranges)" "sort ranges" 0]
  by (simp add: normalize_def split_def)

lemma sorted_fst: "sorted (rs :: ('a::linorder \<times> 'a) list) \<Longrightarrow> sorted (map fst rs)"
  by (induction rs) (auto simp: less_eq_prod_def)

lemma normalize_correct:
  assumes "\<forall>(l, h)\<in>set rs. l \<le> h"
  shows "wf_ranges (normalize rs)" "covered (normalize rs) x \<longleftrightarrow> covered rs x"
proof -
  have "covered (sort rs) x \<longleftrightarrow> covered rs x" by (simp add: covered_def)
  with merge_into_correct [of "[]" "sort rs" x] assms sorted_fst [OF sorted_sort, of rs]
  show "wf_ranges (normalize rs)" "covered (normalize rs) x \<longleftrightarrow> covered rs x"
    by (simp_all add: normalize_eq)
qed

interpretation iv: interval_set contains_interval insert_interval normalize wf_ranges
  by unfold_locales (simp_all add: contains_interval_iff insert_interval_correct normalize_correct)

subsection \<open>CIDR blocks\<close>

lemma unat_and_not_mask: "unat ((a :: 'a::len word) AND NOT (mask n)) = unat a div 2 ^ n * 2 ^ n"
proof -
  have "a AND NOT (mask n) = push_bit n (drop_bit n a)"
    by (rule bit_word_eqI) (auto simp: bit_and_iff bit_not_iff bit_mask_iff bit_push_bit_iff bit_drop_bit_eq)
  moreover have "unat a div 2 ^ n * 2 ^ n < 2 ^ LENGTH('a)"
    using le_less_trans [OF div_times_less_eq_dividend unsigned_less [of a]] by simp
  moreover have "unat (drop_bit n a) = unat a div 2 ^ n" unfolding unat_drop_bit_eq by (rule drop_bit_eq_div)
  then have "unat (push_bit n (drop_bit n a)) = unat a div 2 ^ n * 2 ^ n mod 2 ^ LENGTH('a)"
    unfolding unsigned_push_bit_eq by (simp only: push_bit_eq_mult take_bit_eq_mod)
  ultimately show ?thesis by simp
qed

lemma block_top: "q < 2 ^ m \<Longrightarrow> q * 2 ^ n + (2 ^ n - 1) < (2 :: nat) ^ (m + n)"
proof -
  assume "q < 2 ^ m"
  then have "Suc q * 2 ^ n \<le> 2 ^ m * (2 :: nat) ^ n" by (intro mult_le_mono1) simp
  moreover have "(0 :: nat) < 2 ^ n" by simp
  ultimately show ?thesis unfolding power_add mult_Suc by linarith
qed

lemma unat_or_mask:
  assumes "n \<le> LENGTH('a)"
  shows "unat ((a :: 'a::len word) OR mask n) = unat a div 2 ^ n * 2 ^ n + (2 ^ n - 1)"
proof -
  have "a OR mask n = (a AND NOT (mask n)) OR mask n"
    by (rule bit_word_eqI) (auto simp: bit_or_iff bit_and_iff bit_not_iff bit_mask_iff)
  also have "\<dots> = (a AND NOT (mask n)) + mask n"
    by (rule disjunctive_add [symmetric]) (auto simp: bit_and_iff bit_not_iff bit_mask_iff)
  finally have eq: "a OR mask n = (a AND NOT (mask n)) + mask n" .
  have m: "unat (mask n :: 'a word) = 2 ^ n - 1"
  proof -
    have "unat (mask n :: 'a word) = take_bit n (unat (- 1 :: 'a word))"
      by (simp flip: unsigned_take_bit_eq)
    also have "\<dots> = mask n"
      unfolding unsigned_minus_1_eq_mask using assms
      by (intro bit_eqI) (auto simp: bit_take_bit_iff bit_mask_iff)
    finally show ?thesis by (simp add: mask_eq_exp_minus_1)
  qed
  have pow: "2 ^ LENGTH('a) = (2 :: nat) ^ (LENGTH('a) - n) * 2 ^ n"
    using assms by (simp flip: power_add)
  have "unat a < 2 ^ LENGTH('a)" by (rule unsigned_less)
  then have "unat a div 2 ^ n < 2 ^ (LENGTH('a) - n)"
    unfolding pow by (rule less_mult_imp_div_less)
  from block_top [OF this, of n] have "unat a div 2 ^ n * 2 ^ n + (2 ^ n - 1) < 2 ^ LENGTH('a)"
    using assms by simp
  then show ?thesis by (simp add: eq unat_word_ariths(1) unat_and_not_mask m)
qed

lemma div_block: "(x :: nat) div b = q \<longleftrightarrow> q * b \<le> x \<and> x \<le> q * b + (b - 1)" if "0 < b"
proof
  assume "x div b = q"
  moreover have "x mod b < b" using that by simp
  ultimately show "q * b \<le> x \<and> x \<le> q * b + (b - 1)" using div_mult_mod_eq [of x b] by auto
next
  assume "q * b \<le> x \<and> x \<le> q * b + (b - 1)"
  then have "x = q * b + (x - q * b)" "x - q * b < b" using that by auto
  then show "x div b = q" by (metis add.commute add_cancel_right_right div_less div_mult_self3 that neq0_conv)
qed

text \<open>The interval of a block holds the addresses that agree with it above the host bits.\<close>

lemma block_interval:
  assumes "n \<le> LENGTH('a)"
  shows "(a :: 'a::len word) AND NOT (mask n) \<le> x \<and> x \<le> a OR mask n \<longleftrightarrow> drop_bit n x = drop_bit n a"
proof -
  have "drop_bit n x = drop_bit n a \<longleftrightarrow> unat x div 2 ^ n = unat a div 2 ^ n"
    unfolding word_unat_eq_iff [of "drop_bit n x"] unat_drop_bit_eq by (simp only: drop_bit_eq_div)
  also have "\<dots> \<longleftrightarrow> a AND NOT (mask n) \<le> x \<and> x \<le> a OR mask n"
    unfolding word_le_nat_alt unat_and_not_mask unat_or_mask [OF assms] by (rule div_block) simp
  finally show ?thesis by simp
qed

text \<open>What a CIDR text denotes: an address and a number of prefix bits.\<close>

definition cidr_block :: "string \<Rightarrow> (ip_addr \<times> nat) option" where
  "cidr_block cidr =
     (case cidr_parts cidr of
        None \<Rightarrow> None
      | Some (ip_str, prefix) \<Rightarrow>
          (case parse_ip ip_str of
             None \<Rightarrow> None
           | Some ip \<Rightarrow>
               (let width = (case ip of V4 _ \<Rightarrow> 32 | V6 _ \<Rightarrow> 128);
                    bits = (case prefix of Some b \<Rightarrow> b | None \<Rightarrow> width)
                in if bits \<le> width then Some (ip, bits) else None)))"

fun in_block :: "ip_addr \<times> nat \<Rightarrow> ip_addr \<Rightarrow> bool" where
  "in_block (V4 a, bits) (V4 x) = (drop_bit (32 - bits) x = drop_bit (32 - bits) a)"
| "in_block (V6 a, bits) (V6 x) = (drop_bit (128 - bits) x = drop_bit (128 - bits) a)"
| "in_block _ _ = False"

fun push_block :: "ip_addr \<times> nat \<Rightarrow> ip_range_set \<Rightarrow> ip_range_set" where
  "push_block (V4 a, bits) s =
     s\<lparr>rs_v4 := rs_v4 s @ [(a AND NOT (mask (32 - bits)), a OR mask (32 - bits))],
       rs_prefixes := rs_prefixes s + 1\<rparr>"
| "push_block (V6 a, bits) s =
     s\<lparr>rs_v6 := rs_v6 s @ [(a AND NOT (mask (128 - bits)), a OR mask (128 - bits))],
       rs_prefixes := rs_prefixes s + 1\<rparr>"

lemma zero_mask:
  "(if bits = 0 then 0 else push_bit (32 - bits) (-1 :: u32)) = NOT (mask (32 - bits))"
  "(if bits = 0 then 0 else push_bit (128 - bits) (-1 :: u128)) = NOT (mask (128 - bits))"
  using mask_full [where 'a = 32] mask_full [where 'a = 128] by auto

lemma push_cidr_block:
  "push_cidr cidr s =
     (case cidr_block cidr of None \<Rightarrow> (False, s) | Some b \<Rightarrow> (True, push_block b s))"
  unfolding push_cidr_def cidr_block_def Let_def zero_mask
  by (auto simp: not_le split: option.split ip_addr.split)

definition raw_covers :: "ip_range_set \<Rightarrow> ip_addr \<Rightarrow> bool" where
  "raw_covers s ip = (case ip of V4 x \<Rightarrow> covered (rs_v4 s) x | V6 x \<Rightarrow> covered (rs_v6 s) x)"

definition raw_ok :: "ip_range_set \<Rightarrow> bool" where
  "raw_ok s \<longleftrightarrow> (\<forall>(l, h)\<in>set (rs_v4 s). l \<le> h) \<and> (\<forall>(l, h)\<in>set (rs_v6 s). l \<le> h)"

definition wf_set :: "ip_range_set \<Rightarrow> bool" where
  "wf_set s \<longleftrightarrow> wf_ranges (rs_v4 s) \<and> wf_ranges (rs_v6 s)"

lemma cidr_block_bits: "cidr_block c = Some (ip, bits) \<Longrightarrow> bits \<le> (case ip of V4 _ \<Rightarrow> 32 | V6 _ \<Rightarrow> 128)"
  by (auto simp: cidr_block_def Let_def split: option.splits if_splits)

lemma block_ordered: "(a :: 'a::len word) AND NOT (mask n) \<le> a OR mask n"
proof (cases "n \<le> LENGTH('a)")
  case True
  have "a AND NOT (mask n) \<le> a \<and> a \<le> a OR mask n" using block_interval [OF True, of a a] by simp
  then show ?thesis by (meson order_trans)
next
  case False
  then have "mask n = (- 1 :: 'a word)" by (intro bit_word_eqI) (simp add: bit_mask_iff)
  then show ?thesis by simp
qed

lemma push_block_raw:
  assumes "bits \<le> (case ip of V4 _ \<Rightarrow> 32 | V6 _ \<Rightarrow> 128)"
  shows "raw_covers (push_block (ip, bits) s) x \<longleftrightarrow> raw_covers s x \<or> in_block (ip, bits) x"
    and "raw_ok s \<Longrightarrow> raw_ok (push_block (ip, bits) s)"
    and "rs_prefixes (push_block (ip, bits) s) = rs_prefixes s + 1"
  using assms by (cases ip; cases x; auto simp: raw_covers_def raw_ok_def block_interval block_ordered)+

lemma set_contains_raw: "wf_set s \<Longrightarrow> set_contains s ip \<longleftrightarrow> raw_covers s ip"
  by (cases ip) (simp_all add: set_contains_def raw_covers_def wf_set_def iv.find_iff)

lemma add_cidr_block:
  assumes "wf_set s" "cidr_block cidr = Some (ip, bits)"
  shows "fst (add_cidr cidr s)" "wf_set (snd (add_cidr cidr s))"
    "set_contains (snd (add_cidr cidr s)) x \<longleftrightarrow> set_contains s x \<or> in_block (ip, bits) x"
    "rs_prefixes (snd (add_cidr cidr s)) = rs_prefixes s + 1"
proof -
  note bits = cidr_block_bits [OF assms(2)]
  have wf: "wf_ranges (rs_v4 s)" "wf_ranges (rs_v6 s)" using assms(1) by (simp_all add: wf_set_def)
  have eq: "add_cidr cidr s = (True,
      (case ip of
         V4 a \<Rightarrow> s\<lparr>rs_v4 := insert_interval (rs_v4 s) (a AND NOT (mask (32 - bits)), a OR mask (32 - bits)),
                   rs_prefixes := rs_prefixes s + 1\<rparr>
       | V6 a \<Rightarrow> s\<lparr>rs_v6 := insert_interval (rs_v6 s) (a AND NOT (mask (128 - bits)), a OR mask (128 - bits)),
                   rs_prefixes := rs_prefixes s + 1\<rparr>))"
    by (cases ip) (simp_all add: add_cidr_def push_cidr_block assms(2) Let_def)
  then show "fst (add_cidr cidr s)" "rs_prefixes (snd (add_cidr cidr s)) = rs_prefixes s + 1"
    by (cases ip; simp)+
  show "wf_set (snd (add_cidr cidr s))"
    using wf by (cases ip) (simp_all add: eq wf_set_def iv.ins_inv block_ordered)
  show "set_contains (snd (add_cidr cidr s)) x \<longleftrightarrow> set_contains s x \<or> in_block (ip, bits) x"
    using wf bits
    by (cases ip; cases x) (simp_all add: eq set_contains_def iv.find_ins block_ordered block_interval)
qed

subsection \<open>Feeds\<close>

definition feed_cidrs :: "(string option \<times> string option) list \<Rightarrow> string list" where
  "feed_cidrs ps = concat (map (\<lambda>(a, b). (case a of None \<Rightarrow> [] | Some c \<Rightarrow> [c]) @
                                       (case b of None \<Rightarrow> [] | Some c \<Rightarrow> [c])) ps)"

definition feed_valid :: "(string option \<times> string option) list \<Rightarrow> bool" where
  "feed_valid ps \<longleftrightarrow>
     (\<forall>p\<in>set ps. p \<noteq> (None, None)) \<and> (\<forall>c\<in>set (feed_cidrs ps). cidr_block c \<noteq> None)"

definition feed_push :: "string list \<Rightarrow> ip_range_set \<Rightarrow> ip_range_set" where
  "feed_push cs s = fold (\<lambda>c. push_block (the (cidr_block c))) cs s"

lemma feed_one_eq:
  "feed_one c (n, s) =
     (case c of None \<Rightarrow> Some (n, s)
      | Some t \<Rightarrow> if cidr_block t = None then None else Some (n + 1, push_block (the (cidr_block t)) s))"
  by (auto simp: feed_one_def push_cidr_block split: option.split)

lemma feed_loop_eq:
  "feed_loop ps (n, s) =
     (if feed_valid ps then Some (n + length (feed_cidrs ps), feed_push (feed_cidrs ps) s) else None)"
proof (induction ps arbitrary: n s)
  case (Cons p ps)
  obtain a b where p: "p = (a, b)" by fastforce
  show ?case
    by (cases a; cases b) (auto simp: p Cons.IH feed_one_eq feed_valid_def feed_cidrs_def feed_push_def)
qed (simp add: feed_valid_def feed_cidrs_def feed_push_def)

lemma feed_push_raw:
  assumes "\<forall>c\<in>set cs. cidr_block c \<noteq> None"
  shows "raw_covers (feed_push cs s) x \<longleftrightarrow> raw_covers s x \<or> (\<exists>c\<in>set cs. in_block (the (cidr_block c)) x)"
    and "raw_ok s \<Longrightarrow> raw_ok (feed_push cs s)"
    and "rs_prefixes (feed_push cs s) = rs_prefixes s + length cs"
  using assms
proof (induction cs arbitrary: s)
  case (Cons c cs)
  {
    case 1
    then obtain ip bits where c: "cidr_block c = Some (ip, bits)" by auto
    show ?case using Cons.IH(1) 1 push_block_raw(1) [OF cidr_block_bits [OF c]] c
      by (auto simp: feed_push_def)
  next
    case 2
    then obtain ip bits where c: "cidr_block c = Some (ip, bits)" by auto
    show ?case using Cons.IH(2) 2 push_block_raw(2) [OF cidr_block_bits [OF c]] c
      by (auto simp: feed_push_def)
  next
    case 3
    then obtain ip bits where c: "cidr_block c = Some (ip, bits)" by auto
    show ?case using Cons.IH(3) 3 push_block_raw(3) [OF cidr_block_bits [OF c]] c
      by (auto simp: feed_push_def)
  }
qed (simp_all add: feed_push_def)

lemma wf_set_raw_ok: "wf_set s \<Longrightarrow> raw_ok s"
  by (auto simp: wf_set_def raw_ok_def wf_ranges_def)

lemma rebuild_both:
  assumes "raw_ok s" "raw_ok p"
  defines "m \<equiv> \<lparr>rs_v4 = normalize (rs_v4 s @ rs_v4 p), rs_v6 = normalize (rs_v6 s @ rs_v6 p),
              rs_prefixes = rs_prefixes s + rs_prefixes p\<rparr>"
  shows "wf_set m" "set_contains m ip \<longleftrightarrow> raw_covers s ip \<or> raw_covers p ip"
proof -
  have ok: "\<forall>(l, h)\<in>set (rs_v4 s @ rs_v4 p). l \<le> h" "\<forall>(l, h)\<in>set (rs_v6 s @ rs_v6 p). l \<le> h"
    using assms(1,2) by (auto simp: raw_ok_def)
  show wf: "wf_set m" using iv.rebuild_inv [OF ok(1)] iv.rebuild_inv [OF ok(2)] by (simp add: wf_set_def m_def)
  show "set_contains m ip \<longleftrightarrow> raw_covers s ip \<or> raw_covers p ip"
    using iv.find_rebuild [OF ok(1)] iv.find_rebuild [OF ok(2)]
    by (cases ip) (simp_all add: set_contains_def raw_covers_def m_def)
qed

text \<open>The prefixes a document denotes: none when it is not such a document, too long or has a bad
  entry.\<close>

definition feed_accepted :: "externals \<Rightarrow> bytes \<Rightarrow> string list" where
  "feed_accepted X bs =
     (case de_feed X bs of
        None \<Rightarrow> []
      | Some ps \<Rightarrow> if length ps \<le> 100000 \<and> feed_valid ps then feed_cidrs ps else [])"

lemma add_feed_json_eq:
  assumes "wf_set s"
  shows "fst (add_feed_json X bs s) = length (feed_accepted X bs)"
    "wf_set (snd (add_feed_json X bs s))"
    "set_contains (snd (add_feed_json X bs s)) ip \<longleftrightarrow>
       set_contains s ip \<or> (\<exists>c\<in>set (feed_accepted X bs). in_block (the (cidr_block c)) ip)"
proof -
  have new: "raw_ok range_set_new" "\<not> raw_covers range_set_new ip"
    by (auto simp: raw_ok_def raw_covers_def range_set_new_def split: ip_addr.split)
  note s = wf_set_raw_ok [OF assms] set_contains_raw [OF assms, symmetric]
  have "fst (add_feed_json X bs s) = length (feed_accepted X bs) \<and> wf_set (snd (add_feed_json X bs s)) \<and>
    (set_contains (snd (add_feed_json X bs s)) ip \<longleftrightarrow>
       set_contains s ip \<or> (\<exists>c\<in>set (feed_accepted X bs). in_block (the (cidr_block c)) ip))"
  proof (cases "de_feed X bs")
    case None
    then show ?thesis
      using rebuild_both [OF s(1) new(1)] new(2) s(2) by (simp add: add_feed_json_def feed_accepted_def)
  next
    case (Some ps)
    show ?thesis
    proof (cases "length ps \<le> 100000 \<and> feed_valid ps")
      case True
      let ?p = "feed_push (feed_cidrs ps) range_set_new"
      have valid: "\<forall>c\<in>set (feed_cidrs ps). cidr_block c \<noteq> None" using True by (simp add: feed_valid_def)
      have "raw_ok ?p" by (rule feed_push_raw(2) [OF valid new(1)])
      from rebuild_both [OF s(1) this] feed_push_raw(1) [OF valid] new(2) s(2) Some True show ?thesis
        by (auto simp: add_feed_json_def feed_accepted_def feed_loop_eq)
    next
      case False
      then show ?thesis using Some assms
        by (auto simp: add_feed_json_def feed_accepted_def feed_loop_eq)
    qed
  qed
  then show "fst (add_feed_json X bs s) = length (feed_accepted X bs)"
    "wf_set (snd (add_feed_json X bs s))"
    "set_contains (snd (add_feed_json X bs s)) ip \<longleftrightarrow>
       set_contains s ip \<or> (\<exists>c\<in>set (feed_accepted X bs). in_block (the (cidr_block c)) ip)"
    by blast+
qed

subsection \<open>Labels\<close>

fun join_dot :: "string list \<Rightarrow> string" where
  "join_dot [] = []"
| "join_dot [s] = s"
| "join_dot (s # t # r) = s @ CHR ''.'' # join_dot (t # r)"

lemma join_split: "join_dot (split_on (CHR ''.'') s) = s"
proof (induction s)
  case (Cons x s)
  obtain l ls where s: "split_on (CHR ''.'') s = l # ls"
    using split_on_not_Nil [of "CHR ''.''" s] by (cases "split_on (CHR ''.'') s") auto
  with Cons show ?case by (cases ls) auto
qed simp

lemma join_dot_append: "a \<noteq> [] \<Longrightarrow> b \<noteq> [] \<Longrightarrow> join_dot (a @ b) = join_dot a @ CHR ''.'' # join_dot b"
  by (induction a rule: join_dot.induct) (auto simp: neq_Nil_conv)

lemma label_suffix_iff:
  "h = s \<or> ends_with h (CHR ''.'' # s) \<longleftrightarrow>
     (\<exists>front. split_on (CHR ''.'') h = front @ split_on (CHR ''.'') s)"
proof
  assume "h = s \<or> ends_with h (CHR ''.'' # s)"
  then show "\<exists>front. split_on (CHR ''.'') h = front @ split_on (CHR ''.'') s"
    by (auto simp: ends_with_iff split_on_append)
next
  assume "\<exists>front. split_on (CHR ''.'') h = front @ split_on (CHR ''.'') s"
  then obtain front where eq: "split_on (CHR ''.'') h = front @ split_on (CHR ''.'') s" by blast
  have "h = join_dot (front @ split_on (CHR ''.'') s)" using join_split [of h] eq by simp
  then show "h = s \<or> ends_with h (CHR ''.'' # s)"
    by (cases "front = []") (auto simp: join_dot_append split_on_not_Nil join_split ends_with_iff)
qed

lemma new_contains: "\<not> set_contains range_set_new ip"
  by (cases ip) (simp_all add: set_contains_def range_set_new_def contains_interval_def partition_point_def)

subsection \<open>Properties\<close>

text \<open>
  C31. Adding a CIDR text to a set keeps its intervals sorted and disjoint and adds exactly the
  addresses of the block: those that agree with the written address on the prefix bits, in its
  own family. An unreadable text is refused and changes nothing.
\<close>

theorem add_cidr_adds_block:
  assumes "wf_set s"
  shows "wf_set (snd (add_cidr cidr s)) \<and>
    fst (add_cidr cidr s) = (cidr_block cidr \<noteq> None) \<and>
    (set_contains (snd (add_cidr cidr s)) ip \<longleftrightarrow>
       set_contains s ip \<or> (case cidr_block cidr of None \<Rightarrow> False | Some b \<Rightarrow> in_block b ip))"
proof (cases "cidr_block cidr")
  case None
  then show ?thesis using assms by (simp add: add_cidr_def push_cidr_block)
next
  case (Some b)
  obtain a bits where b: "b = (a, bits)" by fastforce
  show ?thesis using add_cidr_block [OF assms Some [unfolded b]] Some b by simp
qed

theorem add_cidr_adds_block_witness:
  "set_contains (snd (add_cidr ''1.2.3.4'' range_set_new)) (V4 0x01020304) \<and>
   \<not> set_contains (snd (add_cidr ''1.2.3.4'' range_set_new)) (V4 0x01020305)"
proof -
  have wf: "wf_set range_set_new" by (simp add: wf_set_def range_set_new_def)
  have ip: "parse_ip ''1.2.3.4'' = Some (V4 0x01020304)" by code_simp
  have "split_once (CHR ''/'') ''1.2.3.4'' = None" by code_simp
  moreover have "trim ''1.2.3.4'' = ''1.2.3.4''" by (rule trim_id) (simp_all add: printable_def)
  ultimately have b: "cidr_block ''1.2.3.4'' = Some (V4 0x01020304, 32)"
    by (simp add: cidr_block_def cidr_parts_def ip)
  show ?thesis
    using add_cidr_adds_block [OF wf, of "''1.2.3.4''"] new_contains unfolding b by simp
qed

text \<open>
  Loading a feed is all or nothing: the number returned is the number of prefixes of a
  document all of whose entries are readable, otherwise 0, and the set afterwards holds exactly
  what it held before and the blocks of those prefixes, again sorted and disjoint.
\<close>

theorem add_feed_json_all_or_nothing:
  assumes "wf_set s"
  shows "fst (add_feed_json X bs s) = length (feed_accepted X bs) \<and>
    wf_set (snd (add_feed_json X bs s)) \<and>
    (set_contains (snd (add_feed_json X bs s)) ip \<longleftrightarrow>
       set_contains s ip \<or> (\<exists>c\<in>set (feed_accepted X bs). in_block (the (cidr_block c)) ip))"
  using add_feed_json_eq [OF assms] by blast

theorem add_feed_json_all_or_nothing_witness:
  "wf_set range_set_new \<and> wf_set (snd (add_feed_json sample [49] range_set_new))"
  using add_feed_json_all_or_nothing [of range_set_new sample "[49]"]
  by (simp add: wf_set_def range_set_new_def)

text \<open>
  C26. Host suffixes match on label boundaries: after normalisation (white space, dots, case) a
  host matches exactly when both names are non-empty and the labels of the suffix are the last
  labels of the host, so a look-alike such as \<open>evilgooglebot.com\<close> never matches
  \<open>googlebot.com\<close>.
\<close>

theorem host_matches_suffix_labels:
  "host_matches_suffix host suffix \<longleftrightarrow>
     (let h = to_ascii_lowercase (trim_end_matches (CHR ''.'') (trim host));
          s = to_ascii_lowercase (trim_matches (CHR ''.'') (trim suffix))
      in h \<noteq> [] \<and> s \<noteq> [] \<and>
         (\<exists>front. split_on (CHR ''.'') h = front @ split_on (CHR ''.'') s))"
  unfolding host_matches_suffix_def Let_def label_suffix_iff by simp

end
