(* ===== verification/Feeds.thy ===== *)
theory Feeds
  imports Ranges
begin

text \<open>
  \<open>pow-gate-core/src/feeds.rs\<close>: a parsed feed with the time it was fetched. Instants and
  durations are natural numbers of nanoseconds; subtraction saturates, as
  \<open>saturating_duration_since\<close> does.
\<close>

type_synonym instant = nat
type_synonym duration = nat

record feed_snapshot =
  fs_ranges :: ip_range_set
  fs_updated :: instant

definition feed_parse :: "externals \<Rightarrow> bytes \<Rightarrow> instant \<Rightarrow> feed_snapshot option" where
  "feed_parse X bs now =
     (case add_feed_json X bs range_set_new of
        (n, ranges) \<Rightarrow>
          if n = 0 then None else Some \<lparr>fs_ranges = ranges, fs_updated = now\<rparr>)"

definition feed_age :: "feed_snapshot \<Rightarrow> instant \<Rightarrow> duration" where
  "feed_age s now = now - fs_updated s"

definition feed_fresh :: "feed_snapshot \<Rightarrow> instant \<Rightarrow> duration \<Rightarrow> bool" where
  "feed_fresh s now max_stale = (feed_age s now < max_stale)"

definition feed_contains :: "feed_snapshot \<Rightarrow> ip_addr \<Rightarrow> instant \<Rightarrow> duration \<Rightarrow> bool" where
  "feed_contains s ip now max_stale = (feed_fresh s now max_stale \<and> set_contains (fs_ranges s) ip)"

text \<open>
  A snapshot answers for exactly the blocks of the document it was parsed from, and only
  while it is younger than the allowed staleness; a document without any prefix gives no
  snapshot.
\<close>

lemma feed_snapshot_contains:
  "(case feed_parse X bs t of
      None \<Rightarrow> feed_accepted X bs = []
    | Some snap \<Rightarrow>
        feed_accepted X bs \<noteq> [] \<and>
        (feed_contains snap ip now max_stale \<longleftrightarrow>
           now < t + max_stale \<and> 0 < max_stale \<and>
           (\<exists>c\<in>set (feed_accepted X bs). in_block (the (cidr_block c)) ip)))"
proof -
  have wf: "wf_set range_set_new" by (simp add: wf_set_def range_set_new_def)
  note none = new_contains [of ip]
  obtain n ranges where feed: "add_feed_json X bs range_set_new = (n, ranges)" by fastforce
  from add_feed_json_eq(1,3) [OF wf, of X bs] none feed
  have "n = length (feed_accepted X bs)"
    "set_contains ranges ip \<longleftrightarrow> (\<exists>c\<in>set (feed_accepted X bs). in_block (the (cidr_block c)) ip)" by simp_all
  moreover have "now - t < max_stale \<longleftrightarrow> now < t + max_stale \<and> 0 < max_stale" by auto
  ultimately show ?thesis
    by (auto simp: feed_parse_def feed feed_contains_def feed_fresh_def feed_age_def)
qed

end
