(* ===== verification/Verdict_Cache.thy ===== *)
theory Verdict_Cache
  imports Feeds "HOL-Library.AList"
begin

text \<open>
  \<open>pow-gate-core/src/verdict_cache.rs\<close>: the bounded cache of DNS verdicts. The hash map is an
  association list with distinct keys; a generation number ties a reply to the lookup that asked
  for it.
\<close>

datatype lookup = Cached bool | Start u64 | CacheFull

record cache_entry =
  ce_verdict :: bool
  ce_at :: instant
  ce_generation :: u64

record 'k verdict_cache =
  vc_entries :: "('k \<times> cache_entry) list"
  vc_capacity :: usize
  vc_ttl :: duration
  vc_next_sweep :: instant
  vc_generation :: u64

definition second :: duration where "second = 1000000000"

definition cache_new :: "usize \<Rightarrow> duration \<Rightarrow> instant \<Rightarrow> 'k verdict_cache" where
  "cache_new capacity ttl now =
     \<lparr>vc_entries = [], vc_capacity = capacity, vc_ttl = ttl, vc_next_sweep = now, vc_generation = 0\<rparr>"

definition live :: "'k verdict_cache \<Rightarrow> instant \<Rightarrow> cache_entry \<Rightarrow> bool" where
  "live c now e \<longleftrightarrow> now - ce_at e < vc_ttl c"

definition sweep :: "instant \<Rightarrow> 'k verdict_cache \<Rightarrow> 'k verdict_cache" where
  "sweep now c =
     (if length (vc_entries c) \<ge> vc_capacity c \<and> now \<ge> vc_next_sweep c
      then c\<lparr>vc_entries := filter (\<lambda>(k, e). live c now e) (vc_entries c),
             vc_next_sweep := now + second\<rparr>
      else c)"

definition cache_begin :: "'k \<Rightarrow> instant \<Rightarrow> 'k verdict_cache \<Rightarrow> lookup \<times> 'k verdict_cache" where
  "cache_begin key now c =
     (let hit = map_of (vc_entries c) key in
      case (case hit of Some e \<Rightarrow> if live c now e then Some e else None | None \<Rightarrow> None) of
        Some e \<Rightarrow> (Cached (ce_verdict e), c)
      | None \<Rightarrow>
          (let c = (case hit of
                      Some _ \<Rightarrow> c\<lparr>vc_entries := AList.delete key (vc_entries c)\<rparr>
                    | None \<Rightarrow> c);
               c = sweep now c
           in if length (vc_entries c) \<ge> vc_capacity c then (CacheFull, c)
              else
                let generation = vc_generation c + 1
                in (Start generation,
                    c\<lparr>vc_generation := generation,
                      vc_entries := AList.update key
                        \<lparr>ce_verdict = False, ce_at = now, ce_generation = generation\<rparr>
                        (vc_entries c)\<rparr>)))"

definition cache_complete ::
  "'k \<Rightarrow> u64 \<Rightarrow> bool \<Rightarrow> instant \<Rightarrow> 'k verdict_cache \<Rightarrow> 'k verdict_cache" where
  "cache_complete key generation verdict now c =
     (case map_of (vc_entries c) key of
        None \<Rightarrow> c
      | Some e \<Rightarrow>
          if ce_generation e = generation
          then c\<lparr>vc_entries := AList.update key (e\<lparr>ce_verdict := verdict, ce_at := now\<rparr>) (vc_entries c)\<rparr>
          else c)"

definition cache_cancel :: "'k \<Rightarrow> u64 \<Rightarrow> 'k verdict_cache \<Rightarrow> 'k verdict_cache" where
  "cache_cancel key generation c =
     (case map_of (vc_entries c) key of
        Some e \<Rightarrow>
          if ce_generation e = generation
          then c\<lparr>vc_entries := AList.delete key (vc_entries c)\<rparr> else c
      | None \<Rightarrow> c)"

definition cache_len :: "'k verdict_cache \<Rightarrow> usize" where
  "cache_len c = length (vc_entries c)"

subsection \<open>Invariant\<close>

definition cache_wf :: "'k verdict_cache \<Rightarrow> bool" where
  "cache_wf c \<longleftrightarrow> distinct (map fst (vc_entries c)) \<and> length (vc_entries c) \<le> vc_capacity c"

lemma distinct_filter_fst: "distinct (map fst xs) \<Longrightarrow> distinct (map fst (filter P xs))"
  by (induction xs) auto

lemma sweep_wf [ledger_intros]: "cache_wf c \<Longrightarrow> cache_wf (sweep now c)"
  by (auto simp: cache_wf_def sweep_def distinct_filter_fst intro: order_trans [OF length_filter_le])

lemma delete_wf [ledger_intros]: "cache_wf c \<Longrightarrow> cache_wf (c\<lparr>vc_entries := AList.delete k (vc_entries c)\<rparr>)"
  using length_delete_le [of k "vc_entries c"] by (auto simp: cache_wf_def distinct_delete intro: le_trans)

lemma length_update_le: "length (AList.update k v xs) \<le> Suc (length xs)"
  by (induction xs) auto

lemma length_update_present: "(k, w) \<in> set xs \<Longrightarrow> length (AList.update k v xs) = length xs"
  by (induction xs) auto

lemma cache_complete_wf [ledger_intros]: "cache_wf c \<Longrightarrow> cache_wf (cache_complete k g v now c)"
  by (auto simp: cache_complete_def cache_wf_def distinct_update length_update_present
      dest!: map_of_SomeD split: option.split)

lemma cache_cancel_wf [ledger_intros]: "cache_wf c \<Longrightarrow> cache_wf (cache_cancel k g c)"
  by (auto simp: cache_cancel_def delete_wf split: option.split)

lemma cache_begin_wf [ledger_intros]: "cache_wf c \<Longrightarrow> cache_wf (snd (cache_begin k now c))"
proof -
  assume wf: "cache_wf c"
  have start: "cache_wf (d\<lparr>vc_generation := g, vc_entries := AList.update k e (vc_entries d)\<rparr>)"
    if "cache_wf d" "\<not> vc_capacity d \<le> length (vc_entries d)" for d g e
    using that length_update_le [of k e "vc_entries d"] by (auto simp: cache_wf_def distinct_update)
  show ?thesis
    using wf by (auto simp: cache_begin_def Let_def intro!: start ledger_intros split: option.split)
qed

subsection \<open>Runs\<close>

datatype 'k cache_event =
    EvBegin 'k instant lookup
  | EvComplete 'k u64 bool instant
  | EvCancel 'k u64

text \<open>States that the cache can be in, with the events so far, the latest first.\<close>

inductive cache_run :: "'k verdict_cache \<Rightarrow> 'k cache_event list \<Rightarrow> bool" where
  run_new: "cache_run (cache_new capacity ttl now) []"
| run_begin: "cache_run c log \<Longrightarrow> cache_begin k now c = (res, c') \<Longrightarrow> cache_run c' (EvBegin k now res # log)"
| run_complete: "cache_run c log \<Longrightarrow> cache_run (cache_complete k g v now c) (EvComplete k g v now # log)"
| run_cancel: "cache_run c log \<Longrightarrow> cache_run (cache_cancel k g c) (EvCancel k g # log)"

inductive_cases cache_run_NilE: "cache_run c []"

text \<open>The generation of the last lookup that was started for a key.\<close>

fun latest_start :: "'k \<Rightarrow> 'k cache_event list \<Rightarrow> u64 option" where
  "latest_start k [] = None"
| "latest_start k (EvBegin k' t (Start g) # log) = (if k' = k then Some g else latest_start k log)"
| "latest_start k (ev # log) = latest_start k log"

definition backed :: "'k verdict_cache \<Rightarrow> 'k cache_event list \<Rightarrow> bool" where
  "backed c log \<longleftrightarrow>
     (\<forall>k e. map_of (vc_entries c) k = Some e \<longrightarrow>
        latest_start k log = Some (ce_generation e) \<and>
        (ce_verdict e \<longrightarrow> EvComplete k (ce_generation e) True (ce_at e) \<in> set log))"

lemma map_of_filter_distinct:
  "distinct (map fst xs) \<Longrightarrow>
   map_of (filter (\<lambda>(k, e). P e) xs) k = (case map_of xs k of Some e \<Rightarrow> if P e then Some e else None | None \<Rightarrow> None)"
  by (induction xs) (auto simp: map_of_eq_None_iff rev_image_eqI split: option.split)

lemma map_of_sweep:
  "cache_wf c \<Longrightarrow> map_of (vc_entries (sweep now c)) k = Some e \<Longrightarrow> map_of (vc_entries c) k = Some e"
  by (auto simp: sweep_def cache_wf_def map_of_filter_distinct split: if_splits option.splits)

lemma cache_run_wf: "cache_run c log \<Longrightarrow> cache_wf c"
proof (induction rule: cache_run.induct)
  case (run_begin c log k now res c')
  then show ?case using cache_begin_wf [of c k now] by simp
qed (auto simp: cache_new_def cache_wf_def cache_complete_wf [unfolded cache_wf_def]
    cache_cancel_wf [unfolded cache_wf_def])

lemma begin_cases:
  assumes "cache_begin k now c = (res, c')" "cache_wf c"
  obtains (hit) e where "map_of (vc_entries c) k = Some e" "live c now e" "res = Cached (ce_verdict e)" "c' = c"
  | (full) "res = CacheFull" "\<And>k' e. map_of (vc_entries c') k' = Some e \<Longrightarrow> map_of (vc_entries c) k' = Some e"
  | (start) g where "res = Start g"
      "map_of (vc_entries c') k = Some \<lparr>ce_verdict = False, ce_at = now, ce_generation = g\<rparr>"
      "\<And>k' e. k' \<noteq> k \<Longrightarrow> map_of (vc_entries c') k' = Some e \<Longrightarrow> map_of (vc_entries c) k' = Some e"
proof -
  define d where "d = (case map_of (vc_entries c) k of
      Some _ \<Rightarrow> c\<lparr>vc_entries := AList.delete k (vc_entries c)\<rparr> | None \<Rightarrow> c)"
  have d: "cache_wf d" "map_of (vc_entries d) k' = Some e \<Longrightarrow> map_of (vc_entries c) k' = Some e" for k' e
    using assms(2) delete_wf [of c k]
    by (auto simp: d_def delete_conv split: option.splits if_splits)
  note sub = d(2) [OF map_of_sweep [OF d(1)]]
  show thesis
  proof (cases "\<exists>e. map_of (vc_entries c) k = Some e \<and> live c now e")
    case True
    then obtain e where e: "map_of (vc_entries c) k = Some e" "live c now e" by blast
    then have "cache_begin k now c = (Cached (ce_verdict e), c)" by (simp add: cache_begin_def)
    with assms(1) show thesis by (intro hit [OF e]) simp_all
  next
    case False
    then have res: "(res, c') =
      (if length (vc_entries (sweep now d)) \<ge> vc_capacity (sweep now d) then (CacheFull, sweep now d)
       else let g = vc_generation (sweep now d) + 1
            in (Start g, (sweep now d)\<lparr>vc_generation := g, vc_entries := AList.update k
                 \<lparr>ce_verdict = False, ce_at = now, ce_generation = g\<rparr> (vc_entries (sweep now d))\<rparr>))"
    proof -
      have none: "(case map_of (vc_entries c) k of Some e \<Rightarrow> if live c now e then Some e else None | None \<Rightarrow> None) = None"
        using False by (auto split: option.split)
      show ?thesis unfolding assms(1) [symmetric] cache_begin_def Let_def none d_def by simp
    qed
    show thesis
    proof (cases "length (vc_entries (sweep now d)) \<ge> vc_capacity (sweep now d)")
      case True
      with res have "res = CacheFull" "c' = sweep now d" by simp_all
      then show thesis using sub by (intro full) simp_all
    next
      case False
      define g where "g = vc_generation (sweep now d) + 1"
      from False res have "res = Start g" and c': "c' = (sweep now d)\<lparr>vc_generation := g,
          vc_entries := AList.update k \<lparr>ce_verdict = False, ce_at = now, ce_generation = g\<rparr>
            (vc_entries (sweep now d))\<rparr>"
        by (simp_all add: Let_def g_def)
      then show thesis using sub by (intro start [of g]) (simp_all add: update_conv)
    qed
  qed
qed

lemma cache_run_backed: "cache_run c log \<Longrightarrow> backed c log"
proof (induction rule: cache_run.induct)
  case (run_begin c log k now res c')
  note wf = cache_run_wf [OF run_begin.hyps(1)]
  show ?case
  proof (rule begin_cases [OF run_begin.hyps(2) wf])
    fix g assume "res = Start g"
      "map_of (vc_entries c') k = Some \<lparr>ce_verdict = False, ce_at = now, ce_generation = g\<rparr>"
      "\<And>k' e. k' \<noteq> k \<Longrightarrow> map_of (vc_entries c') k' = Some e \<Longrightarrow> map_of (vc_entries c) k' = Some e"
    note new = this
    show ?thesis unfolding backed_def
    proof (intro allI impI)
      fix k' e assume e: "map_of (vc_entries c') k' = Some e"
      show "latest_start k' (EvBegin k now res # log) = Some (ce_generation e) \<and>
          (ce_verdict e \<longrightarrow> EvComplete k' (ce_generation e) True (ce_at e) \<in> set (EvBegin k now res # log))"
      proof (cases "k' = k")
        case True
        then show ?thesis using new(1,2) e by auto
      next
        case False
        then have "map_of (vc_entries c) k' = Some e" using new(3) e by blast
        with run_begin.IH False new(1) show ?thesis unfolding backed_def by auto
      qed
    qed
  qed (use run_begin.IH in \<open>auto simp: backed_def\<close>)
next
  case (run_complete c log k g v now)
  then show ?case
    by (auto simp: backed_def cache_complete_def update_conv split: option.splits if_splits)
next
  case (run_cancel c log k g)
  then show ?case
    by (auto simp: backed_def cache_cancel_def delete_conv split: option.splits if_splits)
qed (simp add: backed_def cache_new_def)

lemma sweep_keeps_live:
  "cache_wf c \<Longrightarrow> map_of (vc_entries c) k = Some e \<Longrightarrow> live c now e \<Longrightarrow>
   map_of (vc_entries (sweep now c)) k = Some e"
  by (auto simp: sweep_def cache_wf_def map_of_filter_distinct)

lemma begin_keeps_live:
  assumes "cache_wf c" "map_of (vc_entries c) k' = Some e" "live c now e"
  shows "map_of (vc_entries (snd (cache_begin k now c))) k' = Some e"
proof (cases "k' = k")
  case True
  with assms show ?thesis by (simp add: cache_begin_def)
next
  case False
  define d where "d = (case map_of (vc_entries c) k of
      Some _ \<Rightarrow> c\<lparr>vc_entries := AList.delete k (vc_entries c)\<rparr> | None \<Rightarrow> c)"
  have d: "cache_wf d" "map_of (vc_entries d) k' = Some e" "live d now e"
    using assms False delete_wf [of c k] by (auto simp: d_def delete_conv live_def split: option.splits)
  note swept = sweep_keeps_live [OF d]
  show ?thesis
  proof (cases "case map_of (vc_entries c) k of Some e \<Rightarrow> if live c now e then Some e else None | None \<Rightarrow> None")
    case None
    show ?thesis unfolding cache_begin_def Let_def None
      using swept False by (simp add: d_def [symmetric] update_conv)
  next
    case (Some f)
    then show ?thesis using assms(2) by (simp add: cache_begin_def)
  qed
qed

subsection \<open>Properties\<close>

text \<open>
  C29. A positive verdict is always backed by a reply: if in any run the cache answers \<open>true\<close> for
  a key, then a positive completion for that key was recorded less than the time to live ago, and
  it carried the generation of the latest lookup started for the key, so that a late reply to an
  earlier lookup never counts.
\<close>

theorem cached_true_backed:
  assumes "cache_run c log" "cache_begin k now c = (Cached True, c')"
  shows "\<exists>g t. EvComplete k g True t \<in> set log \<and> latest_start k log = Some g \<and> now - t < vc_ttl c"
  using assms(2) cache_run_wf [OF assms(1)]
proof (rule begin_cases)
  fix e assume "map_of (vc_entries c) k = Some e" "live c now e" "Cached True = Cached (ce_verdict e)"
  with cache_run_backed [OF assms(1)] show ?thesis by (auto simp: backed_def live_def)
qed simp_all

text \<open>
  C30. The cache stays within its capacity with one entry per key whatever is asked, and serving
  a lookup never evicts a live verdict of any key: when no room can be made, the lookup is
  refused.
\<close>

theorem cache_bounded_without_eviction:
  assumes "cache_run c log"
  shows "cache_len c \<le> vc_capacity c \<and> distinct (map fst (vc_entries c)) \<and>
    (map_of (vc_entries c) k' = Some e \<and> live c now e \<longrightarrow>
       map_of (vc_entries (snd (cache_begin k now c))) k' = Some e)"
  using cache_run_wf [OF assms] begin_keeps_live [OF cache_run_wf [OF assms]]
  by (simp add: cache_len_def cache_wf_def)

theorem cached_true_backed_witness:
  "\<exists>c log c'. cache_run c log \<and> cache_begin ''k'' 12 c = (Cached True, c') \<and>
     (\<exists>g t. EvComplete ''k'' g True t \<in> set log \<and> latest_start ''k'' log = Some g \<and> 12 - t < vc_ttl c)"
proof -
  let ?c1 = "cache_new 5 10 0 :: string verdict_cache"
  let ?c2 = "snd (cache_begin ''k'' 10 ?c1)"
  have r2: "cache_run ?c2 [EvBegin ''k'' 10 (Start 1)]"
    by (rule run_begin [OF run_new [of 5 10 0]])
      (simp add: cache_begin_def cache_new_def sweep_def Let_def)
  have r3: "cache_run (cache_complete ''k'' 1 True 11 ?c2) [EvComplete ''k'' 1 True 11, EvBegin ''k'' 10 (Start 1)]"
    by (rule run_complete [OF r2])
  have b: "cache_begin ''k'' 12 (cache_complete ''k'' 1 True 11 ?c2) = (Cached True, cache_complete ''k'' 1 True 11 ?c2)"
    by (simp add: cache_begin_def cache_new_def sweep_def Let_def cache_complete_def live_def)
  show ?thesis by (rule exI, rule exI, rule exI) (rule conjI [OF r3 conjI [OF b cached_true_backed [OF r3 b]]])
qed

theorem cache_bounded_without_eviction_witness:
  "\<exists>c log e. cache_run c log \<and> cache_len c = 1 \<and> vc_capacity c = 1 \<and> map_of (vc_entries c) ''k'' = Some e \<and>
     map_of (vc_entries (snd (cache_begin ''j'' 12 c))) ''k'' = Some e"
proof -
  define c where "c = snd (cache_begin ''k'' 10 (cache_new 1 10 0 :: string verdict_cache))"
  have run: "cache_run c [EvBegin ''k'' 10 (Start 1)]"
    unfolding c_def by (rule run_begin [OF run_new [of 1 10 0]])
      (simp add: cache_begin_def cache_new_def sweep_def Let_def)
  let ?e = "\<lparr>ce_verdict = False, ce_at = 10, ce_generation = 1\<rparr>"
  have c: "vc_entries c = [(''k'', ?e)]" "vc_capacity c = 1" "vc_ttl c = 10"
    by (simp_all add: c_def cache_begin_def cache_new_def sweep_def Let_def)
  then have "cache_len c = 1 \<and> map_of (vc_entries c) ''k'' = Some ?e \<and> live c 12 ?e"
    by (simp add: cache_len_def live_def)
  with cache_bounded_without_eviction [OF run, of "''k''" ?e 12 "''j''"] run c(2) show ?thesis by blast
qed

end
