(* ===== verification/Mac.thy ===== *)
theory Mac
  imports Wire Sample
begin

text \<open>
  \<open>pow-gate-core/src/mac.rs\<close>: keyed hashing by repeated updates of a started state, the two ways
  of feeding a list (concatenated, and framed by 64-bit lengths), and tag comparison.

  A prepared key is the key; a started state is the key with the bytes absorbed so far, which
  \<open>finish\<close> hands to \<open>HMAC-SHA256\<close>. Both configurations of the crate (\<open>ring\<close> and \<open>hmac\<close>)
  have this reading.
\<close>

record hmac_key = key_state :: bytes

record mac_state =
  mac_key :: bytes
  mac_absorbed :: bytes

definition mac_update :: "bytes \<Rightarrow> mac_state \<Rightarrow> mac_state" where
  "mac_update b st = st\<lparr>mac_absorbed := mac_absorbed st @ b\<rparr>"

definition mac_finish :: "externals \<Rightarrow> mac_state \<Rightarrow> bytes" where
  "mac_finish X st = hmac_sha256 X (mac_key st) (mac_absorbed st)"

definition hmac_key_new :: "bytes \<Rightarrow> hmac_key" where
  "hmac_key_new key = \<lparr>key_state = key\<rparr>"

definition mac_start :: "hmac_key \<Rightarrow> mac_state" where
  "mac_start k = \<lparr>mac_key = key_state k, mac_absorbed = []\<rparr>"

definition mac_parts :: "externals \<Rightarrow> hmac_key \<Rightarrow> bytes list \<Rightarrow> bytes" where
  "mac_parts X k parts = mac_finish X (fold mac_update parts (mac_start k))"

definition mac_fields :: "externals \<Rightarrow> hmac_key \<Rightarrow> bytes list \<Rightarrow> bytes" where
  "mac_fields X k fs =
     mac_finish X
       (fold (\<lambda>field mac. mac_update field (mac_update (to_be_bytes (of_nat (length field))) mac))
          fs (mac_start k))"

definition hmac :: "externals \<Rightarrow> bytes \<Rightarrow> bytes \<Rightarrow> bytes" where
  "hmac X key msg = mac_parts X (hmac_key_new key) [msg]"

text \<open>
  The comparison of \<open>subtle\<close> visits every byte and accumulates the differences; the length test
  comes first.
\<close>

definition ct_eq :: "bytes \<Rightarrow> bytes \<Rightarrow> bool" where
  "ct_eq a b \<longleftrightarrow>
     length a = length b \<and> foldl (\<lambda>acc (x, y). acc OR (x XOR y)) 0 (zip a b) = 0"

subsection \<open>Streaming\<close>

lemma mac_key_fold [simp]: "mac_key (fold mac_update parts st) = mac_key st"
  by (induction parts arbitrary: st) (simp_all add: mac_update_def)

lemma mac_absorbed_fold: "mac_absorbed (fold mac_update parts st) = mac_absorbed st @ concat parts"
  by (induction parts arbitrary: st) (simp_all add: mac_update_def)

lemma mac_parts_eq: "mac_parts X k parts = hmac_sha256 X (key_state k) (concat parts)"
  by (simp add: mac_parts_def mac_finish_def mac_start_def mac_absorbed_fold)

lemma mac_fields_fold:
  "fold (\<lambda>field mac. mac_update field (mac_update (to_be_bytes (of_nat (length field))) mac)) fs st
     = mac_update (frames fs) st"
  by (induction fs arbitrary: st) (simp_all add: mac_update_def frames_def frame_def)

lemma mac_fields_eq: "mac_fields X k fs = hmac_sha256 X (key_state k) (frames fs)"
  unfolding mac_fields_def mac_fields_fold by (simp add: mac_finish_def mac_start_def mac_update_def)

lemma hmac_eq [simp]: "hmac X key msg = hmac_sha256 X key msg"
  by (simp add: hmac_def mac_parts_eq hmac_key_new_def)

lemma key_state_new [simp]: "key_state (hmac_key_new k) = k"
  by (simp add: hmac_key_new_def)

lemma length_mac [simp]:
  "digest_laws X \<Longrightarrow> length (mac_parts X k p) = 32"
  "digest_laws X \<Longrightarrow> length (mac_fields X k p) = 32"
  by (simp_all add: mac_parts_eq mac_fields_eq)

lemma xor_zero_iff: "(x :: u8) XOR y = 0 \<longleftrightarrow> x = y"
proof
  assume "x XOR y = 0"
  then have "x XOR (x XOR y) = x" by simp
  then show "x = y" by (simp add: xor.assoc [symmetric])
qed simp

lemma ct_fold_zero:
  "length a = length b \<Longrightarrow>
   foldl (\<lambda>acc (x, y). acc OR (x XOR y)) (c :: u8) (zip a b) = 0 \<longleftrightarrow> c = 0 \<and> a = b"
proof (induction a b arbitrary: c rule: list_induct2)
  case (Cons x xs y ys)
  have "c OR (x XOR y) = 0 \<longleftrightarrow> c = 0 \<and> x = y" by (simp add: or_eq_0_iff xor_zero_iff)
  then show ?case using Cons.IH [of "c OR (x XOR y)"] by simp
qed simp

lemma ct_eq_iff [simp]: "ct_eq a b \<longleftrightarrow> a = b"
  by (auto simp: ct_eq_def ct_fold_zero)

lemma mac_fields_separates:
  assumes "\<forall>f\<in>set fs. length f < 2 ^ 64" "\<forall>g\<in>set gs. length g < 2 ^ 64"
    and "mac_fields X k fs = mac_fields X k gs"
  shows "fs = gs \<or>
         frames fs \<noteq> frames gs \<and>
         hmac_sha256 X (key_state k) (frames fs) = hmac_sha256 X (key_state k) (frames gs)"
  using assms frames_inject by (auto simp: mac_fields_eq)

subsection \<open>Properties\<close>

text \<open>
  Feeding a message piecewise gives the MAC of the whole message, whatever the pieces; and
  the framed form is the MAC of the length-framed concatenation, which no two different lists of
  fields share (field lengths fit in 64 bits, as every Rust slice's does).
\<close>

theorem mac_streaming:
  assumes "\<forall>f\<in>set fs. length f < 2 ^ 64" "\<forall>g\<in>set gs. length g < 2 ^ 64"
  shows "mac_parts X (hmac_key_new key) parts = hmac X key (concat parts) \<and>
         mac_fields X (hmac_key_new key) fs = hmac X key (frames fs) \<and>
         (frames fs = frames gs \<longleftrightarrow> fs = gs)"
  using frames_inject [OF assms] by (auto simp: mac_parts_eq mac_fields_eq)

theorem mac_streaming_witness:
  "mac_parts sample (hmac_key_new [7]) [[1], [2]] = hmac sample [7] (concat [[1], [2]]) \<and>
   mac_fields sample (hmac_key_new [7]) [[1], [2]] = hmac sample [7] (frames [[1], [2]]) \<and>
   (frames [[1 :: u8], [2]] = frames [[1, 2]] \<longleftrightarrow> [[1 :: u8], [2]] = [[1, 2]])"
  by (rule mac_streaming) simp_all

end
