(* ===== verification/Context.thy ===== *)
theory Context
  imports Codec Mac Ip
begin

text \<open>
  \<open>pow-gate-core/src/context.rs\<close>: the network a client address belongs to, the scope text of a
  policy, the keyed binding of a client to both, and the order of assurances.
\<close>

subsection \<open>Address policy\<close>

record address_policy =
  ipv4_prefix :: u8
  ipv6_prefix :: u8

definition default_policy :: address_policy where
  "default_policy = \<lparr>ipv4_prefix = 32, ipv6_prefix = 128\<rparr>"

definition policy_valid :: "address_policy \<Rightarrow> bool" where
  "policy_valid p \<longleftrightarrow>
     1 \<le> ipv4_prefix p \<and> ipv4_prefix p \<le> 32 \<and> 1 \<le> ipv6_prefix p \<and> ipv6_prefix p \<le> 128"

definition network :: "address_policy \<Rightarrow> ip_addr \<Rightarrow> ip_addr option" where
  "network p ip =
     (if \<not> policy_valid p then None
      else
        let ip = (case ip of
                    V6 v6 \<Rightarrow> (case to_ipv4_mapped v6 of Some v4 \<Rightarrow> V4 v4 | None \<Rightarrow> ip)
                  | V4 _ \<Rightarrow> ip)
        in Some (case ip of
                   V4 v4 \<Rightarrow> V4 (v4 AND push_bit (unat (32 - ipv4_prefix p)) (-1))
                 | V6 v6 \<Rightarrow> V6 (v6 AND push_bit (unat (128 - ipv6_prefix p)) (-1))))"

subsection \<open>Scope\<close>

record scope =
  sc_tail :: string
  sc_domain :: "string option"

definition scope_new ::
  "externals \<Rightarrow> string option \<Rightarrow> string \<Rightarrow> string \<Rightarrow> string \<Rightarrow> string \<Rightarrow> scope" where
  "scope_new X domain name path endpoint policy =
     (let flds = json_tuple X [name, path, endpoint, policy];
          tail = '','' @ drop 1 flds;
          dom = map_option (\<lambda>d.
            let d' = to_ascii_lowercase (trim_start_matches (CHR ''.'') d)
            in if d' = [] then [] else ''['' @ json_str X d' @ tail) domain
      in \<lparr>sc_tail = tail, sc_domain = dom\<rparr>)"

definition for_host :: "externals \<Rightarrow> scope \<Rightarrow> string \<Rightarrow> string option" where
  "for_host X sc host =
     (case sc_domain sc of
        Some domain \<Rightarrow> if domain \<noteq> [] then Some domain else None
      | None \<Rightarrow>
          (let host = trim_start_matches (CHR ''.'') host in
           if host = [] then None
           else
             let host = (if list_ex is_ascii_uppercase host then to_ascii_lowercase host else host);
                 buf = as_bytes ''['' @ as_bytes (json_str X host) @ as_bytes (sc_tail sc)
             in from_utf8 buf))"

subsection \<open>Binding and assurance\<close>

definition binding_prepared ::
  "externals \<Rightarrow> hmac_key \<Rightarrow> ip_addr \<Rightarrow> string \<Rightarrow> string \<Rightarrow> bytes \<Rightarrow> address_policy \<Rightarrow> string option" where
  "binding_prepared X key ip user_agent scope issuer address =
     (case network address ip of
        None \<Rightarrow> None
      | Some net \<Rightarrow>
          let prefixes = [ipv4_prefix address, ipv6_prefix address]
          in Some (b64url X (mac_fields X key
               [as_bytes ''pow-gate-context-v2'', as_bytes (ip_to_string net), as_bytes user_agent,
                as_bytes scope, issuer, prefixes])))"

definition binding ::
  "externals \<Rightarrow> bytes \<Rightarrow> ip_addr \<Rightarrow> string \<Rightarrow> string \<Rightarrow> bytes \<Rightarrow> address_policy \<Rightarrow> string option" where
  "binding X key ip user_agent scope issuer address =
     binding_prepared X (hmac_key_new key) ip user_agent scope issuer address"

fun satisfies :: "assurance \<Rightarrow> assurance \<Rightarrow> bool" where
  "satisfies (Pow got) (Pow need) = (need > 0 \<and> got \<ge> need)"
| "satisfies (NoJs got) (NoJs need) = (need > 0 \<and> got \<ge> need)"
| "satisfies _ _ = False"

subsection \<open>Networks\<close>

lemma and_mask_eq_iff:
  fixes a b :: "'a::len word"
  shows "a AND NOT (mask n) = b AND NOT (mask n) \<longleftrightarrow> drop_bit n a = drop_bit n b"
proof
  assume eq: "a AND NOT (mask n) = b AND NOT (mask n)"
  show "drop_bit n a = drop_bit n b"
  proof (rule bit_word_eqI)
    fix k
    show "bit (drop_bit n a) k = bit (drop_bit n b) k"
      using arg_cong [OF eq, of "\<lambda>w. bit w (n + k)"]
      by (cases "n + k < LENGTH('a)")
        (auto simp: bit_drop_bit_eq bit_and_iff bit_not_iff bit_mask_iff not_less dest: bit_imp_le_length)
  qed
next
  assume eq: "drop_bit n a = drop_bit n b"
  show "a AND NOT (mask n) = b AND NOT (mask n)"
  proof (rule bit_word_eqI)
    fix k
    show "bit (a AND NOT (mask n)) k = bit (b AND NOT (mask n)) k"
      using arg_cong [OF eq, of "\<lambda>w. bit w (k - n)"]
      by (cases "n \<le> k") (auto simp: bit_drop_bit_eq bit_and_iff bit_not_iff bit_mask_iff)
  qed
qed

text \<open>The canonical form of a client address: an IPv4-mapped IPv6 address is its IPv4 address.\<close>

fun canonical :: "ip_addr \<Rightarrow> ip_addr" where
  "canonical (V4 a) = V4 a"
| "canonical (V6 a) = (case to_ipv4_mapped a of Some v4 \<Rightarrow> V4 v4 | None \<Rightarrow> V6 a)"

text \<open>Two clients share a network when their canonical addresses have the same family and the
  same leading bits, as many as the policy's prefix says.\<close>

fun same_prefix :: "address_policy \<Rightarrow> ip_addr \<Rightarrow> ip_addr \<Rightarrow> bool" where
  "same_prefix p (V4 a) (V4 b) =
     (drop_bit (32 - unat (ipv4_prefix p)) a = drop_bit (32 - unat (ipv4_prefix p)) b)"
| "same_prefix p (V6 a) (V6 b) =
     (drop_bit (128 - unat (ipv6_prefix p)) a = drop_bit (128 - unat (ipv6_prefix p)) b)"
| "same_prefix p _ _ = False"

lemma network_canonical:
  "network p ip =
     (if policy_valid p then
        Some (case canonical ip of
                V4 v4 \<Rightarrow> V4 (v4 AND push_bit (32 - unat (ipv4_prefix p)) (-1))
              | V6 v6 \<Rightarrow> V6 (v6 AND push_bit (128 - unat (ipv6_prefix p)) (-1)))
      else None)"
proof -
  have "unat (32 - ipv4_prefix p) = 32 - unat (ipv4_prefix p)"
    "unat (128 - ipv6_prefix p) = 128 - unat (ipv6_prefix p)" if "policy_valid p"
    using that by (simp_all add: policy_valid_def unat_sub)
  then show ?thesis by (cases ip) (auto simp: network_def Let_def split: option.split)
qed

lemma network_eq_iff:
  "network p a = network p b \<longleftrightarrow> \<not> policy_valid p \<or> same_prefix p (canonical a) (canonical b)"
  by (cases "canonical a"; cases "canonical b")
    (auto simp: network_canonical and_mask_eq_iff)

lemma network_None_iff: "network p ip = None \<longleftrightarrow> \<not> policy_valid p"
  by (simp add: network_canonical)

subsection \<open>Scopes\<close>

definition normal_host :: "string \<Rightarrow> string" where
  "normal_host h = to_ascii_lowercase (trim_start_matches (CHR ''.'') h)"

lemma lower_if_upper: "(if list_ex is_ascii_uppercase h then to_ascii_lowercase h else h) = to_ascii_lowercase h"
  by (auto simp: list_ex_iff intro!: to_ascii_lowercase_id [symmetric])

lemma scope_tail:
  "json_laws X \<Longrightarrow> ''['' @ json_str X h @ '','' @ drop 1 (json_tuple X [n, p, e, q]) = json_tuple X [h, n, p, e, q]"
  by (simp add: json_tuple_eq)

lemma wf_normal_host: "wf_str h \<Longrightarrow> wf_str (normal_host h)"
  by (simp add: wf_str_def normal_host_def as_bytes_lower utf8_valid_lower utf8_valid_trim_start)

lemma wf_json_tuple: "json_laws X \<Longrightarrow> \<forall>s\<in>set xs. wf_str s \<Longrightarrow> wf_str (json_tuple X xs)"
proof -
  assume X: "json_laws X" and xs: "\<forall>s\<in>set xs. wf_str s"
  from xs have "wf_str (join_comma (map (json_str X) xs))"
    by (induction xs rule: join_comma.induct)
      (auto intro!: wf_str_append json_str_wf [OF X] simp: wf_str_Cons)
  then show ?thesis by (auto simp: json_tuple_eq [OF X] wf_str_Cons intro: wf_str_append)
qed

lemma from_utf8_wf: "wf_str s \<Longrightarrow> from_utf8 (as_bytes s) = Some s"
  by (simp add: from_utf8_def wf_str_def)

lemma for_host_eq:
  assumes "json_laws X" "wf_str host" "wf_str n" "wf_str p" "wf_str e" "wf_str q"
  shows "for_host X (scope_new X domain n p e q) host =
     (let h = normal_host (case domain of Some d \<Rightarrow> d | None \<Rightarrow> host)
      in if h = [] then None else Some (json_tuple X [h, n, p, e, q]))"
proof (cases domain)
  case None
  let ?h = "normal_host host"
  have "wf_str (json_tuple X [?h, n, p, e, q])"
    using assms by (intro wf_json_tuple) (simp_all add: wf_normal_host)
  then have "from_utf8 (as_bytes (''['' @ json_str X ?h @ '','' @ drop 1 (json_tuple X [n, p, e, q])))
      = Some (json_tuple X [?h, n, p, e, q])"
    using from_utf8_wf unfolding scope_tail [OF assms(1)] by blast
  then show ?thesis using None
    unfolding for_host_def scope_new_def Let_def lower_if_upper normal_host_def
    by (simp del: as_bytes_append add: as_bytes_append [symmetric])
next
  case (Some d)
  have "json_tuple X xs \<noteq> []" for xs by (simp add: json_tuple_eq [OF assms(1)])
  with Some show ?thesis using scope_tail [OF assms(1)]
    by (simp add: for_host_def scope_new_def Let_def normal_host_def)
qed

subsection \<open>Bindings\<close>

text \<open>The message a binding authenticates.\<close>

definition context_message ::
  "ip_addr \<Rightarrow> string \<Rightarrow> string \<Rightarrow> bytes \<Rightarrow> address_policy \<Rightarrow> bytes" where
  "context_message net user_agent scope issuer p =
     frames [as_bytes ''pow-gate-context-v2'', as_bytes (ip_to_string net), as_bytes user_agent,
             as_bytes scope, issuer, [ipv4_prefix p, ipv6_prefix p]]"

lemma binding_eq:
  "binding X key ip ua sc iss p =
     map_option (\<lambda>net. b64url X (hmac X key (context_message net ua sc iss p))) (network p ip)"
  by (simp add: binding_def binding_prepared_def mac_fields_eq context_message_def split: option.split)

lemma context_message_inject:
  assumes "length ua < 2 ^ 64" "length sc < 2 ^ 64" "length iss < 2 ^ 64"
    "length ua' < 2 ^ 64" "length sc' < 2 ^ 64" "length iss' < 2 ^ 64"
  shows "context_message net ua sc iss p = context_message net' ua' sc' iss' p' \<longleftrightarrow>
     net = net' \<and> ua = ua' \<and> sc = sc' \<and> iss = iss' \<and>
     ipv4_prefix p = ipv4_prefix p' \<and> ipv6_prefix p = ipv6_prefix p'"
proof
  assume eq: "context_message net ua sc iss p = context_message net' ua' sc' iss' p'"
  have ip: "length (ip_to_string a) < 2 ^ 64" for a
    using length_ip_to_string [of a] by simp
  have "[as_bytes ''pow-gate-context-v2'', as_bytes (ip_to_string net), as_bytes ua, as_bytes sc, iss,
          [ipv4_prefix p, ipv6_prefix p]]
      = [as_bytes ''pow-gate-context-v2'', as_bytes (ip_to_string net'), as_bytes ua', as_bytes sc', iss',
          [ipv4_prefix p', ipv6_prefix p']]"
    by (rule frames_inject) (use assms ip eq in \<open>simp_all add: context_message_def\<close>)
  then show "net = net' \<and> ua = ua' \<and> sc = sc' \<and> iss = iss' \<and>
     ipv4_prefix p = ipv4_prefix p' \<and> ipv6_prefix p = ipv6_prefix p'"
    by (simp add: ip_to_string_inject)
qed (simp add: context_message_def)

lemma satisfies_trans: "satisfies a b \<Longrightarrow> satisfies b c \<Longrightarrow> satisfies a c"
  by (cases a; cases b; cases c) auto

subsection \<open>Properties\<close>

text \<open>
  Two addresses are one client network exactly when, after reading an IPv4-mapped IPv6
  address as its IPv4 address, they have the same family and agree on the leading bits that the
  policy's prefix counts; an invalid policy has no network at all.
\<close>

theorem network_groups_by_prefix:
  "(if policy_valid p
    then network p a \<noteq> None \<and>
         (network p a = network p b \<longleftrightarrow> same_prefix p (canonical a) (canonical b))
    else network p a = None)"
  using network_eq_iff [of p a b] network_None_iff [of p a] by simp

text \<open>
  C21. The context binding identifies the client and the policy: clients of one network with the
  same User-Agent, scope, issuer and prefixes get the same binding, and two requests with the
  same binding agree on all of these or exhibit two different messages with the same HMAC under
  the signing key.
\<close>

theorem binding_identifies_context:
  assumes "base64_laws X"
    and "length ua < 2 ^ 64" "length sc < 2 ^ 64" "length iss < 2 ^ 64"
    and "length ua' < 2 ^ 64" "length sc' < 2 ^ 64" "length iss' < 2 ^ 64"
    and "network p ip = Some net" "network p' ip' = Some net'"
  shows "binding X key ip ua sc iss p = binding X key ip' ua' sc' iss' p' \<longleftrightarrow>
     net = net' \<and> ua = ua' \<and> sc = sc' \<and> iss = iss' \<and>
       ipv4_prefix p = ipv4_prefix p' \<and> ipv6_prefix p = ipv6_prefix p' \<or>
     context_message net ua sc iss p \<noteq> context_message net' ua' sc' iss' p' \<and>
       hmac X key (context_message net ua sc iss p) = hmac X key (context_message net' ua' sc' iss' p')"
  using context_message_inject [OF assms(2-7), of net p net' p'] assms(1,8,9)
  unfolding binding_eq by auto

theorem binding_identifies_context_witness:
  "binding sample [7] (V4 0x01020304) ''ua'' ''s'' [1] \<lparr>ipv4_prefix = 24, ipv6_prefix = 64\<rparr>
     = binding sample [7] (V6 0xffff01020305) ''ua'' ''s'' [1] \<lparr>ipv4_prefix = 24, ipv6_prefix = 64\<rparr>"
proof -
  let ?p = "\<lparr>ipv4_prefix = 24, ipv6_prefix = 64\<rparr> :: address_policy"
  have n1: "network ?p (V4 0x01020304) = Some (V4 0x01020300)" by code_simp
  have n2: "network ?p (V6 0xffff01020305) = Some (V4 0x01020300)" by code_simp
  show ?thesis
    by (rule binding_identifies_context [OF sample_base64_laws _ _ _ _ _ _ n1 n2, THEN iffD2]) simp_all
qed

text \<open>
  C37. The scope text is the JSON array of the normalised domain or host (leading dots removed,
  ASCII lower case) and the four policy fields, computed from the prepared tail without
  serialising those again; it is absent exactly when the normalised name is empty. Distinct
  policies or hosts have distinct scope texts.
\<close>

theorem for_host_is_json_scope:
  assumes "json_laws X"
    and "wf_str host" "wf_str n" "wf_str p" "wf_str e" "wf_str q"
  shows "for_host X (scope_new X domain n p e q) host =
           (let h = normal_host (case domain of Some d \<Rightarrow> d | None \<Rightarrow> host)
            in if h = [] then None else Some (json_tuple X [h, n, p, e, q])) \<and>
         (json_tuple X [h, n, p, e, q] = json_tuple X [h', n', p', e', q'] \<longleftrightarrow>
           h = h' \<and> n = n' \<and> p = p' \<and> e = e' \<and> q = q')"
  by (rule conjI [OF for_host_eq [OF assms]]) (simp add: json_tuple_inject [OF assms(1)])

theorem for_host_is_json_scope_witness:
  "for_host sample (scope_new sample None ''n'' ''/'' ''/e/'' ''d'') ''.A.b''
     = Some (json_tuple sample [''a.b'', ''n'', ''/'', ''/e/'', ''d''])"
proof -
  have wf: "wf_str s" if "\<forall>c\<in>set s. (of_char c :: u8) < 128" for s
    unfolding wf_str_def using that by (intro utf8_valid_ascii) (auto simp: as_bytes_def)
  have "normal_host ''.A.b'' = ''a.b''"
    by code_simp
  with for_host_is_json_scope [OF sample_json_laws, of "''.A.b''" "''n''" "''/''" "''/e/''" "''d''" None] wf
  show ?thesis by simp
qed

end
