(* ===== verification/Runtime.thy ===== *)
theory Runtime
  imports Response Context
begin

text \<open>
  \<open>runtime.rs\<close>: what a handler reads off a request and off its location. The location's merged
  directives (\<open>LocationConf\<close> of \<open>config.rs\<close>) are resolved once per worker into a \<open>cfg\<close>, with
  the HMAC key read through a cache; cookies, headers, the client address and the request body are
  read from nginx's structures; the context of a client and its \<open>Set-Cookie\<close> text are built.
\<close>

subsection \<open>Configuration\<close>

text \<open>
  Flags are \<open>ngx_flag_t\<close> (\<open>-1\<close> while unset), counts \<open>ngx_uint_t\<close>, times \<open>time_t\<close>. A null
  complex value is \<open>None\<close>; \<open>lc_resolved\<close> is the address of the location's \<open>OnceLock\<close>.
\<close>

record location_conf =
  lc_resolved :: nat
  lc_enabled :: int
  lc_trusted :: "complex_value option"
  lc_decision :: "complex_value option"
  lc_page_path :: string
  lc_page_cache :: bytes
  lc_nojs_page_path :: string
  lc_nojs_page_cache :: bytes
  lc_difficulty :: u64
  lc_hmac_key_file :: string
  lc_clearance_ttl :: i64
  lc_proof_skew :: i64
  lc_require_proof :: int
  lc_ipv4_prefix :: u64
  lc_ipv6_prefix :: u64
  lc_policy :: string
  lc_endpoint :: string
  lc_replay :: int
  lc_replay_max_body :: usize
  lc_cookie_name :: string
  lc_cookie_effective_name :: string
  lc_cookie_scope_suffix :: int
  lc_cookie_domain :: string
  lc_cookie_path :: string
  lc_cookie_samesite :: string
  lc_cookie_secure :: int
  lc_cookie_httponly :: int

definition MIN_HMAC_KEY_LEN :: usize where "MIN_HMAC_KEY_LEN = 16"

record cookie_config =
  cc_name :: string
  cc_domain :: "string option"
  cc_path :: string
  cc_samesite :: string
  cc_secure :: bool
  cc_http_only :: bool
  cc_max_age_secs :: i64

record cfg =
  cf_authenticator :: hmac_key
  cf_scope :: scope
  cf_key :: bytes
  cf_key_ok :: bool
  cf_difficulty :: u64
  cf_address :: address_policy
  cf_clearance_ttl :: i64
  cf_proof_skew :: i64
  cf_require_proof :: bool
  cf_replay :: bool
  cf_replay_max_body :: usize
  cf_endpoint :: string
  cf_cookie :: cookie_config

definition nonempty :: "string \<Rightarrow> string \<Rightarrow> string" where
  "nonempty s dflt = (if s = [] then dflt else s)"

text \<open>
  The process-wide key cache: path to key bytes, with the empty key for a file that was unreadable
  or too short when it was first asked for. \<open>fs\<close> is the file system at that time.
\<close>

type_synonym key_cache = "(string \<times> bytes) list"

definition load_key :: "(string \<Rightarrow> bytes option) \<Rightarrow> string \<Rightarrow> key_cache \<Rightarrow> bytes \<times> key_cache" where
  "load_key fs path keys =
     (case map_of keys path of
        Some k \<Rightarrow> (k, keys)
      | None \<Rightarrow>
          (let bytes = (case fs path of
                          Some b \<Rightarrow> if MIN_HMAC_KEY_LEN \<le> length b then b else []
                        | None \<Rightarrow> [])
           in (bytes, (path, bytes) # keys)))"

definition build_cfg ::
  "externals \<Rightarrow> (string \<Rightarrow> bytes option) \<Rightarrow> location_conf \<Rightarrow> key_cache \<Rightarrow> cfg \<times> key_cache" where
  "build_cfg X fs lc keys =
     (let (key, keys) = load_key fs (lc_hmac_key_file lc) keys;
          key_ok = (MIN_HMAC_KEY_LEN \<le> length key);
          domain = lc_cookie_domain lc;
          scope = scope_new X (if domain \<noteq> [] then Some domain else None)
                    (nonempty (lc_cookie_effective_name lc) ''pow_clearance'')
                    (nonempty (lc_cookie_path lc) ''/'') (lc_endpoint lc) (lc_policy lc)
      in (\<lparr>cf_authenticator = hmac_key_new key,
           cf_scope = scope,
           cf_key = key,
           cf_key_ok = key_ok,
           cf_difficulty = lc_difficulty lc,
           cf_address = \<lparr>ipv4_prefix = ucast (lc_ipv4_prefix lc), ipv6_prefix = ucast (lc_ipv6_prefix lc)\<rparr>,
           cf_clearance_ttl = lc_clearance_ttl lc,
           cf_proof_skew = lc_proof_skew lc,
           cf_require_proof = (lc_require_proof lc \<noteq> 0),
           cf_replay = (lc_replay lc \<noteq> 0),
           cf_replay_max_body = lc_replay_max_body lc,
           cf_endpoint = lc_endpoint lc,
           cf_cookie =
             \<lparr>cc_name = nonempty (lc_cookie_effective_name lc) ''pow_clearance'',
              cc_domain = (if lc_cookie_domain lc = [] then None else Some (lc_cookie_domain lc)),
              cc_path = nonempty (lc_cookie_path lc) ''/'',
              cc_samesite = nonempty (lc_cookie_samesite lc) ''Lax'',
              cc_secure = (lc_cookie_secure lc \<noteq> 0),
              cc_http_only = (lc_cookie_httponly lc \<noteq> 0),
              cc_max_age_secs = lc_clearance_ttl lc\<rparr>\<rparr>, keys))"

text \<open>The lazily initialised cells of the worker's locations, by address.\<close>

type_synonym resolved_cells = "(nat \<times> cfg) list"

definition resolve ::
  "externals \<Rightarrow> (string \<Rightarrow> bytes option) \<Rightarrow> location_conf \<Rightarrow> resolved_cells \<times> key_cache \<Rightarrow>
   cfg \<times> resolved_cells \<times> key_cache" where
  "resolve X fs lc st =
     (let (cells, keys) = st in
      case map_of cells (lc_resolved lc) of
        Some c \<Rightarrow> (c, cells, keys)
      | None \<Rightarrow>
          (let (c, keys) = build_cfg X fs lc keys in (c, (lc_resolved lc, c) # cells, keys)))"

subsection \<open>Reading the request\<close>

definition cookie_value :: "string \<Rightarrow> string \<Rightarrow> string option" where
  "cookie_value v name =
     map_option snd
       (find (\<lambda>kv. fst kv = name)
          (List.map_filter (\<lambda>pair. split_once (CHR ''='') (trim pair)) (split_on (CHR '';'') v)))"

fun cookie_loop :: "string \<Rightarrow> (bytes \<times> bytes) list \<Rightarrow> string option" where
  "cookie_loop name [] = None"
| "cookie_loop name ((k, v) # hs) =
     (if eq_ignore_ascii_case_u8 k (as_bytes ''cookie'') then
        (case cookie_value (from_utf8_lossy v) name of
           Some c \<Rightarrow> Some c
         | None \<Rightarrow> cookie_loop name hs)
      else cookie_loop name hs)"

definition cookie :: "string \<Rightarrow> request \<Rightarrow> string option" where
  "cookie name r = cookie_loop name (rq_headers_in r)"

definition header :: "string \<Rightarrow> request \<Rightarrow> string option" where
  "header name r =
     map_option (\<lambda>kv. from_utf8_lossy (snd kv))
       (find (\<lambda>kv. eq_ignore_ascii_case_u8 (fst kv) (as_bytes name)) (rq_headers_in r))"

definition header_limited :: "string \<Rightarrow> usize \<Rightarrow> request \<Rightarrow> string option" where
  "header_limited name limit r =
     (case find (\<lambda>kv. eq_ignore_ascii_case_u8 (fst kv) (as_bytes name)) (rq_headers_in r) of
        None \<Rightarrow> None
      | Some (_, v) \<Rightarrow> if length v > limit then None else from_utf8 v)"

text \<open>
  The socket address, read by position: the family in host byte order (little-endian), then for
  \<open>AF_INET\<close> the address at offset 4, for \<open>AF_INET6\<close> at offset 8.
\<close>

definition client_ip :: "request \<Rightarrow> ip_addr option" where
  "client_ip r =
     (case rq_sockaddr r of
        None \<Rightarrow> None
      | Some sa \<Rightarrow>
          (let family = int (unat (sa ! 0)) + 256 * int (unat (sa ! 1)) in
           if family = libc_af_inet then Some (V4 (word_rcat [sa ! 4, sa ! 5, sa ! 6, sa ! 7]))
           else if family = libc_af_inet6 then Some (V6 (word_rcat (map (\<lambda>i. sa ! (8 + i)) [0..<16])))
           else None))"

definition method_and_path :: "request \<Rightarrow> string \<times> string" where
  "method_and_path r = (rq_method r, rq_uri r)"

definition content_length :: "request \<Rightarrow> usize option" where
  "content_length r =
     (let n = rq_content_length_n r in if n > 0 then Some (nat n) else None)"

text \<open>
  \<open>pread\<close> (descriptor, count, offset) returns the bytes read, none at the end of the file or on an
  error. The loop asks for what is still missing.
\<close>

type_synonym pread = "nat \<Rightarrow> usize \<Rightarrow> i64 \<Rightarrow> bytes"

function read_file_range :: "pread \<Rightarrow> nat \<Rightarrow> usize \<Rightarrow> i64 \<Rightarrow> bytes \<Rightarrow> bytes option" where
  "read_file_range pr fd len offset filled =
     (if length filled < len then
        (let chunk = pr fd (len - length filled) (offset + int (length filled)) in
         if chunk = [] then None
         else read_file_range pr fd len offset (filled @ chunk))
      else Some filled)"
  by pat_completeness auto
termination
  by (relation "measure (\<lambda>(pr, fd, len, offset, filled). len - length filled)")
    (auto intro!: diff_less_mono2)

declare read_file_range.simps [simp del]

fun body_loop :: "pread \<Rightarrow> usize \<Rightarrow> bytes \<Rightarrow> chain \<Rightarrow> bytes option" where
  "body_loop pr limit out [] = Some out"
| "body_loop pr limit out (None # rest) = body_loop pr limit out rest"
| "body_loop pr limit out (Some b # rest) =
     (if bf_in_file b then
        (case bf_file b of
           Some fd \<Rightarrow>
             if bf_file_last b > bf_file_pos b then
               (let len = nat (bf_file_last b - bf_file_pos b) in
                if len > limit - length out then None
                else case read_file_range pr fd len (bf_file_pos b) [] of
                       None \<Rightarrow> None
                     | Some d \<Rightarrow> body_loop pr limit (out @ d) rest)
             else body_loop pr limit out rest
         | None \<Rightarrow> body_loop pr limit out rest)
      else
        (case bf_data b of
           Some d \<Rightarrow>
             if length d > 0 then
               (if length d > limit - length out then None
                else body_loop pr limit (out @ d) rest)
             else body_loop pr limit out rest
         | None \<Rightarrow> body_loop pr limit out rest))"

definition request_body_limited :: "pread \<Rightarrow> usize \<Rightarrow> request \<Rightarrow> bytes option" where
  "request_body_limited pr limit r =
     (case rq_body r of None \<Rightarrow> None | Some bufs \<Rightarrow> body_loop pr limit [] bufs)"

definition request_body :: "pread \<Rightarrow> request \<Rightarrow> bytes option" where
  "request_body pr r = request_body_limited pr (2 ^ 64 - 1) r"

subsection \<open>Cookie text and client context\<close>

definition build_set_cookie :: "string \<Rightarrow> cookie_config \<Rightarrow> string" where
  "build_set_cookie v c =
     cc_name c @ ''='' @ v
     @ ''; Path='' @ cc_path c
     @ (case cc_domain c of Some d \<Rightarrow> ''; Domain='' @ d | None \<Rightarrow> [])
     @ ''; Max-Age='' @ int_str (cc_max_age_secs c)
     @ ''; SameSite='' @ cc_samesite c
     @ (if cc_secure c \<or> eq_ignore_ascii_case (cc_samesite c) ''None'' then ''; Secure'' else [])
     @ (if cc_http_only c then ''; HttpOnly'' else [])"

text \<open>\<open>issuer\<close> is the identity of the redemption store, if it has one now.\<close>

definition client_context :: "externals \<Rightarrow> bytes option \<Rightarrow> cfg \<Rightarrow> request \<Rightarrow> string option" where
  "client_context X issuer c r =
     (case issuer of
        None \<Rightarrow> None
      | Some iss \<Rightarrow>
          (case client_ip r of
             None \<Rightarrow> None
           | Some ip \<Rightarrow>
               (case for_host X (cf_scope c) (rq_server r) of
                  None \<Rightarrow> None
                | Some sc \<Rightarrow>
                    binding_prepared X (cf_authenticator c) ip
                      (case header ''user-agent'' r of Some ua \<Rightarrow> ua | None \<Rightarrow> [])
                      sc iss (cf_address c))))"

subsection \<open>What the reads depend on\<close>

lemma client_reads:
  assumes "same_client r s"
  shows "cookie name s = cookie name r" "header name s = header name r"
    "header_limited name n s = header_limited name n r" "client_ip s = client_ip r"
    "method_and_path s = method_and_path r" "content_length s = content_length r"
    "request_body_limited pr n s = request_body_limited pr n r"
    "client_context X iss c s = client_context X iss c r"
  using assms
  by (simp_all add: same_client_def cookie_def header_def header_limited_def client_ip_def
      method_and_path_def content_length_def request_body_limited_def client_context_def cong: option.case_cong)

lemma load_key_usable:
  assumes "load_key fs path keys = (k, keys')" "\<forall>b\<in>set (map snd keys). b = [] \<or> MIN_HMAC_KEY_LEN \<le> length b"
  shows "(k = [] \<or> MIN_HMAC_KEY_LEN \<le> length k) \<and>
    (\<forall>b\<in>set (map snd keys'). b = [] \<or> MIN_HMAC_KEY_LEN \<le> length b)"
proof (cases "map_of keys path")
  case None
  then show ?thesis using assms by (auto simp: load_key_def Let_def split: option.splits if_splits)
next
  case (Some k')
  then have "k = k'" "keys' = keys" "k' \<in> set (map snd keys)"
    using assms(1) by (auto simp: load_key_def dest!: map_of_SomeD intro!: image_eqI [of _ snd])
  with assms(2) show ?thesis by blast
qed

subsection \<open>Cookies\<close>

lemma white_space_blank: "w \<in> set white_space \<Longrightarrow> hd w = CHR '' '' \<Longrightarrow> w = '' ''"
proof -
  have "list_all (\<lambda>w. hd w = CHR '' '' \<longrightarrow> w = '' '') white_space" by code_simp
  then show "w \<in> set white_space \<Longrightarrow> hd w = CHR '' '' \<Longrightarrow> w = '' ''" by (simp add: list_all_iff)
qed

lemma blank_white_space: "'' '' \<in> set white_space"
  by code_simp

lemma trim_start_blank: "trim_start (CHR '' '' # s) = trim_start s"
proof -
  have "find (\<lambda>w. w \<noteq> [] \<and> starts_with (CHR '' '' # s) w) white_space = Some '' ''"
  proof (cases "find (\<lambda>w. w \<noteq> [] \<and> starts_with (CHR '' '' # s) w) white_space")
    case None
    then show ?thesis using blank_white_space by (auto simp: find_None_iff starts_with_def)
  next
    case (Some w)
    then have "w \<in> set white_space" "w \<noteq> []" "starts_with (CHR '' '' # s) w" by (auto simp: find_Some_iff)
    with starts_with_hd [of "CHR '' '' # s" w] white_space_blank [of w] Some show ?thesis by auto
  qed
  then show ?thesis unfolding trim_start_def by (simp add: strip_any.simps [of _ "CHR '' '' # s"])
qed

text \<open>
  The \<open>Cookie\<close> header of a client that holds the cookies of \<open>jar\<close>, and the cookies whose name
  and value are tokens such a header can carry.
\<close>

fun cookie_header :: "(string \<times> string) list \<Rightarrow> string" where
  "cookie_header [] = []"
| "cookie_header [(k, v)] = k @ ''='' @ v"
| "cookie_header ((k, v) # kv # rest) = k @ ''='' @ v @ ''; '' @ cookie_header (kv # rest)"

definition cookie_char :: "char \<Rightarrow> bool" where
  "cookie_char c \<longleftrightarrow> printable c \<and> c \<noteq> CHR '';''"

definition cookie_ok :: "string \<times> string \<Rightarrow> bool" where
  "cookie_ok kv \<longleftrightarrow>
     list_all (\<lambda>c. cookie_char c \<and> c \<noteq> CHR ''='') (fst kv) \<and> list_all cookie_char (snd kv)"

lemma cookie_pair_trim:
  assumes "cookie_ok (k, v)"
  shows "trim (k @ CHR ''='' # v) = k @ CHR ''='' # v"
    and "trim (CHR '' '' # k @ CHR ''='' # v) = k @ CHR ''='' # v"
    and "split_once (CHR ''='') (k @ CHR ''='' # v) = Some (k, v)"
    and "CHR '';'' \<notin> set (k @ CHR ''='' # v)"
proof -
  have eq: "printable (CHR ''='')" by (simp add: printable_def)
  have h: "printable (hd (k @ CHR ''='' # v))"
    using assms eq by (cases k) (auto simp: cookie_ok_def cookie_char_def)
  have l: "printable (last (k @ CHR ''='' # v))"
    using assms eq by (cases v rule: rev_cases) (auto simp: cookie_ok_def cookie_char_def)
  show t: "trim (k @ CHR ''='' # v) = k @ CHR ''='' # v" by (rule trim_id) (simp, rule h, rule l)
  then show "trim (CHR '' '' # k @ CHR ''='' # v) = k @ CHR ''='' # v"
    by (simp add: trim_def trim_start_blank)
  show "split_once (CHR ''='') (k @ CHR ''='' # v) = Some (k, v)"
    by (rule split_once_append) (use assms in \<open>unfold cookie_ok_def list_all_iff fst_conv, blast\<close>)
  have "CHR '';'' \<notin> set k" "CHR '';'' \<notin> set v"
    using assms unfolding cookie_ok_def cookie_char_def list_all_iff fst_conv snd_conv by blast+
  then show "CHR '';'' \<notin> set (k @ CHR ''='' # v)" by simp
qed

lemma split_on_plain: "c \<notin> set s \<Longrightarrow> split_on c s = [s]"
  by (induction s) auto

abbreviation cookie_pairs :: "string \<Rightarrow> (string \<times> string) list" where
  "cookie_pairs v \<equiv> List.map_filter (\<lambda>pair. split_once (CHR ''='') (trim pair)) (split_on (CHR '';'') v)"

lemma cookie_pairs_header:
  assumes "\<forall>kv\<in>set jar. cookie_ok kv" "jar \<noteq> []"
  shows "cookie_pairs (cookie_header jar) = jar \<and> cookie_pairs (CHR '' '' # cookie_header jar) = jar"
  using assms
proof (induction jar rule: cookie_header.induct)
  case (2 k v)
  then have ok: "cookie_ok (k, v)" by simp
  note t = cookie_pair_trim [OF ok]
  from t(4) have "CHR '';'' \<notin> set (CHR '' '' # k @ CHR ''='' # v)" by simp
  from split_on_plain [OF t(4)] split_on_plain [OF this] t(1-3)
  show ?case by (simp add: map_filter_simps)
next
  case (3 k v kv rest)
  then have ok: "cookie_ok (k, v)" by simp
  note t = cookie_pair_trim [OF ok]
  from t(4) have t': "CHR '';'' \<notin> set (CHR '' '' # k @ CHR ''='' # v)" by simp
  have "split_on (CHR '';'') (cookie_header ((k, v) # kv # rest)) =
      [k @ CHR ''='' # v] @ split_on (CHR '';'') (CHR '' '' # cookie_header (kv # rest))"
    using split_on_append [of "CHR '';''" "k @ CHR ''='' # v" "CHR '' '' # cookie_header (kv # rest)"]
      split_on_plain [OF t(4)] by simp
  moreover have "split_on (CHR '';'') (CHR '' '' # cookie_header ((k, v) # kv # rest)) =
      [CHR '' '' # k @ CHR ''='' # v] @ split_on (CHR '';'') (CHR '' '' # cookie_header (kv # rest))"
    using split_on_append [of "CHR '';''" "CHR '' '' # k @ CHR ''='' # v" "CHR '' '' # cookie_header (kv # rest)"]
      split_on_plain [OF t'] by simp
  moreover have "cookie_pairs (CHR '' '' # cookie_header (kv # rest)) = kv # rest"
    using 3 by simp
  ultimately show ?case using t(1-3) by (simp add: map_filter_simps)
qed simp

lemma find_map_of: "map_option snd (find (\<lambda>kv. fst kv = name) jar) = map_of jar name"
  by (induction jar) auto

lemma cookie_value_header:
  assumes "\<forall>kv\<in>set jar. cookie_ok kv"
  shows "cookie_value (cookie_header jar) name = map_of jar name"
proof (cases "jar = []")
  case True
  have "strip_any ws [] = []" for ws using strip_any_suffix [of "[]" ws] by simp
  then have "trim [] = []" by (simp add: trim_def trim_start_def trim_end_def)
  with True show ?thesis by (simp add: cookie_value_def map_filter_simps)
next
  case False
  from cookie_pairs_header [OF assms False] show ?thesis by (simp add: cookie_value_def find_map_of)
qed

definition ascii :: "string \<Rightarrow> bool" where
  "ascii s \<longleftrightarrow> list_all (\<lambda>b. b < 128) (as_bytes s)"

lemma ascii_append [simp]: "ascii (a @ b) \<longleftrightarrow> ascii a \<and> ascii b"
  by (simp add: ascii_def)

lemma ascii_Cons [simp]: "ascii (c # s) \<longleftrightarrow> (of_char c :: u8) < 128 \<and> ascii s"
  by (simp add: ascii_def as_bytes_Cons)

lemma ascii_Nil [simp]: "ascii []"
  by (simp add: ascii_def)

lemma ascii_lossy: "ascii s \<Longrightarrow> from_utf8_lossy (as_bytes s) = s"
  by (simp add: ascii_def list_all_iff from_utf8_lossy_def lossy_valid_id utf8_valid_ascii)

lemma cookie_char_ascii: "cookie_char c \<Longrightarrow> (of_char c :: u8) < 128"
  unfolding cookie_char_def printable_def word_less_nat_alt by simp

lemma cookie_chars_ascii: "list_all cookie_char s \<Longrightarrow> ascii s"
  by (induction s) (simp_all add: cookie_char_ascii)

lemma cookie_ok_ascii: "cookie_ok (k, v) \<Longrightarrow> ascii k \<and> ascii v"
  unfolding cookie_ok_def fst_conv snd_conv
  by (auto intro!: cookie_chars_ascii simp: list.pred_mono_strong elim: list.pred_mono_strong)

lemma cookie_header_ascii: "list_all cookie_ok jar \<Longrightarrow> ascii (cookie_header jar)"
  by (induction jar rule: cookie_header.induct) (auto dest: cookie_ok_ascii)

lemma cookie_read:
  assumes "\<forall>kv\<in>set jar. cookie_ok kv" "\<forall>h\<in>set hs. \<not> eq_ignore_ascii_case_u8 (fst h) (as_bytes ''cookie'')"
    and "eq_ignore_ascii_case_u8 k (as_bytes ''cookie'')"
    and "rq_headers_in r = hs @ (k, as_bytes (cookie_header jar)) # hs'" and "map_of jar name = Some v"
  shows "cookie name r = Some v"
proof -
  have "from_utf8_lossy (as_bytes (cookie_header jar)) = cookie_header jar"
    using assms(1) by (intro ascii_lossy cookie_header_ascii) (simp add: list_all_iff)
  with assms(1,3,5) have here: "cookie_loop name ((k, as_bytes (cookie_header jar)) # hs') = Some v"
    by (simp add: cookie_value_header)
  have "cookie_loop name (hs @ rest) = cookie_loop name rest" for rest
    using assms(2) by (induction hs) (auto split: prod.splits)
  with here show ?thesis by (simp add: cookie_def assms(4))
qed

text \<open>
  C34. A cookie survives the trip through a client. The \<open>Set-Cookie\<close> text the module builds is
  the pair \<open>name=value\<close> followed by attributes, and when a client sends that pair back among
  other well-formed cookies, none of which precedes it under the same name, reading the cookie by
  its name gives the value.
\<close>

theorem set_cookie_roundtrip:
  assumes "cookie_ok (cc_name c, v)" "\<forall>kv\<in>set older \<union> set newer. cookie_ok kv"
    and "cc_name c \<notin> fst ` set older"
    and "rq_headers_in r = hs @ (k, as_bytes (cookie_header (older @ (cc_name c, v) # newer))) # hs'"
    and "eq_ignore_ascii_case_u8 k (as_bytes ''cookie'')"
    and "\<forall>h\<in>set hs. \<not> eq_ignore_ascii_case_u8 (fst h) (as_bytes ''cookie'')"
  shows "(\<exists>attributes. split_once (CHR '';'') (build_set_cookie v c) = Some (cookie_header [(cc_name c, v)], attributes)) \<and>
    cookie (cc_name c) r = Some v"
proof
  have "CHR '';'' \<notin> set (cc_name c @ CHR ''='' # v)" using cookie_pair_trim(4) [OF assms(1)] .
  from split_once_append [OF this]
  show "\<exists>attributes. split_once (CHR '';'') (build_set_cookie v c) = Some (cookie_header [(cc_name c, v)], attributes)"
    by (simp add: build_set_cookie_def)
  have "map_of (older @ (cc_name c, v) # newer) (cc_name c) = Some v"
    using assms(3) map_of_eq_None_iff [of older "cc_name c"] by (simp add: map_add_def)
  with assms show "cookie (cc_name c) r = Some v" by (intro cookie_read [OF _ assms(6,5,4)]) auto
qed

subsection \<open>Request bodies\<close>

text \<open>
  What \<open>pread\<close> promises of a file: some bytes of it from the offset on, no more than asked for,
  and at least one while the offset is inside the file.
\<close>

definition reads_files :: "pread \<Rightarrow> (nat \<Rightarrow> bytes) \<Rightarrow> bool" where
  "reads_files pr files \<longleftrightarrow>
     (\<forall>fd n off. \<exists>k\<le>n. pr fd n (int off) = take k (drop off (files fd)) \<and>
        (0 < n \<and> off < length (files fd) \<longrightarrow> 0 < k))"

lemma read_file_range_step:
  assumes law: "reads_files pr files"
    and le: "length filled \<le> len" and pre: "filled = take (length filled) (drop off (files fd))"
  shows "read_file_range pr fd len (int off) filled =
      (if len = 0 \<or> off + len \<le> length (files fd) then Some (take len (drop off (files fd))) else None)"
  using le pre
proof (induction "len - length filled" arbitrary: filled rule: less_induct)
  case less
  show ?case
  proof (cases "length filled < len")
    case False
    with less.prems(1) have "len = length filled" by simp
    with less.prems(2) show ?thesis
      by (subst read_file_range.simps) (auto dest: arg_cong [where f = length])
  next
    case True
    let ?n = "len - length filled" and ?off = "off + length filled"
    obtain k where k: "k \<le> ?n" "pr fd ?n (int ?off) = take k (drop ?off (files fd))"
      "0 < ?n \<and> ?off < length (files fd) \<longrightarrow> 0 < k"
      using law unfolding reads_files_def by blast
    let ?c = "take k (drop ?off (files fd))"
    have step: "read_file_range pr fd len (int off) filled =
        (if ?c = [] then None else read_file_range pr fd len (int off) (filled @ ?c))"
      using True k(2) by (subst read_file_range.simps) simp
    show ?thesis
    proof (cases "?c = []")
      case True
      with \<open>length filled < len\<close> k(3) have "length (files fd) < off + len" by auto
      with True step \<open>length filled < len\<close> show ?thesis by simp
    next
      case False
      have "take (length filled) (drop off (files fd)) @ ?c = take (length filled + length ?c) (drop off (files fd))"
        by (simp add: take_add add.commute min_def)
      then have pre: "filled @ ?c = take (length (filled @ ?c)) (drop off (files fd))"
        unfolding length_append using less.prems(2) by metis
      have len: "length ?c \<le> len - length filled" "0 < length ?c" using k(1) False by auto
      then have le: "length (filled @ ?c) \<le> len" "len - length (filled @ ?c) < len - length filled"
        using True by (simp_all add: diff_less_mono2 del: length_take length_drop)
      show ?thesis unfolding step if_not_P [OF False] by (rule less.hyps [OF le(2,1) pre])
    qed
  qed
qed

lemmas read_file_range_exact = read_file_range_step [where filled = "[]", simplified]

text \<open>The bytes a buffer stands for, \<open>None\<close> when its file range cannot be read.\<close>

fun buffer_bytes :: "(nat \<Rightarrow> bytes) \<Rightarrow> ngx_buf option \<Rightarrow> bytes option" where
  "buffer_bytes files None = Some []"
| "buffer_bytes files (Some b) =
     (if bf_in_file b then
        (case bf_file b of
           None \<Rightarrow> Some []
         | Some fd \<Rightarrow>
             if bf_file_last b \<le> bf_file_pos b then Some []
             else if nat (bf_file_last b) \<le> length (files fd)
             then Some (take (nat (bf_file_last b - bf_file_pos b)) (drop (nat (bf_file_pos b)) (files fd)))
             else None)
      else Some (case bf_data b of None \<Rightarrow> [] | Some d \<Rightarrow> d))"

definition chain_ok :: "chain \<Rightarrow> bool" where
  "chain_ok ch \<longleftrightarrow> list_all (\<lambda>b. case b of None \<Rightarrow> True | Some b \<Rightarrow> 0 \<le> bf_file_pos b) ch"

lemma body_loop_cons:
  assumes "reads_files pr files" "chain_ok (b # rest)"
  shows "body_loop pr limit out (b # rest) =
     (case buffer_bytes files b of
        None \<Rightarrow> None
      | Some d \<Rightarrow> if length d \<le> limit - length out then body_loop pr limit (out @ d) rest else None)"
proof (cases b)
  case (Some u)
  show ?thesis
  proof (cases "bf_in_file u \<and> bf_file u \<noteq> None \<and> bf_file_pos u < bf_file_last u")
    case False
    then show ?thesis unfolding Some by (auto split: option.splits)
  next
    case True
    then obtain fd where fd: "bf_in_file u" "bf_file u = Some fd" "bf_file_pos u < bf_file_last u" by auto
    from assms(2) Some have pos: "0 \<le> bf_file_pos u" by (simp add: chain_ok_def)
    let ?len = "nat (bf_file_last u - bf_file_pos u)" and ?off = "nat (bf_file_pos u)"
    have range: "?off + ?len = nat (bf_file_last u)" "0 < ?len" using fd(3) pos by auto
    have "read_file_range pr fd ?len (bf_file_pos u) [] =
        (if nat (bf_file_last u) \<le> length (files fd) then Some (take ?len (drop ?off (files fd))) else None)"
      using read_file_range_exact [OF assms(1), of fd ?len ?off] range pos by simp
    then show ?thesis unfolding Some using fd range by (auto simp: Let_def)
  qed
qed simp

lemma body_loop_exact:
  assumes "reads_files pr files" "chain_ok ch"
  shows "body_loop pr limit out ch =
     (case those (map (buffer_bytes files) ch) of
        None \<Rightarrow> None
      | Some ds \<Rightarrow> if length (concat ds) \<le> limit - length out then Some (out @ concat ds) else None)"
  using assms(2)
proof (induction ch arbitrary: out)
  case (Cons b rest)
  then have "chain_ok rest" by (simp add: chain_ok_def)
  note IH = Cons.IH [OF this]
  show ?case unfolding body_loop_cons [OF assms(1) Cons.prems] IH
    by (auto split: option.splits simp del: length_concat)
qed simp

text \<open>
  C33. The body reader returns the request body and nothing else, however nginx has split it
  between memory and the temporary file and however short the file reads come: it returns exactly
  the concatenation of the segments when every file range can be read and the whole fits in the
  limit, and nothing otherwise.
\<close>

theorem request_body_limited_exact:
  assumes "reads_files pr files" "rq_body r = Some ch" "chain_ok ch"
  shows "request_body_limited pr limit r =
     (case those (map (buffer_bytes files) ch) of
        None \<Rightarrow> None
      | Some ds \<Rightarrow> if length (concat ds) \<le> limit then Some (concat ds) else None)"
  using body_loop_exact [OF assms(1,3), of limit "[]"]
  by (auto simp: request_body_limited_def assms(2) split: option.splits)

subsection \<open>Examples\<close>

definition plain_cookie :: cookie_config where
  "plain_cookie =
     \<lparr>cc_name = ''pow'', cc_domain = None, cc_path = ''/'', cc_samesite = ''Lax'', cc_secure = True,
      cc_http_only = True, cc_max_age_secs = 60\<rparr>"

theorem set_cookie_roundtrip_witness:
  "(\<exists>attributes. split_once (CHR '';'') (build_set_cookie ''v.1'' plain_cookie) = Some (''pow=v.1'', attributes)) \<and>
   cookie ''pow'' (blank_request\<lparr>rq_headers_in := [(as_bytes ''Cookie'', as_bytes (cookie_header [(''a'', ''b''), (''pow'', ''v.1'')]))]\<rparr>) = Some ''v.1''"
proof -
  have n: "cc_name plain_cookie = ''pow''" by (simp add: plain_cookie_def)
  have "cookie_ok (''pow'', ''v.1'')" "cookie_ok (''a'', ''b'')" by code_simp+
  moreover have "eq_ignore_ascii_case_u8 (as_bytes ''Cookie'') (as_bytes ''cookie'')" by code_simp
  ultimately show ?thesis
    using set_cookie_roundtrip [of plain_cookie "''v.1''" "[(''a'', ''b'')]" "[]"
        "blank_request\<lparr>rq_headers_in := [(as_bytes ''Cookie'', as_bytes (cookie_header [(''a'', ''b''), (''pow'', ''v.1'')]))]\<rparr>"
        "[]" "as_bytes ''Cookie''" "[]"]
    by (simp add: n)
qed

theorem request_body_limited_exact_witness:
  "request_body_limited (\<lambda>fd n off. take (min n 2) (drop (nat off) [1, 2, 3])) 10
     (blank_request\<lparr>rq_body := Some
        [Some \<lparr>bf_in_file = False, bf_file = None, bf_file_pos = 0, bf_file_last = 0, bf_memory = True, bf_data = Some [9]\<rparr>,
         None,
         Some \<lparr>bf_in_file = True, bf_file = Some 7, bf_file_pos = 0, bf_file_last = 3, bf_memory = False, bf_data = None\<rparr>]\<rparr>)
   = Some [9, 1, 2, 3]"
proof -
  let ?pr = "\<lambda>fd n off. take (min n 2) (drop (nat off) [1, 2, 3]) :: bytes"
  have law: "reads_files ?pr (\<lambda>fd. [1, 2, 3])"
    unfolding reads_files_def by (intro allI, rule_tac x = "min n 2" in exI) auto
  let ?ch = "[Some \<lparr>bf_in_file = False, bf_file = None, bf_file_pos = 0, bf_file_last = 0, bf_memory = True, bf_data = Some [9]\<rparr>,
         None,
         Some \<lparr>bf_in_file = True, bf_file = Some 7, bf_file_pos = 0, bf_file_last = 3, bf_memory = False, bf_data = None\<rparr>]"
  show ?thesis
    using request_body_limited_exact [OF law, of "blank_request\<lparr>rq_body := Some ?ch\<rparr>" ?ch 10]
    by (simp add: chain_ok_def)
qed

end
