(* ===== verification/Verifier.thy ===== *)
theory Verifier
  imports Verdict_Cache Runtime
begin

text \<open>
  \<open>ngx-http-pow-gate/src/verifier.rs\<close>: the registry of verified bots, the feed refreshers, the
  pool of DNS threads and the parser of the \<open>pow_gate_verifier\<close> block. A worker fills its
  registry once, so a verifier's name stands for the shared pointer to it. The resolver of the C
  library and the fetched documents are arguments. A mutex is never poisoned here: nothing that
  runs while one is held can panic.
\<close>

record verifier =
  vf_ranges :: "feed_snapshot option list"
  vf_max_stale :: duration
  vf_urls :: "string list"
  vf_refresh :: duration
  vf_suffixes :: "string list"
  vf_verdicts :: "ip_addr verdict_cache"

type_synonym verifiers = "(string \<times> verifier) list"

definition DNS_CACHE_ENTRIES :: usize where "DNS_CACHE_ENTRIES = 2048"
definition DNS_QUEUE_CAPACITY :: usize where "DNS_QUEUE_CAPACITY = 64"
definition DNS_THREADS :: usize where "DNS_THREADS = 2"

record dns_job =
  dj_verifier :: string
  dj_ip :: ip_addr
  dj_generation :: u64

text \<open>
  The state of a worker: the registry, the snapshots each refresher thread holds, the pool
  (\<open>None\<close> before its first use, \<open>Some None\<close> when no thread could be started, otherwise the jobs
  in the channel) and the jobs its threads have taken.
\<close>

record bots =
  bt_registry :: verifiers
  bt_refreshers :: "(string \<times> feed_snapshot option list) list"
  bt_pool :: "dns_job list option option"
  bt_taken :: "dns_job list"

subsection \<open>Resolution\<close>

text \<open>\<open>getnameinfo\<close> fills the host buffer or fails; \<open>getaddrinfo\<close> gives socket addresses, some
  of which may be null, or fails.\<close>

record resolver =
  rs_getnameinfo :: "bytes \<Rightarrow> bytes option"
  rs_getaddrinfo :: "string \<Rightarrow> bytes option list option"

fun ip_to_sockaddr :: "ip_addr \<Rightarrow> bytes" where
  "ip_to_sockaddr (V4 a) = [word_of_int libc_af_inet, 0, 0, 0] @ word_octets 4 a @ replicate 8 0"
| "ip_to_sockaddr (V6 a) = [word_of_int libc_af_inet6, 0, 0, 0, 0, 0, 0, 0] @ word_octets 16 a @ replicate 4 0"

definition sockaddr_to_ip :: "bytes option \<Rightarrow> ip_addr option" where
  "sockaddr_to_ip sa =
     (case sa of
        None \<Rightarrow> None
      | Some sa \<Rightarrow>
          (let family = int (unat (sa ! 0)) + 256 * int (unat (sa ! 1)) in
           if family = libc_af_inet then Some (V4 (word_rcat (take 4 (drop 4 sa))))
           else if family = libc_af_inet6 then Some (V6 (word_rcat (take 16 (drop 8 sa))))
           else None))"

definition reverse_dns :: "resolver \<Rightarrow> ip_addr \<Rightarrow> string option" where
  "reverse_dns D ip =
     (case rs_getnameinfo D (ip_to_sockaddr ip) of
        None \<Rightarrow> None
      | Some host \<Rightarrow> Some (from_utf8_lossy (takeWhile (\<lambda>b. b \<noteq> 0) host)))"

definition forward_dns :: "resolver \<Rightarrow> string \<Rightarrow> ip_addr list" where
  "forward_dns D host =
     (if CHR 0x00 \<in> set host then []
      else case rs_getaddrinfo D host of
          None \<Rightarrow> []
        | Some res \<Rightarrow> List.map_filter sockaddr_to_ip res)"

definition fcrdns_confirm :: "resolver \<Rightarrow> ip_addr \<Rightarrow> string list \<Rightarrow> bool" where
  "fcrdns_confirm D ip suffixes =
     (case reverse_dns D ip of
        None \<Rightarrow> False
      | Some host \<Rightarrow> fcrdns_confirms host suffixes ip (forward_dns D))"

subsection \<open>The pool and the request path\<close>

text \<open>\<open>spawned n\<close> says whether the \<open>n\<close>-th thread could be started.\<close>

definition dns_pool :: "(nat \<Rightarrow> bool) \<Rightarrow> bots \<Rightarrow> dns_job list option \<times> bots" where
  "dns_pool spawned s =
     (case bt_pool s of
        Some pool \<Rightarrow> (pool, s)
      | None \<Rightarrow>
          (let workers = length (filter spawned [0..<DNS_THREADS]);
               pool = (if workers > 0 then Some [] else None)
           in (pool, s\<lparr>bt_pool := Some pool\<rparr>)))"

definition try_send :: "dns_job \<Rightarrow> dns_job list option \<times> bots \<Rightarrow> bool \<times> bots" where
  "try_send job = (\<lambda>(pool, s).
     case pool of
       None \<Rightarrow> (False, s)
     | Some jobs \<Rightarrow>
         if length jobs < DNS_QUEUE_CAPACITY then (True, s\<lparr>bt_pool := Some (Some (jobs @ [job]))\<rparr>)
         else (False, s))"

definition set_verdicts :: "string \<Rightarrow> (ip_addr verdict_cache \<Rightarrow> ip_addr verdict_cache) \<Rightarrow> bots \<Rightarrow> bots" where
  "set_verdicts name f s =
     (case map_of (bt_registry s) name of
        None \<Rightarrow> s
      | Some v \<Rightarrow>
          s\<lparr>bt_registry := AList.update name (v\<lparr>vf_verdicts := f (vf_verdicts v)\<rparr>) (bt_registry s)\<rparr>)"

definition fcrdns_cached ::
  "(nat \<Rightarrow> bool) \<Rightarrow> string \<Rightarrow> verifier \<Rightarrow> ip_addr \<Rightarrow> instant \<Rightarrow> bots \<Rightarrow> bool \<times> bots" where
  "fcrdns_cached spawned name v ip now s =
     (let (found, verdicts) = cache_begin ip now (vf_verdicts v);
          s = set_verdicts name (\<lambda>_. verdicts) s in
      case found of
        Cached verdict \<Rightarrow> (verdict, s)
      | CacheFull \<Rightarrow> (False, s)
      | Start generation \<Rightarrow>
          (let (queued, s) =
             try_send \<lparr>dj_verifier = name, dj_ip = ip, dj_generation = generation\<rparr> (dns_pool spawned s)
           in (False, if queued then s else set_verdicts name (cache_cancel ip generation) s)))"

text \<open>\<open>now\<close> is the reading at the start, \<open>later\<close> the one before the verdict cache is asked.\<close>

definition verifier_result ::
  "(nat \<Rightarrow> bool) \<Rightarrow> string \<Rightarrow> ip_addr \<Rightarrow> instant \<Rightarrow> instant \<Rightarrow> bots \<Rightarrow> (bool \<times> string) \<times> bots" where
  "verifier_result spawned name ip now later s =
     (case map_of (bt_registry s) name of
        None \<Rightarrow> ((False, ''unknown_verifier''), s)
      | Some v \<Rightarrow>
          (let feeds = List.map_filter id (vf_ranges v) in
           if list_ex (\<lambda>feed. feed_contains feed ip now (vf_max_stale v)) feeds
           then ((True, ''verified_range''), s)
           else
             (let (confirmed, s) =
                (if vf_suffixes v \<noteq> [] then fcrdns_cached spawned name v ip later s else (False, s)) in
              if confirmed then ((True, ''verified_dns''), s)
              else
                (let stale = list_ex (\<lambda>feed. \<not> feed_fresh feed now (vf_max_stale v)) feeds in
                 ((False, if stale then ''feed_stale'' else ''verifier_unconfirmed''), s)))))"

text \<open>A DNS thread takes the first job of the channel; later it resolves and records the verdict.\<close>

definition dns_take :: "bots \<Rightarrow> bots" where
  "dns_take s =
     (case bt_pool s of
        Some (Some (job # jobs)) \<Rightarrow> s\<lparr>bt_pool := Some (Some jobs), bt_taken := job # bt_taken s\<rparr>
      | _ \<Rightarrow> s)"

definition dns_run :: "resolver \<Rightarrow> instant \<Rightarrow> dns_job \<Rightarrow> bots \<Rightarrow> bots" where
  "dns_run D now job s =
     (let s = s\<lparr>bt_taken := remove1 job (bt_taken s)\<rparr> in
      case map_of (bt_registry s) (dj_verifier job) of
        None \<Rightarrow> s
      | Some v \<Rightarrow>
          (let ok = fcrdns_confirm D (dj_ip job) (vf_suffixes v) in
           set_verdicts (dj_verifier job) (cache_complete (dj_ip job) (dj_generation job) ok now) s))"

subsection \<open>Refreshing the feeds\<close>

definition FEED_LIMIT :: usize where "FEED_LIMIT = 8 * 2 ^ 20"

text \<open>\<open>response\<close> is \<open>None\<close> when the request or reading its body fails.\<close>

definition fetch_feed :: "externals \<Rightarrow> bytes option \<Rightarrow> instant \<Rightarrow> feed_snapshot option" where
  "fetch_feed X response now =
     (case response of
        None \<Rightarrow> None
      | Some body \<Rightarrow>
          (let bs = take (FEED_LIMIT + 1) body in
           if length bs > FEED_LIMIT then None else feed_parse X bs now))"

definition store_ranges :: "string \<Rightarrow> feed_snapshot option list \<Rightarrow> verifiers \<Rightarrow> verifiers" where
  "store_ranges name feeds m =
     (case map_of m name of
        None \<Rightarrow> m
      | Some v \<Rightarrow> AList.update name (v\<lparr>vf_ranges := feeds\<rparr>) m)"

text \<open>One source: keep the snapshot on failure, then publish what the thread holds.\<close>

definition refresh_source ::
  "externals \<Rightarrow> string \<Rightarrow> nat \<Rightarrow> bytes option \<Rightarrow> instant \<Rightarrow> bots \<Rightarrow> bots" where
  "refresh_source X name index response now s =
     (case map_of (bt_refreshers s) name of
        None \<Rightarrow> s
      | Some feeds \<Rightarrow>
          (let feeds = (case fetch_feed X response now of
                          Some fresh \<Rightarrow> feeds[index := Some fresh]
                        | None \<Rightarrow> feeds)
           in s\<lparr>bt_refreshers := AList.update name feeds (bt_refreshers s),
                bt_registry := store_ranges name feeds (bt_registry s)\<rparr>))"

text \<open>One turn of the loop over the sources of a verifier, before the thread sleeps.\<close>

definition refresh_round ::
  "externals \<Rightarrow> string \<Rightarrow> (nat \<Rightarrow> bytes option) \<Rightarrow> (nat \<Rightarrow> instant) \<Rightarrow> nat \<Rightarrow> bots \<Rightarrow> bots" where
  "refresh_round X name fetch clock sources s =
     fold (\<lambda>index. refresh_source X name index (fetch index) (clock index)) [0..<sources] s"

definition spawn_refresher :: "string \<times> verifier \<Rightarrow> bots \<Rightarrow> bots" where
  "spawn_refresher = (\<lambda>(name, v) s.
     if vf_urls v = [] then s
     else s\<lparr>bt_refreshers := AList.update name (replicate (length (vf_urls v)) None) (bt_refreshers s)\<rparr>)"

text \<open>\<open>conf\<close> is \<open>None\<close> without an \<open>http\<close> block and \<open>Some None\<close> without a verifier block.\<close>

definition start_refreshers :: "verifiers option option \<Rightarrow> bots \<Rightarrow> bots" where
  "start_refreshers conf s =
     (case conf of
        None \<Rightarrow> s
      | Some main \<Rightarrow>
          (let configured = (case main of None \<Rightarrow> [] | Some m \<Rightarrow> m) in
           fold spawn_refresher configured (s\<lparr>bt_registry := configured\<rparr>)))"

definition no_bots :: bots where
  "no_bots = \<lparr>bt_registry = [], bt_refreshers = [], bt_pool = None, bt_taken = []\<rparr>"

subsection \<open>The configuration block\<close>

record builder =
  bd_name :: string
  bd_urls :: "string list"
  bd_refresh :: duration
  bd_suffixes :: "string list"
  bd_fcrdns_ttl :: duration
  bd_max_stale :: duration

definition arg :: "bytes list \<Rightarrow> nat \<Rightarrow> string option" where
  "arg args i = (if i \<ge> length args then None else Some (from_utf8_lossy (args ! i)))"

definition from_secs :: "nat \<Rightarrow> duration" where "from_secs n = n * second"

definition parse_time :: "string \<Rightarrow> duration option" where
  "parse_time s =
     (let s = trim s;
          (num, mult) =
            (if s = [] then (s, 1)
             else if last s = CHR ''s'' then (butlast s, 1)
             else if last s = CHR ''m'' then (butlast s, 60)
             else if last s = CHR ''h'' then (butlast s, 3600)
             else if last s = CHR ''d'' then (butlast s, 86400)
             else (s, 1))
      in case parse_u64 (trim num) of
           None \<Rightarrow> None
         | Some n \<Rightarrow>
             (let seconds = unat n * mult in
              if seconds \<ge> 2 ^ 64 then None
              else if seconds = 0 \<or> seconds > 365 * 86400 then None
              else Some (from_secs seconds)))"

fun suffix_loop :: "bytes list \<Rightarrow> string list \<Rightarrow> string list" where
  "suffix_loop [] suffixes = suffixes"
| "suffix_loop (a # args) suffixes = suffix_loop args (suffixes @ [from_utf8_lossy a])"

definition verifier_inner :: "bytes list \<Rightarrow> builder \<Rightarrow> builder option" where
  "verifier_inner args b =
     (case arg args 0 of
        None \<Rightarrow> Some b
      | Some directive \<Rightarrow>
          if directive = ''ip_ranges_url'' then
            Some (case arg args 1 of Some u \<Rightarrow> b\<lparr>bd_urls := bd_urls b @ [u]\<rparr> | None \<Rightarrow> b)
          else if directive = ''ip_ranges_max_stale'' then
            map_option (\<lambda>t. b\<lparr>bd_max_stale := t\<rparr>) (Option.bind (arg args 1) parse_time)
          else if directive = ''ip_ranges_refresh'' then
            map_option (\<lambda>t. b\<lparr>bd_refresh := t\<rparr>) (Option.bind (arg args 1) parse_time)
          else if directive = ''fcrdns_suffix'' then
            Some (b\<lparr>bd_suffixes := suffix_loop (drop 1 args) (bd_suffixes b)\<rparr>)
          else if directive = ''fcrdns_ttl'' then
            map_option (\<lambda>t. b\<lparr>bd_fcrdns_ttl := t\<rparr>) (Option.bind (arg args 1) parse_time)
          else None)"

fun block_parse :: "bytes list list \<Rightarrow> builder \<Rightarrow> builder option" where
  "block_parse [] b = Some b"
| "block_parse (l # ls) b = (case verifier_inner l b of None \<Rightarrow> None | Some b' \<Rightarrow> block_parse ls b')"

text \<open>\<open>main\<close> is the pointer in the main configuration; \<open>cleanup\<close> says whether the pool could take
  the cleanup handler.\<close>

definition register :: "builder \<Rightarrow> instant \<Rightarrow> bool \<Rightarrow> verifiers option \<Rightarrow> verifiers option" where
  "register b now cleanup main =
     (if length (bd_urls b) > 32 \<or> bd_max_stale b < bd_refresh b then None
      else
        (let v = \<lparr>vf_ranges = replicate (length (bd_urls b)) None, vf_max_stale = bd_max_stale b,
                  vf_urls = bd_urls b, vf_refresh = bd_refresh b, vf_suffixes = bd_suffixes b,
                  vf_verdicts = cache_new DNS_CACHE_ENTRIES (bd_fcrdns_ttl b) now\<rparr>
         in case main of
              None \<Rightarrow> if cleanup then Some [(bd_name b, v)] else None
            | Some m \<Rightarrow> Some (AList.update (bd_name b) v m)))"

definition pow_gate_verifier_block ::
  "bytes list \<Rightarrow> bytes list list \<Rightarrow> instant \<Rightarrow> bool \<Rightarrow> verifiers option \<Rightarrow> verifiers option" where
  "pow_gate_verifier_block args body now cleanup main =
     (case arg args 1 of
        None \<Rightarrow> None
      | Some name \<Rightarrow>
          (case block_parse body
             \<lparr>bd_name = name, bd_urls = [], bd_refresh = from_secs (12 * 3600), bd_suffixes = [],
              bd_fcrdns_ttl = from_secs 3600, bd_max_stale = from_secs (48 * 3600)\<rparr> of
             None \<Rightarrow> None
           | Some b \<Rightarrow> register b now cleanup main))"

subsection \<open>Socket addresses\<close>

lemma sockaddr_roundtrip: "sockaddr_to_ip (Some (ip_to_sockaddr ip)) = Some ip"
  by (cases ip) (simp_all add: sockaddr_to_ip_def libc_af_inet_def libc_af_inet6_def rcat_octets)

subsection \<open>What a worker can reach\<close>

type_synonym block = "bytes list \<times> bytes list list \<times> instant \<times> bool"

fun load_blocks :: "block list \<Rightarrow> verifiers option \<Rightarrow> verifiers option option" where
  "load_blocks [] main = Some main"
| "load_blocks ((args, body, now, cleanup) # bs) main =
     (case pow_gate_verifier_block args body now cleanup main of
        None \<Rightarrow> None
      | Some main' \<Rightarrow> load_blocks bs (Some main'))"

text \<open>Evidence gathered so far: documents fetched, and resolutions with the resolver's answers.\<close>

datatype bot_event =
    FeedFetched string nat bytes instant
  | NameResolved string ip_addr resolver instant

definition fetched :: "string \<Rightarrow> nat \<Rightarrow> bytes option \<Rightarrow> instant \<Rightarrow> bot_event list" where
  "fetched name index response now =
     (case response of None \<Rightarrow> [] | Some body \<Rightarrow> [FeedFetched name index body now])"

inductive bots_run :: "externals \<Rightarrow> block list \<Rightarrow> bots \<Rightarrow> bot_event list \<Rightarrow> bool" for X blocks where
  bots_start: "load_blocks blocks None = Some main \<Longrightarrow>
    bots_run X blocks (start_refreshers (Some main) no_bots) []"
| bots_ask: "bots_run X blocks s log \<Longrightarrow>
    bots_run X blocks (snd (verifier_result spawned name ip now later s)) log"
| bots_fetch: "bots_run X blocks s log \<Longrightarrow>
    bots_run X blocks (refresh_source X name index response now s) (fetched name index response now @ log)"
| bots_take: "bots_run X blocks s log \<Longrightarrow> bots_run X blocks (dns_take s) log"
| bots_resolve: "bots_run X blocks s log \<Longrightarrow> job \<in> set (bt_taken s) \<Longrightarrow>
    bots_run X blocks (dns_run D now job s) (NameResolved (dj_verifier job) (dj_ip job) D now # log)"

definition verdicts_backed :: "bot_event set \<Rightarrow> string \<Rightarrow> string list \<Rightarrow> ip_addr verdict_cache \<Rightarrow> bool" where
  "verdicts_backed L name suffixes vc \<longleftrightarrow>
     (\<exists>cl. cache_run vc cl \<and>
        (\<forall>k g t. EvComplete k g True t \<in> set cl \<longrightarrow>
           (\<exists>D. NameResolved name k D t \<in> L \<and> fcrdns_confirm D k suffixes)))"

definition snapshots_backed :: "externals \<Rightarrow> bot_event set \<Rightarrow> string \<Rightarrow> feed_snapshot option list \<Rightarrow> bool" where
  "snapshots_backed X L name feeds \<longleftrightarrow>
     (\<forall>i f. i < length feeds \<longrightarrow> feeds ! i = Some f \<longrightarrow>
        (\<exists>body t. FeedFetched name i body t \<in> L \<and> length body \<le> FEED_LIMIT \<and> feed_parse X body t = Some f))"

definition vouched :: "externals \<Rightarrow> bot_event set \<Rightarrow> string \<Rightarrow> verifier \<Rightarrow> bool" where
  "vouched X L name v \<longleftrightarrow>
     length (vf_ranges v) = length (vf_urls v) \<and> snapshots_backed X L name (vf_ranges v) \<and>
     verdicts_backed L name (vf_suffixes v) (vf_verdicts v)"

definition bots_ok :: "externals \<Rightarrow> bot_event set \<Rightarrow> bots \<Rightarrow> bool" where
  "bots_ok X L s \<longleftrightarrow>
     (\<forall>name v. map_of (bt_registry s) name = Some v \<longrightarrow> vouched X L name v) \<and>
     (\<forall>name feeds. map_of (bt_refreshers s) name = Some feeds \<longrightarrow>
        (\<exists>v. map_of (bt_registry s) name = Some v \<and> vf_ranges v = feeds))"

lemma vouched_mono: "vouched X L name v \<Longrightarrow> L \<subseteq> M \<Longrightarrow> vouched X M name v"
  unfolding vouched_def snapshots_backed_def verdicts_backed_def by (meson subsetD)

lemma bots_ok_mono: "bots_ok X L s \<Longrightarrow> L \<subseteq> M \<Longrightarrow> bots_ok X M s"
  unfolding bots_ok_def by (meson vouched_mono)

lemma bots_okD: "bots_ok X L s \<Longrightarrow> map_of (bt_registry s) name = Some v \<Longrightarrow> vouched X L name v"
  by (simp add: bots_ok_def)

lemma bots_ok_pool [simp]:
  "bots_ok X L (s\<lparr>bt_pool := p\<rparr>) = bots_ok X L s" "bots_ok X L (s\<lparr>bt_taken := q\<rparr>) = bots_ok X L s"
  by (simp_all add: bots_ok_def)

lemma bots_ok_registry:
  assumes "bots_ok X L s" "map_of (bt_registry s) name = Some v" "vouched X L name w" "vf_ranges w = vf_ranges v"
  shows "bots_ok X L (s\<lparr>bt_registry := AList.update name w (bt_registry s)\<rparr>)"
  using assms by (fastforce simp: bots_ok_def update_conv)

lemma set_verdicts_ok:
  assumes "bots_ok X L s"
    "\<And>v. map_of (bt_registry s) name = Some v \<Longrightarrow> verdicts_backed L name (vf_suffixes v) (f (vf_verdicts v))"
  shows "bots_ok X L (set_verdicts name f s)"
proof (cases "map_of (bt_registry s) name")
  case (Some v)
  then show ?thesis using assms(2) [OF Some] bots_okD [OF assms(1) Some]
    by (auto simp: set_verdicts_def vouched_def intro!: bots_ok_registry [OF assms(1) Some])
qed (use assms(1) in \<open>simp add: set_verdicts_def\<close>)

subsection \<open>The verdict cache keeps its evidence\<close>

lemma backed_begin: "verdicts_backed L name sfx vc \<Longrightarrow> verdicts_backed L name sfx (snd (cache_begin k now vc))"
  unfolding verdicts_backed_def
  by (metis (no_types, lifting) bot_event.distinct cache_event.distinct(1) prod.collapse run_begin set_ConsD)

lemma backed_cancel: "verdicts_backed L name sfx vc \<Longrightarrow> verdicts_backed L name sfx (cache_cancel k g vc)"
  unfolding verdicts_backed_def by (metis cache_event.distinct(5) run_cancel set_ConsD)

lemma backed_complete:
  assumes "verdicts_backed L name sfx vc" "ok \<Longrightarrow> \<exists>D. NameResolved name k D now \<in> L \<and> fcrdns_confirm D k sfx"
  shows "verdicts_backed L name sfx (cache_complete k g ok now vc)"
proof -
  from assms(1) obtain cl where cl: "cache_run vc cl"
    "\<forall>k g t. EvComplete k g True t \<in> set cl \<longrightarrow> (\<exists>D. NameResolved name k D t \<in> L \<and> fcrdns_confirm D k sfx)"
    unfolding verdicts_backed_def by blast
  show ?thesis unfolding verdicts_backed_def
    by (rule exI [of _ "EvComplete k g ok now # cl"]) (use cl assms(2) in \<open>auto intro: run_complete\<close>)
qed

lemma begin_true_backed:
  assumes "verdicts_backed L name sfx vc" "cache_begin ip now vc = (Cached True, vc')"
  shows "\<exists>D t. NameResolved name ip D t \<in> L \<and> fcrdns_confirm D ip sfx \<and> now - t < vc_ttl vc"
proof -
  from assms(1) obtain cl where cl: "cache_run vc cl"
    "\<And>k g t. EvComplete k g True t \<in> set cl \<Longrightarrow> \<exists>D. NameResolved name k D t \<in> L \<and> fcrdns_confirm D k sfx"
    unfolding verdicts_backed_def by blast
  from assms(2) cache_run_wf [OF cl(1)] show ?thesis
  proof (rule begin_cases)
    fix e assume e: "map_of (vc_entries vc) ip = Some e" "live vc now e" "Cached True = Cached (ce_verdict e)"
    with cache_run_backed [OF cl(1)] have "EvComplete ip (ce_generation e) True (ce_at e) \<in> set cl"
      by (simp add: backed_def)
    with cl(2) e(2) show ?thesis unfolding live_def by blast
  qed simp_all
qed

subsection \<open>Every step keeps the evidence\<close>

lemma dns_pool_ok: "bots_ok X L s \<Longrightarrow> bots_ok X L (snd (dns_pool spawned s))"
  by (simp add: dns_pool_def Let_def split: option.split)

lemma try_send_ok: "bots_ok X L (snd ps) \<Longrightarrow> bots_ok X L (snd (try_send job ps))"
  by (cases ps) (simp add: try_send_def split: option.split)

lemma fcrdns_cached_ok:
  assumes "bots_ok X L s" "map_of (bt_registry s) name = Some v"
  shows "bots_ok X L (snd (fcrdns_cached spawned name v ip now s))"
proof -
  obtain found vc where b: "cache_begin ip now (vf_verdicts v) = (found, vc)" by fastforce
  have s1: "bots_ok X L (set_verdicts name (\<lambda>_. vc) s)"
    using backed_begin [of L name "vf_suffixes v" "vf_verdicts v" ip now] bots_okD [OF assms] b assms(2)
    by (auto intro!: set_verdicts_ok [OF assms(1)] simp: vouched_def)
  have cancel: "bots_ok X L t \<Longrightarrow> bots_ok X L (set_verdicts name (cache_cancel ip g) t)" for t g
    using set_verdicts_ok backed_cancel bots_okD unfolding vouched_def by meson
  show ?thesis
    using try_send_ok [OF dns_pool_ok [OF s1]] cancel s1
    by (auto simp: fcrdns_cached_def b Let_def case_prod_beta split: lookup.split)
qed

lemma verifier_result_ok: "bots_ok X L s \<Longrightarrow> bots_ok X L (snd (verifier_result spawned name ip now later s))"
  by (auto simp: verifier_result_def Let_def case_prod_beta fcrdns_cached_ok split: option.split)

lemma dns_take_ok: "bots_ok X L s \<Longrightarrow> bots_ok X L (dns_take s)"
  by (auto simp: dns_take_def bots_ok_def split: option.split list.split)

lemma dns_run_ok:
  assumes "bots_ok X L s" "NameResolved (dj_verifier job) (dj_ip job) D now \<in> L"
  shows "bots_ok X L (dns_run D now job s)"
proof (cases "map_of (bt_registry s) (dj_verifier job)")
  case (Some v)
  from bots_okD [OF assms(1) Some] assms(2) show ?thesis
    by (auto simp: dns_run_def Some assms(1) vouched_def intro!: set_verdicts_ok backed_complete)
qed (use assms in \<open>simp add: dns_run_def\<close>)

lemma fetch_feed_evidence:
  "fetch_feed X response now = Some f \<Longrightarrow>
   \<exists>body. response = Some body \<and> length body \<le> FEED_LIMIT \<and> feed_parse X body now = Some f"
  by (auto simp: fetch_feed_def Let_def split: option.splits if_splits)

lemma snapshots_update:
  assumes "snapshots_backed X L name feeds" "FeedFetched name index body t \<in> L" "length body \<le> FEED_LIMIT"
    "feed_parse X body t = Some f"
  shows "snapshots_backed X L name (feeds[index := Some f])"
  unfolding snapshots_backed_def
proof (intro allI impI)
  fix i g assume "i < length (feeds[index := Some f])" "feeds[index := Some f] ! i = Some g"
  then show "\<exists>body t. FeedFetched name i body t \<in> L \<and> length body \<le> FEED_LIMIT \<and> feed_parse X body t = Some g"
    using assms by (cases "i = index") (auto simp: snapshots_backed_def)
qed

lemma refresh_source_ok:
  assumes ok: "bots_ok X L s" and ev: "set (fetched name index response now) \<subseteq> L"
  shows "bots_ok X L (refresh_source X name index response now s)"
proof (cases "map_of (bt_refreshers s) name")
  case (Some feeds)
  with ok obtain v where v: "map_of (bt_registry s) name = Some v" "vf_ranges v = feeds"
    unfolding bots_ok_def by meson
  let ?feeds = "case fetch_feed X response now of Some fresh \<Rightarrow> feeds[index := Some fresh] | None \<Rightarrow> feeds"
  note old = bots_okD [OF ok v(1), unfolded vouched_def v(2)]
  have "snapshots_backed X L name ?feeds"
  proof (cases "fetch_feed X response now")
    case fresh: (Some f)
    with ev old show ?thesis by (auto simp: fetched_def intro!: snapshots_update dest!: fetch_feed_evidence)
  qed (use old in simp)
  then have "vouched X L name (v\<lparr>vf_ranges := ?feeds\<rparr>)"
    using old by (simp add: vouched_def split: option.split)
  then obtain feeds' where new: "?feeds = feeds'" "vouched X L name (v\<lparr>vf_ranges := feeds'\<rparr>)" by blast
  have "refresh_source X name index response now s =
      s\<lparr>bt_refreshers := AList.update name feeds' (bt_refreshers s),
        bt_registry := AList.update name (v\<lparr>vf_ranges := feeds'\<rparr>) (bt_registry s)\<rparr>"
    by (simp add: refresh_source_def Some store_ranges_def Let_def v(1) new(1))
  then show ?thesis
    using ok new(2) by (simp add: bots_ok_def update_conv)
qed (use ok in \<open>simp add: refresh_source_def\<close>)

subsection \<open>A fresh worker\<close>

definition fresh_verifier :: "verifier \<Rightarrow> bool" where
  "fresh_verifier v \<longleftrightarrow>
     vf_ranges v = replicate (length (vf_urls v)) None \<and> length (vf_urls v) \<le> 32 \<and>
     vf_refresh v \<le> vf_max_stale v \<and> (\<exists>ttl now. vf_verdicts v = cache_new DNS_CACHE_ENTRIES ttl now)"

definition fresh_verifiers :: "verifiers option \<Rightarrow> bool" where
  "fresh_verifiers main \<longleftrightarrow>
     (case main of
        None \<Rightarrow> True
      | Some m \<Rightarrow> distinct (map fst m) \<and> (\<forall>(name, v)\<in>set m. fresh_verifier v))"

lemma set_update_subset: "set (AList.update k v m) \<subseteq> insert (k, v) (set m)"
  by (induction m) auto

lemma register_fresh:
  assumes "register b now cleanup main = Some m" "fresh_verifiers main"
  shows "fresh_verifiers (Some m)"
  using assms
  by (fastforce simp: register_def fresh_verifiers_def fresh_verifier_def Let_def distinct_update not_le not_less
      dest!: subsetD [OF set_update_subset] split: if_splits option.splits)

lemma block_fresh:
  "pow_gate_verifier_block args body now cleanup main = Some m \<Longrightarrow> fresh_verifiers main \<Longrightarrow>
   fresh_verifiers (Some m)"
  by (auto simp: pow_gate_verifier_block_def intro: register_fresh split: option.splits)

lemma load_blocks_fresh: "load_blocks bs main = Some main' \<Longrightarrow> fresh_verifiers main \<Longrightarrow> fresh_verifiers main'"
  by (induction bs main rule: load_blocks.induct) (auto intro: block_fresh split: option.splits)

lemma fresh_vouched: "fresh_verifier v \<Longrightarrow> vouched X {} name v"
  by (auto simp: fresh_verifier_def vouched_def snapshots_backed_def verdicts_backed_def intro!: exI [of _ "[]"] run_new)

lemma spawned_refreshers:
  "map_of (bt_refreshers (fold spawn_refresher m s)) name = Some feeds \<Longrightarrow>
   map_of (bt_refreshers s) name = Some feeds \<or>
   (\<exists>v. (name, v) \<in> set m \<and> feeds = replicate (length (vf_urls v)) None)"
  by (induction m arbitrary: s)
    (fastforce simp: spawn_refresher_def update_conv split: if_splits prod.splits)+

lemma spawned_registry [simp]: "bt_registry (fold spawn_refresher m s) = bt_registry s"
  by (induction m arbitrary: s) (auto simp: spawn_refresher_def split: prod.splits)

lemma start_ok:
  assumes "load_blocks blocks None = Some main"
  shows "bots_ok X {} (start_refreshers (Some main) no_bots)"
proof -
  define m where "m = (case main of None \<Rightarrow> [] | Some m \<Rightarrow> m)"
  have fresh: "distinct (map fst m)" "(name, v) \<in> set m \<Longrightarrow> fresh_verifier v" for name v
    using load_blocks_fresh [OF assms] by (auto simp: fresh_verifiers_def m_def split: option.splits)
  have s: "start_refreshers (Some main) no_bots = fold spawn_refresher m (no_bots\<lparr>bt_registry := m\<rparr>)"
    by (simp add: start_refreshers_def m_def Let_def)
  have "\<exists>v. map_of m name = Some v \<and> vf_ranges v = feeds"
    if "map_of (bt_refreshers (fold spawn_refresher m (no_bots\<lparr>bt_registry := m\<rparr>))) name = Some feeds" for name feeds
  proof -
    from spawned_refreshers [OF that] obtain v where v: "(name, v) \<in> set m" "feeds = replicate (length (vf_urls v)) None"
      by (auto simp: no_bots_def)
    with fresh show ?thesis by (auto simp: fresh_verifier_def)
  qed
  then show ?thesis
    unfolding s bots_ok_def using fresh(2) fresh_vouched by (simp add: no_bots_def) (meson map_of_SomeD)
qed

lemma bots_run_ok: "bots_run X blocks s log \<Longrightarrow> bots_ok X (set log) s"
proof (induction rule: bots_run.induct)
  case (bots_fetch s log name index response now)
  then show ?case by (intro refresh_source_ok) (auto elim: bots_ok_mono)
next
  case (bots_resolve s log job D now)
  then show ?case by (intro dns_run_ok) (auto elim: bots_ok_mono)
qed (simp_all add: start_ok verifier_result_ok dns_take_ok)

subsection \<open>Properties\<close>

lemma feed_contains_evidence:
  assumes "feed_parse X body t = Some f" "feed_contains f ip now max_stale"
  shows "now - t < max_stale" "\<exists>c\<in>set (feed_accepted X body). in_block (the (cidr_block c)) ip"
  using feed_snapshot_contains [where X = X and bs = body and t = t and ip = ip and now = now and max_stale = max_stale] assms by auto

lemma confirm_evidence:
  "fcrdns_confirm D ip suffixes \<longleftrightarrow>
   (\<exists>host. reverse_dns D ip = Some host \<and> (\<exists>s\<in>set suffixes. host_matches_suffix host s) \<and>
      ip \<in> set (forward_dns D host))"
  by (auto simp: fcrdns_confirm_def fcrdns_confirms_def list_ex_iff split: option.split)

definition range_evidence :: "externals \<Rightarrow> bot_event list \<Rightarrow> string \<Rightarrow> verifier \<Rightarrow> ip_addr \<Rightarrow> instant \<Rightarrow> bool" where
  "range_evidence X log name v ip now \<longleftrightarrow>
     (\<exists>i body t. FeedFetched name i body t \<in> set log \<and> i < length (vf_urls v) \<and> length body \<le> FEED_LIMIT \<and>
        now - t < vf_max_stale v \<and> (\<exists>c\<in>set (feed_accepted X body). in_block (the (cidr_block c)) ip))"

definition dns_evidence :: "bot_event list \<Rightarrow> string \<Rightarrow> verifier \<Rightarrow> ip_addr \<Rightarrow> instant \<Rightarrow> bool" where
  "dns_evidence log name v ip now \<longleftrightarrow>
     (\<exists>D t host. NameResolved name ip D t \<in> set log \<and> now - t < vc_ttl (vf_verdicts v) \<and>
        reverse_dns D ip = Some host \<and> (\<exists>s\<in>set (vf_suffixes v). host_matches_suffix host s) \<and>
        ip \<in> set (forward_dns D host))"

lemma verified_range_evidence:
  assumes "vouched X (set log) name v" "feed \<in> set (List.map_filter id (vf_ranges v))"
    "feed_contains feed ip now (vf_max_stale v)"
  shows "range_evidence X log name v ip now"
proof -
  from assms(2) obtain i where i: "i < length (vf_ranges v)" "vf_ranges v ! i = Some feed"
    by (auto simp: List.map_filter_def in_set_conv_nth)
  with assms(1) obtain body t where "FeedFetched name i body t \<in> set log" "length body \<le> FEED_LIMIT"
    "feed_parse X body t = Some feed" unfolding vouched_def snapshots_backed_def by blast
  with i assms(1) feed_contains_evidence [OF _ assms(3)] show ?thesis
    unfolding range_evidence_def vouched_def by metis
qed

lemma verified_dns_evidence:
  assumes "vouched X (set log) name v" "fst (fcrdns_cached spawned name v ip now s)"
  shows "dns_evidence log name v ip now"
proof -
  from assms(2) have "fst (cache_begin ip now (vf_verdicts v)) = Cached True"
    by (auto simp: fcrdns_cached_def Let_def split: prod.splits lookup.splits)
  then have "cache_begin ip now (vf_verdicts v) = (Cached True, snd (cache_begin ip now (vf_verdicts v)))"
    by (simp add: prod_eq_iff)
  from begin_true_backed [OF _ this, of "set log" name "vf_suffixes v"] assms(1)
  show ?thesis unfolding vouched_def dns_evidence_def confirm_evidence by blast
qed

text \<open>
  C22. A claimed bot is confirmed only on evidence. In every state a worker can reach from a
  loaded configuration, a positive answer for an address names its reason, and either a document
  fetched from one of the verifier's own sources less than \<open>ip_ranges_max_stale\<close> ago lists a block
  with the address, or less than \<open>fcrdns_ttl\<close> ago the address was resolved for this verifier to a
  host below one of its suffixes that resolves back to the very address.
\<close>

theorem verifier_confirms_on_evidence:
  assumes "bots_run X blocks s log" "verifier_result spawned name ip now later s = ((True, reason), s')"
  shows "\<exists>v. map_of (bt_registry s) name = Some v \<and>
    (reason = ''verified_range'' \<and> range_evidence X log name v ip now \<or>
     reason = ''verified_dns'' \<and> dns_evidence log name v ip later)"
proof (cases "map_of (bt_registry s) name")
  case None
  with assms(2) show ?thesis by (simp add: verifier_result_def)
next
  case (Some v)
  note v = bots_okD [OF bots_run_ok [OF assms(1)] Some]
  show ?thesis
  proof (cases "list_ex (\<lambda>feed. feed_contains feed ip now (vf_max_stale v)) (List.map_filter id (vf_ranges v))")
    case True
    with assms(2) Some verified_range_evidence [OF v] show ?thesis
      by (auto simp: verifier_result_def list_ex_iff)
  next
    case False
    with assms(2) Some have "fst (fcrdns_cached spawned name v ip later s)" "reason = ''verified_dns''"
      by (auto simp: verifier_result_def Let_def case_prod_beta split: if_splits)
    with verified_dns_evidence [OF v] Some show ?thesis by auto
  qed
qed

lemma refresh_source_fields:
  fixes X response now index
  assumes "map_of (bt_registry s) name = Some v" "map_of (bt_refreshers s) name = Some (vf_ranges v)"
  defines "feeds \<equiv> case fetch_feed X response now of Some f \<Rightarrow> (vf_ranges v)[index := Some f] | None \<Rightarrow> vf_ranges v"
  shows "map_of (bt_registry (refresh_source X name index response now s)) name = Some (v\<lparr>vf_ranges := feeds\<rparr>)"
    "map_of (bt_refreshers (refresh_source X name index response now s)) name = Some feeds"
  by (simp_all add: refresh_source_def assms store_ranges_def Let_def update_conv)

text \<open>
  A round of the refresher treats the sources independently: afterwards the published
  snapshot of a source is the freshly parsed one if its fetch succeeded, and otherwise the one it
  had before, whatever happened to the other sources.
\<close>

theorem refresh_round_per_source:
  assumes "map_of (bt_registry s) name = Some v" "map_of (bt_refreshers s) name = Some (vf_ranges v)"
  shows "map_of (bt_registry (refresh_round X name fetch clock (length (vf_ranges v)) s)) name =
     Some (v\<lparr>vf_ranges := map (\<lambda>i. case fetch_feed X (fetch i) (clock i) of
                                     Some f \<Rightarrow> Some f | None \<Rightarrow> vf_ranges v ! i) [0..<length (vf_ranges v)]\<rparr>)"
proof -
  define n where "n = length (vf_ranges v)"
  define now_held where "now_held i = (case fetch_feed X (fetch i) (clock i) of
      Some f \<Rightarrow> Some f | None \<Rightarrow> vf_ranges v ! i)" for i
  define held where "held k = map (\<lambda>i. if i < k then now_held i else vf_ranges v ! i) [0..<n]" for k
  have "k \<le> n \<Longrightarrow>
      map_of (bt_registry (refresh_round X name fetch clock k s)) name = Some (v\<lparr>vf_ranges := held k\<rparr>) \<and>
      map_of (bt_refreshers (refresh_round X name fetch clock k s)) name = Some (held k)" for k
  proof (induction k)
    case 0
    have "held 0 = vf_ranges v" by (simp add: held_def n_def map_nth)
    then show ?case using assms by (simp add: refresh_round_def)
  next
    case (Suc k)
    let ?s = "refresh_round X name fetch clock k s"
    have step: "(case fetch_feed X (fetch k) (clock k) of
        Some f \<Rightarrow> (vf_ranges (v\<lparr>vf_ranges := held k\<rparr>))[k := Some f]
      | None \<Rightarrow> vf_ranges (v\<lparr>vf_ranges := held k\<rparr>)) = held (Suc k)"
      using Suc.prems
      by (auto simp: held_def now_held_def less_Suc_eq nth_list_update intro!: nth_equalityI split: option.split)
    from Suc show ?case
      using refresh_source_fields [where s = ?s and name = name and v = "v\<lparr>vf_ranges := held k\<rparr>" and X = X and
          response = "fetch k" and now = "clock k" and index = k]
      by (simp add: step refresh_round_def)
  qed
  from this [of n] have "map_of (bt_registry (refresh_round X name fetch clock n s)) name =
      Some (v\<lparr>vf_ranges := held n\<rparr>)" by blast
  moreover have "held n = map now_held [0..<n]" by (simp add: held_def)
  ultimately show ?thesis unfolding now_held_def n_def by simp
qed

subsection \<open>Examples\<close>

definition dns_block :: block where
  "dns_block =
     ([as_bytes ''pow_gate_verifier'', as_bytes ''b''],
      [[as_bytes ''fcrdns_suffix'', as_bytes ''b'']], 0, True)"

definition sample_resolver :: resolver where
  "sample_resolver =
     \<lparr>rs_getnameinfo = (\<lambda>sa. Some (as_bytes ''a.b'' @ [0])),
      rs_getaddrinfo = (\<lambda>h. Some [None, Some (ip_to_sockaddr (V4 7))])\<rparr>"

lemma lossy_examples:
  "from_utf8_lossy (as_bytes ''b'') = ''b''"
  "from_utf8_lossy (as_bytes ''fcrdns_suffix'') = ''fcrdns_suffix''"
  "from_utf8_lossy (as_bytes ''a.b'') = ''a.b''"
  by (rule ascii_lossy, simp)+

lemma takeWhile_host: "takeWhile (\<lambda>b. b \<noteq> 0) (as_bytes ''a.b'' @ [0]) = as_bytes ''a.b''"
  by code_simp

lemma host_matches_example: "host_matches_suffix ''a.b'' ''b''"
  by (simp add: host_matches_suffix_def to_ascii_lowercase_def char_lower_def trim_end_matches_def trim_matches_def
      trim_start_matches_def trim_id printable_def ends_with_def starts_with_def)

lemma sockaddr_to_ip_None: "sockaddr_to_ip None = None"
  by (simp add: sockaddr_to_ip_def)

theorem verifier_confirms_on_evidence_witness:
  "\<exists>s log s'. bots_run sample [dns_block] s log \<and>
     verifier_result (\<lambda>_. True) ''b'' (V4 7) 7 7 s = ((True, ''verified_dns''), s') \<and>
     (\<exists>v. map_of (bt_registry s) ''b'' = Some v \<and>
       (''verified_dns'' = ''verified_range'' \<and> range_evidence sample log ''b'' v (V4 7) 7 \<or>
        ''verified_dns'' = ''verified_dns'' \<and> dns_evidence log ''b'' v (V4 7) 7))"
proof -
  define v where "v vc = \<lparr>vf_ranges = [], vf_max_stale = from_secs (48 * 3600), vf_urls = [],
    vf_refresh = from_secs (12 * 3600), vf_suffixes = [''b''], vf_verdicts = vc\<rparr>" for vc
  define vc where "vc = (cache_new DNS_CACHE_ENTRIES (from_secs 3600) 0 :: ip_addr verdict_cache)"
  have block: "load_blocks [dns_block] None = Some (Some [(''b'', v vc)])"
    by (simp add: dns_block_def pow_gate_verifier_block_def arg_def verifier_inner_def lossy_examples
        register_def from_secs_def second_def v_def vc_def)
  let ?s0 = "start_refreshers (Some (Some [(''b'', v vc)])) no_bots"
  have s0: "?s0 = \<lparr>bt_registry = [(''b'', v vc)], bt_refreshers = [], bt_pool = None, bt_taken = []\<rparr>"
    by (simp add: start_refreshers_def Let_def no_bots_def spawn_refresher_def v_def)
  have r0: "bots_run sample [dns_block] ?s0 []" by (rule bots_start [OF block])
  let ?s1 = "snd (verifier_result (\<lambda>_. True) ''b'' (V4 7) 0 5 ?s0)"
  define vc1 where "vc1 = snd (cache_begin (V4 7) 5 vc)"
  have start: "cache_begin (V4 7) 5 vc = (Start 1, vc1)"
    by (simp add: vc1_def vc_def cache_new_def cache_begin_def sweep_def DNS_CACHE_ENTRIES_def Let_def)
  define job where "job = \<lparr>dj_verifier = ''b'', dj_ip = V4 7, dj_generation = 1\<rparr>"
  have s1: "?s1 = \<lparr>bt_registry = [(''b'', v vc1)], bt_refreshers = [], bt_pool = Some (Some [job]), bt_taken = []\<rparr>"
    unfolding s0 by (simp add: verifier_result_def v_def fcrdns_cached_def start set_verdicts_def
        dns_pool_def try_send_def DNS_THREADS_def DNS_QUEUE_CAPACITY_def job_def Let_def)
  let ?s2 = "dns_take ?s1"
  have s2: "?s2 = \<lparr>bt_registry = [(''b'', v vc1)], bt_refreshers = [], bt_pool = Some (Some []), bt_taken = [job]\<rparr>"
    unfolding s1 by (simp add: dns_take_def)
  have r2: "bots_run sample [dns_block] ?s2 []" by (rule bots_take [OF bots_ask [OF r0]])
  let ?s3 = "dns_run sample_resolver 6 job ?s2"
  define vc3 where "vc3 = cache_complete (V4 7) 1 True 6 vc1"
  have ok: "fcrdns_confirm sample_resolver (V4 7) [''b'']"
    by (simp add: fcrdns_confirm_def reverse_dns_def forward_dns_def sample_resolver_def takeWhile_host
        lossy_examples fcrdns_confirms_def List.map_filter_def sockaddr_roundtrip sockaddr_to_ip_None
        host_matches_example del: ip_to_sockaddr.simps)
  have s3: "?s3 = \<lparr>bt_registry = [(''b'', v vc3)], bt_refreshers = [], bt_pool = Some (Some []), bt_taken = []\<rparr>"
    unfolding s2 by (simp add: dns_run_def job_def v_def ok set_verdicts_def vc3_def)
  have r3: "bots_run sample [dns_block] ?s3 [NameResolved ''b'' (V4 7) sample_resolver 6]"
    using bots_resolve [OF r2, of job sample_resolver 6] by (simp add: s2 job_def)
  have hit: "cache_begin (V4 7) 7 vc3 = (Cached True, vc3)"
    by (simp add: vc3_def vc1_def vc_def cache_new_def cache_begin_def sweep_def DNS_CACHE_ENTRIES_def Let_def
        cache_complete_def live_def from_secs_def second_def)
  have res: "verifier_result (\<lambda>_. True) ''b'' (V4 7) 7 7 ?s3 = ((True, ''verified_dns''), ?s3)"
    unfolding s3 by (simp add: verifier_result_def v_def fcrdns_cached_def hit set_verdicts_def Let_def)
  show ?thesis
    by (rule exI, rule exI, rule exI) (rule conjI [OF r3 conjI [OF res verifier_confirms_on_evidence [OF r3 res]]])
qed

theorem refresh_round_per_source_witness:
  "\<exists>s v. map_of (bt_registry s) ''b'' = Some v \<and>
     map_of (bt_registry (refresh_round sample ''b'' (\<lambda>_. None) (\<lambda>_. 5) (length (vf_ranges v)) s)) ''b'' =
       Some (v\<lparr>vf_ranges := map (\<lambda>i. case fetch_feed sample None 5 of
                                       Some f \<Rightarrow> Some f | None \<Rightarrow> vf_ranges v ! i) [0..<length (vf_ranges v)]\<rparr>)"
proof -
  define v where "v = \<lparr>vf_ranges = [None, Some \<lparr>fs_ranges = range_set_new, fs_updated = 1\<rparr>], vf_max_stale = 9,
    vf_urls = [''u'', ''w''], vf_refresh = 3, vf_suffixes = [], vf_verdicts = cache_new 4 4 0\<rparr>"
  define s where "s = \<lparr>bt_registry = [(''b'', v)], bt_refreshers = [(''b'', vf_ranges v)], bt_pool = None, bt_taken = []\<rparr>"
  have s: "map_of (bt_registry s) ''b'' = Some v" "map_of (bt_refreshers s) ''b'' = Some (vf_ranges v)"
    by (simp_all add: s_def)
  show ?thesis using s(1) refresh_round_per_source [OF s] by blast
qed

end
