(* ===== verification/Pages.thy ===== *)
theory Pages
  imports Response Codec
begin

text \<open>
  The page half of \<open>challenge.rs\<close>: placeholder substitution, loading the two templates at
  configuration time, and serving the challenge page, the no-JS page and the solver. The embedded
  files and the package version are the argument \<open>A\<close>, the file system is \<open>fs\<close>.
\<close>

record assets =
  as_page :: bytes
  as_nojs_page :: bytes
  as_solver :: bytes
  as_version :: string

subsection \<open>Substitution\<close>

text \<open>
  The loop of \<open>replace_all\<close> over the rest of the haystack. An empty needle would make it run
  forever, so that not returning is \<open>None\<close>; every caller passes a constant that is not empty.
\<close>

partial_function (option) replace_loop :: "bytes \<Rightarrow> bytes \<Rightarrow> bytes \<Rightarrow> bytes \<Rightarrow> bytes option" where
  "replace_loop needle new haystack out =
     (if haystack = [] then Some out
      else if starts_with haystack needle
      then replace_loop needle new (drop (length needle) haystack) (out @ new)
      else replace_loop needle new (drop 1 haystack) (out @ [haystack ! 0]))"

declare replace_loop.simps [code]

definition replace_all :: "bytes \<Rightarrow> bytes \<Rightarrow> bytes \<Rightarrow> bytes option" where
  "replace_all haystack needle new = replace_loop needle new haystack []"

subsection \<open>Loading\<close>

definition solver_query :: "externals \<Rightarrow> assets \<Rightarrow> string" where
  "solver_query X A = ''v='' @ as_version A @ ''-'' @ b64url X (sha256 X (as_solver A))"

text \<open>\<open>alloc\<close> says whether the configuration pool can hold that many bytes.\<close>

definition load_page ::
  "externals \<Rightarrow> assets \<Rightarrow> (string \<Rightarrow> bytes option) \<Rightarrow> (usize \<Rightarrow> bool) \<Rightarrow> string \<Rightarrow> u64 \<Rightarrow> string \<Rightarrow> bytes option" where
  "load_page X A fs alloc path difficulty endpoint =
     (case (if path = [] then Some (as_page A) else fs path) of
        None \<Rightarrow> None
      | Some raw \<Rightarrow>
          (let versioned = ''{{endpoint}}solver.js?'' @ solver_query X A;
               raw = the (replace_all raw (as_bytes (''{{endpoint}}solver.js'' @ [CHR 0x22]))
                       (as_bytes (versioned @ [CHR 0x22])));
               raw = the (replace_all raw (as_bytes (''{{endpoint}}solver.js'' @ [CHR 0x27]))
                       (as_bytes (versioned @ [CHR 0x27])));
               rendered = the (replace_all raw (as_bytes ''{{difficulty}}'') (as_bytes (nat_str (unat difficulty))));
               rendered = the (replace_all rendered (as_bytes ''{{endpoint}}'') (as_bytes endpoint))
           in if alloc (length rendered) then Some rendered else None))"

definition load_nojs_page ::
  "assets \<Rightarrow> (string \<Rightarrow> bytes option) \<Rightarrow> (usize \<Rightarrow> bool) \<Rightarrow> string \<Rightarrow> bytes option" where
  "load_nojs_page A fs alloc path =
     (case (if path = [] then Some (as_nojs_page A) else fs path) of
        None \<Rightarrow> None
      | Some raw \<Rightarrow> if alloc (length raw) then Some raw else None)"

subsection \<open>Serving\<close>

definition serve_nojs_page :: "nginx \<Rightarrow> bytes \<Rightarrow> string \<Rightarrow> i64 \<Rightarrow> request \<Rightarrow> int \<times> request" where
  "serve_nojs_page N template pass_url delay r =
     (let body = the (replace_all
                   (the (replace_all template (as_bytes ''{{pass_url}}'') (as_bytes pass_url)))
                   (as_bytes ''{{delay}}'') (as_bytes (int_str delay)))
      in send_and_finish_with_headers N HTTP_OK ''text/html; charset=utf-8'' body
           [(''Cache-Control'', ''no-store'')] r)"

definition serve_challenge_page :: "nginx \<Rightarrow> bytes \<Rightarrow> request \<Rightarrow> int \<times> request" where
  "serve_challenge_page N page r =
     send_cached_and_finish N HTTP_OK ''text/html; charset=utf-8'' page [] r"

definition serve_solver :: "externals \<Rightarrow> nginx \<Rightarrow> assets \<Rightarrow> request \<Rightarrow> int \<times> request" where
  "serve_solver X N A r =
     (let cache = (if rq_args r = solver_query X A then ''public, max-age=31536000, immutable''
                   else ''no-store'')
      in send_cached_and_finish N HTTP_OK ''text/javascript; charset=utf-8'' (as_solver A)
           [(''Cache-Control'', cache)] r)"

subsection \<open>The loop is substitution\<close>

text \<open>
  The reference: cut at the first occurrence of the needle, put the new text there, go on behind
  it.
\<close>

function substitute :: "bytes \<Rightarrow> bytes \<Rightarrow> bytes \<Rightarrow> bytes" where
  "substitute needle new hay =
     (case find_sub hay needle of
        None \<Rightarrow> hay
      | Some i \<Rightarrow>
          if needle = [] then hay
          else take i hay @ new @ substitute needle new (drop (i + length needle) hay))"
  by pat_completeness auto
termination
proof (relation "measure (\<lambda>(needle, new, hay). length hay)")
  fix needle new hay :: bytes and i
  assume "find_sub hay needle = Some i" "needle \<noteq> []"
  then show "((needle, new, drop (i + length needle) hay), needle, new, hay)
      \<in> measure (\<lambda>(needle, new, hay). length hay)"
    by (cases hay) (auto split: if_splits)
qed simp

declare substitute.simps [simp del]

lemma substitute_here:
  "starts_with hay needle \<Longrightarrow> hay \<noteq> [] \<Longrightarrow> needle \<noteq> [] \<Longrightarrow>
   substitute needle new hay = new @ substitute needle new (drop (length needle) hay)"
  by (subst substitute.simps) (cases hay; simp)

lemma substitute_next:
  "\<not> starts_with (x # hay) needle \<Longrightarrow> substitute needle new (x # hay) = x # substitute needle new hay"
  by (auto simp: substitute.simps [of needle new "x # hay"] substitute.simps [of needle new hay]
      starts_with_def split: option.splits)

lemma replace_loop_substitute:
  "needle \<noteq> [] \<Longrightarrow> replace_loop needle new hay out = Some (out @ substitute needle new hay)"
proof (induction "length hay" arbitrary: hay out rule: less_induct)
  case less
  show ?case
  proof (cases hay)
    case Nil
    then show ?thesis
      using less.prems by (simp add: replace_loop.simps substitute.simps)
  next
    case (Cons x rest)
    show ?thesis
    proof (cases "starts_with hay needle")
      case True
      have "length (drop (length needle) hay) < length hay" using less.prems Cons by simp
      note IH = less.hyps [OF this less.prems]
      show ?thesis by (subst replace_loop.simps) (use True Cons less.prems IH in \<open>simp add: substitute_here\<close>)
    next
      case False
      have "length rest < length hay" using Cons by simp
      note IH = less.hyps [OF this less.prems]
      show ?thesis by (subst replace_loop.simps) (use False Cons IH in \<open>simp add: substitute_next\<close>)
    qed
  qed
qed

text \<open>
  C36. Placeholder substitution ends for every placeholder that is not empty, on every template,
  and its result is the reference: every leftmost occurrence replaced once, the rest of the
  template kept, and substituted text never looked at again.
\<close>

theorem replace_all_substitutes:
  assumes "needle \<noteq> []"
  shows "replace_all haystack needle new = Some (substitute needle new haystack)"
  by (simp add: replace_all_def replace_loop_substitute [OF assms])

theorem replace_all_substitutes_witness:
  "replace_all (as_bytes ''a{{d}}b{{d}}'') (as_bytes ''{{d}}'') (as_bytes ''{{d}}7'') =
     Some (as_bytes ''a{{d}}7b{{d}}7'')"
proof -
  have "as_bytes ''{{d}}'' \<noteq> []" by simp
  from replace_all_substitutes [OF this, of "as_bytes ''a{{d}}b{{d}}''" "as_bytes ''{{d}}7''"]
  show ?thesis by (simp add: substitute.simps as_bytes_def starts_with_def)
qed

end
