(* ===== verification/Worker.thy ===== *)
theory Worker
  imports Cluster Verifier Pages
begin

text \<open>
  The state of a worker process and its dispatch between the two redemption stores
  (\<open>ngx-http-pow-gate/src/redemption.rs\<close>: \<open>configure\<close>, \<open>init_zone\<close>, \<open>activate\<close>, \<open>issuer\<close>, \<open>redeem\<close>, and
  \<open>engine/mod.rs\<close>: \<open>init_process\<close>). A worker is either in cluster mode, with the redemption
  client of \<open>cluster.rs\<close>, or it uses the shared-memory zone; the zone's content is that of the
  moment a handler runs.
\<close>

text \<open>The main configuration: a zone pointer may be null and its data may be null.\<close>

record main_conf =
  mc_verifiers :: "verifiers option"
  mc_cluster :: "cluster_config option"
  mc_zone :: "zone_state option option"

record worker =
  wk_cluster :: "cluster option"
  wk_zone :: "zone_state option option"
  wk_cells :: resolved_cells
  wk_keys :: key_cache
  wk_bots :: bots

text \<open>
  What a handler finds outside: the wall clock at each place that reads it, the monotonic clock
  (start of a verification, verdict cache), the random generator, the events of the cluster
  client, the address of the request, and the files, threads and nginx functions.
\<close>

datatype reading = AtClearance | AtHeaders | AtIssue | AtBody | AtVerify | AtPass | AtStatus | AtConsume

record gate_env =
  ge_nginx :: nginx
  ge_assets :: assets
  ge_fs :: "string \<Rightarrow> bytes option"
  ge_pread :: pread
  ge_native :: bool
  ge_now :: "reading \<Rightarrow> i64"
  ge_instants :: "instant \<times> instant"
  ge_spawned :: "nat \<Rightarrow> bool"
  ge_rng :: "bytes option"
  ge_cluster :: cluster_env
  ge_request :: nat

subsection \<open>Start\<close>

text \<open>\<open>shm\<close> says whether nginx gave the zone; its data is set by \<open>init_zone\<close> later.\<close>

definition redemption_configure :: "bool \<Rightarrow> main_conf \<Rightarrow> int \<times> main_conf" where
  "redemption_configure shm main =
     (if mc_cluster main \<noteq> None then (NGX_OK, main)
      else if \<not> shm then (NGX_ERROR, main)
      else (NGX_OK, main\<lparr>mc_zone := Some None\<rparr>))"

text \<open>
  Called by nginx for the zone of a new cycle, it gives the status and the data the zone then has:
  that of the cycle before (\<open>old\<close>), or whatever the pool of a zone that exists already points to
  (\<open>existing\<close>, possibly null), or zeroed memory with a random issuer. \<open>slab\<close> says whether the
  allocation in the zone succeeds; the generator may fail too.
\<close>

definition init_zone :: "zone_state option \<Rightarrow> zone_state option option \<Rightarrow> bool \<Rightarrow> bytes option \<Rightarrow> int \<times> zone_state option" where
  "init_zone old existing slab rng =
     (if old \<noteq> None then (NGX_OK, old)
      else case existing of
        Some data \<Rightarrow> (NGX_OK, data)
      | None \<Rightarrow>
          if \<not> slab then (NGX_ERROR, None)
          else
            case rng of
              None \<Rightarrow> (NGX_ERROR, None)
            | Some issuer \<Rightarrow>
                (NGX_OK, Some \<lparr>zs_issuer = issuer, zs_last_now = 0,
                   zs_entries = replicate CAPACITY \<lparr>en_id = replicate 32 0, en_expires = 0\<rparr>\<rparr>))"

definition redemption_activate :: "main_conf option \<Rightarrow> worker \<Rightarrow> bool \<times> worker" where
  "redemption_activate conf w =
     (case conf of
        None \<Rightarrow> (False, w)
      | Some main \<Rightarrow>
          (let w = w\<lparr>wk_cluster := map_option cluster_activate (mc_cluster main), wk_zone := mc_zone main\<rparr> in
           if wk_cluster w \<noteq> None then (True, w)
           else case wk_zone w of None \<Rightarrow> (False, w) | Some data \<Rightarrow> (data \<noteq> None, w)))"

definition init_process :: "main_conf option \<Rightarrow> worker \<Rightarrow> int \<times> worker" where
  "init_process conf w =
     (let (ok, w) = redemption_activate conf w in
      if \<not> ok then (NGX_ERROR, w)
      else (NGX_OK, w\<lparr>wk_bots := start_refreshers (map_option mc_verifiers conf) (wk_bots w)\<rparr>))"

definition new_worker :: worker where
  "new_worker = \<lparr>wk_cluster = None, wk_zone = None, wk_cells = [], wk_keys = [], wk_bots = no_bots\<rparr>"

subsection \<open>The redemption store\<close>

definition zone_data :: "worker \<Rightarrow> zone_state option" where
  "zone_data w = (case wk_zone w of None \<Rightarrow> None | Some data \<Rightarrow> data)"

definition set_zone_data :: "zone_state option \<Rightarrow> worker \<Rightarrow> worker" where
  "set_zone_data data w = w\<lparr>wk_zone := map_option (\<lambda>_. data) (wk_zone w)\<rparr>"

definition issuer :: "worker \<Rightarrow> bytes option" where
  "issuer w =
     (case wk_cluster w of
        Some c \<Rightarrow> cluster_issuer c
      | None \<Rightarrow> zone_issuer (zone_data w))"

definition store_down :: "gate_env \<Rightarrow> worker \<Rightarrow> bool" where
  "store_down E w \<longleftrightarrow>
     (case wk_cluster w of None \<Rightarrow> False | Some c \<Rightarrow> \<not> available (ce_msec (ge_cluster E)) c)"

text \<open>
  Redemption on behalf of a request. In cluster mode the client may finish this very request
  during the call (a refusal, or a connection that fails at once): those calls of \<open>finish\<close> are
  carried out on it; an answer that comes later is delivered by the event that brings it.
\<close>

definition deliver ::
  "nginx \<Rightarrow> nat \<Rightarrow> (nat \<times> outcome \<times> redeem_grant) list \<Rightarrow> request \<Rightarrow> request" where
  "deliver N req calls r =
     fold (\<lambda>(_, outcome, g) r. snd (finish N outcome g r)) (filter (\<lambda>call. fst call = req) calls) r"

definition redeem ::
  "externals \<Rightarrow> gate_env \<Rightarrow> string \<Rightarrow> i64 \<Rightarrow> redeem_grant \<Rightarrow> worker \<Rightarrow> request \<Rightarrow> int \<times> worker \<times> request" where
  "redeem X E token expires g w r =
     (case wk_cluster w of
        Some c \<Rightarrow>
          (let c' = cluster_redeem X (ge_cluster E) (ge_request E) token expires g c
           in (NGX_DONE, w\<lparr>wk_cluster := Some c'\<rparr>,
               deliver (ge_nginx E) (ge_request E) (drop (length (ct_finished c)) (ct_finished c')) r))
      | None \<Rightarrow>
          (let (outcome, data) = zone_consume X (ge_now E AtConsume) token expires (zone_data w);
               (rc, r) = finish (ge_nginx E) outcome g r
           in (rc, set_zone_data data w, r)))"

subsection \<open>Facts\<close>

text \<open>A job is connected to the address that the Redis block configures.\<close>

lemma peer_address_read_back:
  "sockaddr_to_ip (Some (peer_address socket)) = Some (case socket of SockV4 a _ \<Rightarrow> V4 a | SockV6 a _ _ \<Rightarrow> V6 a)"
  by (cases socket) (simp_all add: peer_address_def sockaddr_to_ip_def libc_af_inet_def libc_af_inet6_def rcat_octets)

text \<open>Asking for a redemption never grants anything at once: what it finishes, it refuses.\<close>

definition refusing_inv :: "(nat \<times> outcome \<times> redeem_grant) list \<Rightarrow> nat list \<Rightarrow> cluster \<Rightarrow> bool" where
  "refusing_inv before ow c \<longleftrightarrow>
     (\<exists>calls. ct_finished c = before @ calls \<and> (\<forall>(req, out, g)\<in>set calls. out \<noteq> Accepted))"

interpretation refusing: runtime_moves "refusing_inv before" "\<lambda>job out. out \<noteq> Accepted" "\<lambda>_. same_duties" "\<lambda>_. True"
  by unfold_locales
    (auto simp: refusing_inv_def update_job_def release_finished finish_call_def split: option.splits
      intro: heard_duties)

lemma cluster_redeem_refuses:
  "\<forall>(req', out, g')\<in>set (drop (length (ct_finished c)) (ct_finished (cluster_redeem X E req token expires g c))).
     out \<noteq> Accepted"
proof -
  have "refusing_inv (ct_finished c) [] (cluster_step X E (Redeems req token expires g) c)"
    by (rule refusing.I_cluster_step) (auto simp: refusing_inv_def spawn_def)
  then show ?thesis by (auto simp: refusing_inv_def)
qed

lemma deliver_client [simp]: "same_client r (deliver N req calls s) \<longleftrightarrow> same_client r s"
  unfolding deliver_def by (induction calls arbitrary: s) (simp_all add: case_prod_beta)

lemma set_cookies_deliver:
  assumes "\<forall>(req', out, g)\<in>set calls. out \<noteq> Accepted"
  shows "set (set_cookies (deliver N req calls r)) \<subseteq> set (set_cookies r)"
  using assms unfolding deliver_def
proof (induction calls arbitrary: r)
  case (Cons call calls)
  obtain req' out g where call: "call = (req', out, g)" by (cases call) auto
  with Cons.prems have "set (set_cookies (snd (finish N out g r))) \<subseteq> set (set_cookies r)"
    by (intro set_cookies_finish_rejected) simp
  with Cons.IH [of "snd (finish N out g r)"] Cons.IH [of r] Cons.prems show ?case by (auto simp: call)
qed simp

lemma redeem_done [simp]: "fst (redeem X E token expires g w r) = NGX_DONE"
  by (simp add: redeem_def Let_def case_prod_beta split: option.split)

lemma redeem_client [simp]: "same_client r (snd (snd (redeem X E token expires g w s))) \<longleftrightarrow> same_client r s"
  by (simp add: redeem_def Let_def case_prod_beta split: option.split)

definition zone_outcome :: "externals \<Rightarrow> gate_env \<Rightarrow> string \<Rightarrow> i64 \<Rightarrow> worker \<Rightarrow> outcome" where
  "zone_outcome X E token expires w = fst (zone_consume X (ge_now E AtConsume) token expires (zone_data w))"

text \<open>The cookie of a grant goes out in this call only if the zone accepted the redemption.\<close>

lemma redeem_cookies:
  assumes "v \<in> set (set_cookies (snd (snd (redeem X E token expires g w r))))"
  shows "v \<in> set (set_cookies r) \<or>
    wk_cluster w = None \<and> zone_outcome X E token expires w = Accepted \<and> v = rg_cookie g"
proof (cases "wk_cluster w")
  case None
  show ?thesis
  proof (cases "zone_outcome X E token expires w = Accepted")
    case True
    with assms None show ?thesis
      by (auto simp: redeem_def zone_outcome_def case_prod_beta dest!: subsetD [OF set_cookies_finish_accepted])
  next
    case False
    with assms None show ?thesis
      by (auto simp: redeem_def zone_outcome_def case_prod_beta dest!: subsetD [OF set_cookies_finish_rejected])
  qed
next
  case (Some c)
  with assms show ?thesis
    by (auto simp: redeem_def Let_def dest!: subsetD [OF set_cookies_deliver [OF cluster_redeem_refuses]])
qed

lemma redeem_accepted:
  assumes "healthy (ge_nginx E)" "wk_cluster w = None" "zone_outcome X E token expires w = Accepted"
  shows "rg_cookie g \<in> set (set_cookies (snd (snd (redeem X E token expires g w r))))"
  using assms set_cookies_finish_healthy [OF assms(1)]
  by (simp add: redeem_def zone_outcome_def case_prod_beta)

lemma redeem_zone_fields:
  fixes X E token expires g r
  assumes "wk_cluster w = None"
  defines "w' \<equiv> fst (snd (redeem X E token expires g w r))"
  shows "wk_cells w' = wk_cells w" "wk_keys w' = wk_keys w" "wk_cluster w' = None" "issuer w' = issuer w"
proof -
  have w': "w' = set_zone_data (snd (zone_consume X (ge_now E AtConsume) token expires (zone_data w))) w"
    by (simp add: w'_def redeem_def assms(1) case_prod_beta)
  show "wk_cells w' = wk_cells w" "wk_keys w' = wk_keys w" "wk_cluster w' = None"
    by (simp_all add: w' set_zone_data_def assms(1))
  have "zone_issuer (snd (zone_consume X t token expires z)) = zone_issuer z" for t z
    by (simp add: zone_consume_def zone_issuer_def Let_def case_prod_beta split: option.split)
  then show "issuer w' = issuer w"
    by (auto simp: w' issuer_def set_zone_data_def zone_data_def assms(1) zone_issuer_def split: option.splits)
qed

end
