(* ===== verification/Token.thy ===== *)
theory Token
  imports Codec Mac
begin

text \<open>
  The text format \<open>payload.tag\<close> that clearances and no-JS grants share: both parts are base64url,
  the tag is a MAC of the payload's text under a prefix that names the protocol. The locale
  \<open>sealed_format\<close> states what the two components rely on and proves their common facts once; its
  laws carry the condition \<open>ok\<close>, which the interpretations instantiate by the laws of the base64
  coder.
\<close>

definition sealed :: "(bytes \<Rightarrow> string) \<Rightarrow> (string \<Rightarrow> bytes) \<Rightarrow> bytes \<Rightarrow> string" where
  "sealed enc mac raw = enc raw @ ''.'' @ enc (mac (enc raw))"

definition opened ::
  "(string \<Rightarrow> bytes option) \<Rightarrow> (string \<Rightarrow> bytes) \<Rightarrow> string \<Rightarrow> bytes option" where
  "opened dec mac token =
     (case split_once (CHR ''.'') token of
        None \<Rightarrow> None
      | Some (payload, tag) \<Rightarrow>
          if dec tag = Some (mac payload) then dec payload else None)"

locale sealed_format =
  fixes ok :: bool
    and enc :: "bytes \<Rightarrow> string"
    and dec :: "string \<Rightarrow> bytes option"
    and mac :: "string \<Rightarrow> bytes"
  assumes dec_enc: "ok \<Longrightarrow> dec (enc b) = Some b"
    and enc_dec: "ok \<Longrightarrow> dec s = Some b \<Longrightarrow> enc b = s"
    and enc_no_dot: "ok \<Longrightarrow> CHR ''.'' \<notin> set (enc b)"
begin

lemma opened_sealed: "ok \<Longrightarrow> opened dec mac (sealed enc mac raw) = Some raw"
proof -
  assume ok: ok
  have "split_once (CHR ''.'') (enc raw @ CHR ''.'' # enc (mac (enc raw))) = Some (enc raw, enc (mac (enc raw)))"
    by (rule split_once_append [OF enc_no_dot [OF ok]])
  then show ?thesis by (simp add: opened_def sealed_def dec_enc [OF ok])
qed

lemma opened_canonical: "ok \<Longrightarrow> opened dec mac token = Some raw \<Longrightarrow> token = sealed enc mac raw"
proof -
  assume ok: ok and opn: "opened dec mac token = Some raw"
  then obtain payload tag where split: "split_once (CHR ''.'') token = Some (payload, tag)"
    and tag: "dec tag = Some (mac payload)" and raw: "dec payload = Some raw"
    by (auto simp: opened_def split: option.splits if_splits prod.splits)
  have "enc raw = payload" "enc (mac payload) = tag"
    using enc_dec [OF ok] raw tag by auto
  with split show ?thesis by (simp add: sealed_def split_once_Some)
qed

lemma opened_iff: "ok \<Longrightarrow> opened dec mac token = Some raw \<longleftrightarrow> token = sealed enc mac raw"
  using opened_sealed opened_canonical by blast

lemma sealed_inject: "ok \<Longrightarrow> sealed enc mac a = sealed enc mac b \<longleftrightarrow> a = b"
  by (metis opened_sealed option.inject)

end

lemma length_sealed:
  "base64_laws X \<Longrightarrow> \<forall>s. length (mac s) = 32 \<Longrightarrow>
   length (sealed (b64url X) mac raw) = (4 * length raw + 2) div 3 + 44"
  by (simp add: sealed_def b64url_def b64_length)

end
