(* ===== verification/Clearance.thy ===== *)
theory Clearance
  imports Token Context
begin

text \<open>
  \<open>pow-gate-core/src/clearance.rs\<close>: the clearance cookie. Verification hands an authenticated,
  checked payload to a callback; short payloads are decoded into a fixed buffer of 512 bytes,
  longer ones into an allocation.
\<close>

definition pk_bytes :: "externals \<Rightarrow> clearance \<Rightarrow> bytes option" where
  "pk_bytes X c = unb64url X (cl_pk c)"

definition MAC_PREFIX :: bytes where
  "MAC_PREFIX = as_bytes ''pow-gate-clearance-v2|''"

record verified_clearance =
  vc_payload :: clearance
  vc_public_key :: bytes
  vc_public_key_len :: usize

definition public_key :: "verified_clearance \<Rightarrow> bytes" where
  "public_key v = take (vc_public_key_len v) (vc_public_key v)"

definition into_owned :: "verified_clearance \<Rightarrow> clearance" where
  "into_owned v =
     \<lparr>cl_version = cl_version (vc_payload v), cl_pk = cl_pk (vc_payload v),
      cl_context = cl_context (vc_payload v), cl_assurance = cl_assurance (vc_payload v),
      cl_iat = cl_iat (vc_payload v), cl_exp = cl_exp (vc_payload v)\<rparr>"

definition clearance_issue ::
  "externals \<Rightarrow> bytes \<Rightarrow> bytes \<Rightarrow> string \<Rightarrow> assurance \<Rightarrow> i64 \<Rightarrow> i64 \<Rightarrow> string" where
  "clearance_issue X key pk_sec1 context assurance iat ttl =
     (let payload = \<lparr>cl_version = 2, cl_pk = b64url X pk_sec1, cl_context = context,
                     cl_assurance = assurance, cl_iat = iat, cl_exp = i64_add iat ttl\<rparr>;
          payload_b64 = b64url X (ser_clearance X payload);
          tag = b64url X (mac_parts X (hmac_key_new key) [MAC_PREFIX, as_bytes payload_b64])
      in payload_b64 @ ''.'' @ tag)"

definition use_authenticated_payload ::
  "externals \<Rightarrow> bytes \<Rightarrow> string \<Rightarrow> assurance \<Rightarrow> i64 \<Rightarrow> i64 \<Rightarrow> (verified_clearance \<Rightarrow> 't) \<Rightarrow> 't option" where
  "use_authenticated_payload X decoded context required now max_age use_clearance =
     (case de_clearance X decoded of
        None \<Rightarrow> None
      | Some payload \<Rightarrow>
          if cl_version payload \<noteq> 2
             \<or> \<not> ct_eq (as_bytes (cl_context payload)) (as_bytes context)
             \<or> \<not> satisfies (cl_assurance payload) required
             \<or> cl_exp payload \<le> now
             \<or> cl_iat payload > now
             \<or> max_age \<le> 0
             \<or> (case i64_checked_sub now (cl_iat payload) of
                  None \<Rightarrow> True | Some age \<Rightarrow> age \<ge> max_age)
          then None
          else
            case (case cl_assurance payload of
                    Pow _ \<Rightarrow>
                      (case unb64url_fixed X 65 (cl_pk payload) of
                         None \<Rightarrow> None
                       | Some pk \<Rightarrow> if pk ! 0 \<noteq> 4 then None else Some (pk, 65))
                  | NoJs _ \<Rightarrow>
                      if cl_pk payload \<noteq> [] then None else Some (replicate 65 0, 0)) of
              None \<Rightarrow> None
            | Some (pk, pk_len) \<Rightarrow>
                Some (use_clearance
                  \<lparr>vc_payload = payload, vc_public_key = pk, vc_public_key_len = pk_len\<rparr>))"

definition with_verified_prepared ::
  "externals \<Rightarrow> hmac_key \<Rightarrow> string \<Rightarrow> string \<Rightarrow> assurance \<Rightarrow> i64 \<Rightarrow> i64 \<Rightarrow>
   (verified_clearance \<Rightarrow> 't) \<Rightarrow> 't option" where
  "with_verified_prepared X key token context required now max_age use_clearance =
     (if length token > 4096 then None
      else case split_once (CHR ''.'') token of
          None \<Rightarrow> None
        | Some (payload_b64, tag_b64) \<Rightarrow>
            (let expected = mac_parts X key [MAC_PREFIX, as_bytes payload_b64] in
             case unb64url_fixed X 32 tag_b64 of
               None \<Rightarrow> None
             | Some tag \<Rightarrow>
                 if \<not> ct_eq expected tag then None
                 else
                   let decoded = replicate 512 0 in
                   if length payload_b64 \<le> length decoded div 3 * 4 then
                     (case unb64url_into X payload_b64 decoded of
                        None \<Rightarrow> None
                      | Some (len, decoded) \<Rightarrow>
                          use_authenticated_payload X (take len decoded) context required now
                            max_age use_clearance)
                   else
                     (case unb64url X payload_b64 of
                        None \<Rightarrow> None
                      | Some decoded \<Rightarrow>
                          use_authenticated_payload X decoded context required now max_age
                            use_clearance)))"

definition verify_prepared ::
  "externals \<Rightarrow> hmac_key \<Rightarrow> string \<Rightarrow> string \<Rightarrow> assurance \<Rightarrow> i64 \<Rightarrow> i64 \<Rightarrow> clearance option" where
  "verify_prepared X key token context required now max_age =
     with_verified_prepared X key token context required now max_age into_owned"

definition clearance_verify ::
  "externals \<Rightarrow> bytes \<Rightarrow> string \<Rightarrow> string \<Rightarrow> assurance \<Rightarrow> i64 \<Rightarrow> i64 \<Rightarrow> clearance option" where
  "clearance_verify X key token context required now max_age =
     verify_prepared X (hmac_key_new key) token context required now max_age"

subsection \<open>The abstract contract\<close>

text \<open>
  What a verifier promises, without buffers: the token is the sealed text of a payload that
  deserialises to a clearance which is admissible for this request.
\<close>

definition clearance_mac :: "externals \<Rightarrow> bytes \<Rightarrow> string \<Rightarrow> bytes" where
  "clearance_mac X key payload = hmac X key (MAC_PREFIX @ as_bytes payload)"

definition clearance_key :: "externals \<Rightarrow> clearance \<Rightarrow> bytes option" where
  "clearance_key X c =
     (case cl_assurance c of
        Pow _ \<Rightarrow> (case unb64url X (cl_pk c) of
                    Some pk \<Rightarrow> if length pk = 65 \<and> hd pk = 4 then Some pk else None
                  | None \<Rightarrow> None)
      | NoJs _ \<Rightarrow> if cl_pk c = [] then Some [] else None)"

definition admissible :: "string \<Rightarrow> assurance \<Rightarrow> i64 \<Rightarrow> i64 \<Rightarrow> clearance \<Rightarrow> bool" where
  "admissible context required now max_age c \<longleftrightarrow>
     cl_version c = 2 \<and> cl_context c = context \<and> satisfies (cl_assurance c) required \<and>
     cl_iat c \<le> now \<and> now < cl_exp c \<and> 0 < max_age \<and> now - cl_iat c < max_age"

definition accepted ::
  "externals \<Rightarrow> bytes \<Rightarrow> string \<Rightarrow> string \<Rightarrow> assurance \<Rightarrow> i64 \<Rightarrow> i64 \<Rightarrow> (clearance \<times> bytes) option" where
  "accepted X key token context required now max_age =
     (if length token > 4096 then None
      else case opened (unb64url X) (clearance_mac X key) token of
          None \<Rightarrow> None
        | Some raw \<Rightarrow>
            (case de_clearance X raw of
               None \<Rightarrow> None
             | Some c \<Rightarrow>
                 if admissible context required now max_age c
                 then map_option (Pair c) (clearance_key X c) else None))"

interpretation clr: sealed_format "base64_laws X" "b64url X" "unb64url X" "clearance_mac X key" for X key
  by unfold_locales (auto simp: b64url_def unb64url_def b64_encode_decode)

subsection \<open>Refinement\<close>

definition as_verified :: "clearance \<Rightarrow> bytes \<Rightarrow> verified_clearance" where
  "as_verified c pk =
     \<lparr>vc_payload = c, vc_public_key = (if pk = [] then replicate 65 0 else pk),
      vc_public_key_len = length pk\<rparr>"

lemma public_key_as_verified [simp]: "public_key (as_verified c pk) = pk"
  by (simp add: public_key_def as_verified_def)

lemma into_owned_as_verified [simp]: "into_owned (as_verified c pk) = c"
  by (simp add: into_owned_def as_verified_def)

text \<open>The two decoding paths agree: 680 characters decode to at most 510 bytes.\<close>

lemma decode_paths_agree:
  assumes "base64_laws X"
  shows "(if length payload \<le> 680
          then (case unb64url_into X payload (replicate 512 0) of
                  None \<Rightarrow> None | Some (len, decoded) \<Rightarrow> f (take len decoded))
          else (case unb64url X payload of None \<Rightarrow> None | Some decoded \<Rightarrow> f decoded))
       = (case unb64url X payload of None \<Rightarrow> None | Some decoded \<Rightarrow> f decoded)"
proof (cases "unb64url X payload")
  case (Some b)
  have "length b \<le> 512" if "length payload \<le> 680"
    using b64_decode_length [OF assms, of payload b] Some that by (simp add: unb64url_def)
  with Some show ?thesis by (simp add: unb64url_into_eq [OF assms])
qed (simp add: unb64url_into_eq [OF assms])

lemma age_check:
  assumes "in_i64 now" "in_i64 max_age" "in_i64 iat" "iat \<le> now"
  shows "(case i64_checked_sub now iat of None \<Rightarrow> True | Some age \<Rightarrow> age \<ge> max_age) \<longleftrightarrow> now - iat \<ge> max_age"
  using assms by (auto simp: i64_checked_sub_def in_i64_def i64_max_def i64_min_def)

lemma key_check:
  assumes "base64_laws X"
  shows "(case cl_assurance c of
            Pow _ \<Rightarrow> (case unb64url_fixed X 65 (cl_pk c) of
                        None \<Rightarrow> None
                      | Some pk \<Rightarrow> if pk ! 0 \<noteq> 4 then None else Some (pk, 65))
          | NoJs _ \<Rightarrow> if cl_pk c \<noteq> [] then None else Some (replicate 65 0, 0))
       = map_option (\<lambda>pk. (vc_public_key (as_verified c pk), length pk)) (clearance_key X c)"
proof (cases "unb64url X (cl_pk c)")
  case (Some b)
  have "b ! 0 = hd b \<and> b \<noteq> []" if "length b = 65" using that by (cases b) auto
  with Some show ?thesis
    by (auto simp: clearance_key_def as_verified_def unb64url_fixed_def unb64url_into_eq [OF assms]
        split: assurance.split)
qed (auto simp: clearance_key_def as_verified_def unb64url_fixed_def unb64url_into_eq [OF assms]
        split: assurance.split)

lemma use_authenticated_payload_eq:
  assumes "base64_laws X" "serde_laws X" "in_i64 now" "in_i64 max_age"
  shows "use_authenticated_payload X decoded context required now max_age f =
    (case de_clearance X decoded of
       None \<Rightarrow> None
     | Some c \<Rightarrow>
         if admissible context required now max_age c
         then map_option (\<lambda>pk. f (as_verified c pk)) (clearance_key X c) else None)"
proof (cases "de_clearance X decoded")
  case (Some c)
  then have iat: "in_i64 (cl_iat c)"
    using assms(2) unfolding serde_laws_def wf_clearance_def by blast
  have guard: "(cl_version c \<noteq> 2 \<or> \<not> ct_eq (as_bytes (cl_context c)) (as_bytes context)
      \<or> \<not> satisfies (cl_assurance c) required \<or> cl_exp c \<le> now \<or> cl_iat c > now \<or> max_age \<le> 0
      \<or> (case i64_checked_sub now (cl_iat c) of None \<Rightarrow> True | Some age \<Rightarrow> age \<ge> max_age))
    \<longleftrightarrow> \<not> admissible context required now max_age c"
    unfolding admissible_def using age_check [OF assms(3,4) iat] by (auto simp: not_less not_le)
  show ?thesis
    unfolding use_authenticated_payload_def Some option.case guard key_check [OF assms(1)]
    by (cases "clearance_key X c") (simp_all add: as_verified_def)
qed (simp add: use_authenticated_payload_def)

lemma clearance_mac_parts:
  "mac_parts X (hmac_key_new key) [MAC_PREFIX, as_bytes payload] = clearance_mac X key payload"
  by (simp add: mac_parts_eq clearance_mac_def)

lemma with_verified_prepared_eq:
  assumes "base64_laws X" "digest_laws X" "serde_laws X" "in_i64 now" "in_i64 max_age"
  shows "with_verified_prepared X (hmac_key_new key) token context required now max_age f =
     map_option (\<lambda>(c, pk). f (as_verified c pk)) (accepted X key token context required now max_age)"
proof (cases "split_once (CHR ''.'') token")
  case (Some pt)
  obtain payload tag where pt: "pt = (payload, tag)" by fastforce
  have len: "length (clearance_mac X key payload) = 32" using assms(2) by (simp add: clearance_mac_def)
  have tag: "unb64url_fixed X 32 tag = Some (clearance_mac X key payload) \<longleftrightarrow>
      unb64url X tag = Some (clearance_mac X key payload)"
    using unb64url_fixed_Some [OF assms(1)] len by blast
  show ?thesis
  proof (cases "unb64url X tag = Some (clearance_mac X key payload)")
    case True
    then show ?thesis using Some pt tag
      decode_paths_agree [OF assms(1), of payload
        "\<lambda>raw. use_authenticated_payload X raw context required now max_age f"]
      by (auto simp: with_verified_prepared_def accepted_def opened_def Let_def clearance_mac_parts
          use_authenticated_payload_eq [OF assms(1,3-5)] option.map_comp comp_def
          split: option.split)
  next
    case False
    with tag have "unb64url_fixed X 32 tag \<noteq> Some (clearance_mac X key payload)" by simp
    with False Some pt show ?thesis
      by (auto simp: with_verified_prepared_def accepted_def opened_def Let_def clearance_mac_parts
          split: option.split)
  qed
qed (simp add: with_verified_prepared_def accepted_def opened_def)

lemma clearance_verify_eq:
  assumes "base64_laws X" "digest_laws X" "serde_laws X" "in_i64 now" "in_i64 max_age"
  shows "clearance_verify X key token context required now max_age =
     map_option fst (accepted X key token context required now max_age)"
  unfolding clearance_verify_def verify_prepared_def with_verified_prepared_eq [OF assms]
  by (cases "accepted X key token context required now max_age") auto

subsection \<open>Issuing\<close>

definition issued_payload ::
  "externals \<Rightarrow> bytes \<Rightarrow> string \<Rightarrow> assurance \<Rightarrow> i64 \<Rightarrow> i64 \<Rightarrow> clearance" where
  "issued_payload X pk context assurance iat ttl =
     \<lparr>cl_version = 2, cl_pk = b64url X pk, cl_context = context, cl_assurance = assurance,
      cl_iat = iat, cl_exp = i64_add iat ttl\<rparr>"

lemma clearance_issue_sealed:
  "clearance_issue X key pk context a iat ttl =
     sealed (b64url X) (clearance_mac X key) (ser_clearance X (issued_payload X pk context a iat ttl))"
  by (simp add: clearance_issue_def sealed_def Let_def clearance_mac_parts issued_payload_def)

lemma length_clearance_issue:
  "base64_laws X \<Longrightarrow> digest_laws X \<Longrightarrow>
   length (clearance_issue X key pk context a iat ttl) =
     (4 * length (ser_clearance X (issued_payload X pk context a iat ttl)) + 2) div 3 + 44"
  unfolding clearance_issue_sealed by (rule length_sealed) (simp_all add: clearance_mac_def)

text \<open>Keys that the module issues clearances for: an uncompressed point for proof of work, no key
  for the no-JS challenge.\<close>

fun key_shape :: "assurance \<Rightarrow> bytes \<Rightarrow> bool" where
  "key_shape (Pow d) pk = (length pk = 65 \<and> hd pk = 4)"
| "key_shape (NoJs d) pk = (pk = [])"

lemma clearance_key_issued:
  "base64_laws X \<Longrightarrow> key_shape a pk \<Longrightarrow> clearance_key X (issued_payload X pk context a iat ttl) = Some pk"
  by (cases a) (simp_all add: clearance_key_def issued_payload_def)

lemma clearance_key_shape: "clearance_key X c = Some pk \<Longrightarrow> key_shape (cl_assurance c) pk"
  by (auto simp: clearance_key_def split: assurance.splits option.splits if_splits)

lemma wf_issued:
  "base64_laws X \<Longrightarrow> wf_str context \<Longrightarrow> wf_assurance a \<Longrightarrow> in_i64 iat \<Longrightarrow>
   wf_clearance (issued_payload X pk context a iat ttl)"
  by (simp add: wf_clearance_def issued_payload_def i64_add_def b64url_def b64_encode_wf_str)

lemma clearance_roundtrip_accepted:
  assumes "base64_laws X" "serde_laws X"
    and "wf_str context" "wf_assurance a" "in_i64 iat" "key_shape a pk"
    and "in_i64 (iat + ttl)" "satisfies a required" "iat \<le> now" "now < iat + ttl"
    and "0 < max_age" "now - iat < max_age"
    and "length (clearance_issue X key pk context a iat ttl) \<le> 4096"
  shows "accepted X key (clearance_issue X key pk context a iat ttl) context required now max_age
           = Some (issued_payload X pk context a iat ttl, pk)"
proof -
  let ?c = "issued_payload X pk context a iat ttl"
  have "admissible context required now max_age ?c"
    using assms by (simp add: admissible_def issued_payload_def i64_add_exact)
  moreover have "opened (unb64url X) (clearance_mac X key) (clearance_issue X key pk context a iat ttl)
      = Some (ser_clearance X ?c)"
    unfolding clearance_issue_sealed by (rule clr.opened_sealed [OF assms(1)])
  moreover have "de_clearance X (ser_clearance X ?c) = Some ?c"
    using assms(2) wf_issued [OF assms(1,3,4,5)] unfolding serde_laws_def by blast
  ultimately show ?thesis
    using assms(13) clearance_key_issued [OF assms(1,6)] by (simp add: accepted_def)
qed

lemma accepted_SomeD:
  assumes "base64_laws X" "accepted X key token context required now max_age = Some (c, pk)"
  shows "admissible context required now max_age c \<and> length token \<le> 4096 \<and>
         key_shape (cl_assurance c) pk \<and>
         (\<exists>raw. de_clearance X raw = Some c \<and> token = sealed (b64url X) (clearance_mac X key) raw)"
proof -
  from assms(2) obtain raw where "opened (unb64url X) (clearance_mac X key) token = Some raw"
    "de_clearance X raw = Some c" "length token \<le> 4096"
    "admissible context required now max_age c" "clearance_key X c = Some pk"
    by (auto simp: accepted_def split: option.splits if_splits)
  then show ?thesis
    using clr.opened_canonical [OF assms(1)] clearance_key_shape by blast
qed

subsection \<open>Properties\<close>

text \<open>
  C10. Clearance verification refines its contract: for every token, context, requirement and
  clock the code with its fixed buffer, split paths and checked subtraction runs the callback
  exactly when the token is the sealed text of a payload that deserialises, is admissible for the
  request and carries a key of the right shape; the callback sees that payload and that key.
\<close>

theorem with_verified_prepared_refines:
  assumes "base64_laws X" "digest_laws X" "serde_laws X" "in_i64 now" "in_i64 max_age"
  shows "with_verified_prepared X (hmac_key_new key) token context required now max_age
           (\<lambda>v. (into_owned v, public_key v)) =
         accepted X key token context required now max_age"
  unfolding with_verified_prepared_eq [OF assms]
  by (simp add: split_def option.map_ident)

text \<open>
  Whatever token is accepted was authenticated under this key in the clearance domain and
  grants no more than it says: it is the sealed text of a version 2 payload for this very context
  whose assurance satisfies the requirement, issued at or before now, not yet expired, younger
  than the configured age, with an uncompressed public key for proof of work and none for no-JS;
  and no second text opens to the same payload bytes.
\<close>

theorem clearance_verify_sound:
  assumes "base64_laws X" "digest_laws X" "serde_laws X" "in_i64 now" "in_i64 max_age"
    and "clearance_verify X key token context required now max_age = Some c"
  shows "\<exists>raw pk. token = b64url X raw @ ''.'' @ b64url X (hmac X key (MAC_PREFIX @ as_bytes (b64url X raw)))
      \<and> de_clearance X raw = Some c \<and> length token \<le> 4096
      \<and> cl_version c = 2 \<and> cl_context c = context \<and> satisfies (cl_assurance c) required
      \<and> cl_iat c \<le> now \<and> now < cl_exp c \<and> now - cl_iat c < max_age
      \<and> key_shape (cl_assurance c) pk"
proof -
  from assms(6) obtain pk where "accepted X key token context required now max_age = Some (c, pk)"
    unfolding clearance_verify_eq [OF assms(1-5)] by auto
  from accepted_SomeD [OF assms(1) this] show ?thesis
    unfolding admissible_def sealed_def clearance_mac_def by blast
qed

text \<open>
  C16. A clearance that the module issues is accepted by its own verifier from the moment of issue
  until it expires or reaches the maximal age, with the payload that was put in (the clock plus
  the lifetime stays below the signed 64-bit limit and the token below 4096 bytes).
\<close>

theorem clearance_roundtrip:
  assumes "base64_laws X" "digest_laws X" "serde_laws X" "in_i64 now" "in_i64 max_age"
    and "wf_str context" "wf_assurance a" "in_i64 iat" "key_shape a pk"
    and "in_i64 (iat + ttl)" "satisfies a required" "iat \<le> now" "now < iat + ttl"
    and "0 < max_age" "now - iat < max_age"
    and "length (clearance_issue X key pk context a iat ttl) \<le> 4096"
  shows "clearance_verify X key (clearance_issue X key pk context a iat ttl) context required now max_age
       = Some \<lparr>cl_version = 2, cl_pk = b64url X pk, cl_context = context, cl_assurance = a,
               cl_iat = iat, cl_exp = iat + ttl\<rparr>"
  using clearance_roundtrip_accepted [OF assms(1,3,6-16)]
  by (simp add: clearance_verify_eq [OF assms(1-5)] issued_payload_def i64_add_exact [OF assms(10)])

subsection \<open>Witnesses\<close>

lemma in_i64_small: "\<bar>x\<bar> < 2 ^ 62 \<Longrightarrow> in_i64 x"
  by (simp add: in_i64_def i64_min_def i64_max_def abs_less_iff)

lemma sample_issue_length:
  "length (clearance_issue sample [7] (4 # replicate 64 0) ''ctx'' (Pow 5) 100 60) \<le> 4096"
  unfolding length_clearance_issue [OF sample_base64_laws sample_digest_laws]
  by (simp add: length_ser_clearance_sample issued_payload_def b64url_def
      b64_length [OF sample_base64_laws] i64_add_exact in_i64_small int_str_def nat_str.simps)

theorem with_verified_prepared_refines_witness:
  "with_verified_prepared sample (hmac_key_new [7])
     (clearance_issue sample [7] (4 # replicate 64 0) ''ctx'' (Pow 5) 100 60) ''ctx'' (Pow 3) 120 60
     (\<lambda>v. (into_owned v, public_key v))
   = Some (issued_payload sample (4 # replicate 64 0) ''ctx'' (Pow 5) 100 60, 4 # replicate 64 0) \<and>
   with_verified_prepared sample (hmac_key_new [7]) ''junk'' ''ctx'' (Pow 3) 120 60
     (\<lambda>v. (into_owned v, public_key v)) = None"
proof -
  have "in_i64 120" "in_i64 60" by (simp_all add: in_i64_small)
  note refines = with_verified_prepared_refines [OF sample_base64_laws sample_digest_laws sample_serde_laws this]
  show ?thesis
    unfolding refines using sample_issue_length
    by (subst clearance_roundtrip_accepted [OF sample_base64_laws sample_serde_laws])
      (simp_all add: in_i64_small wf_str_ascii accepted_def opened_def)
qed

theorem clearance_roundtrip_witness:
  "clearance_verify sample [7] (clearance_issue sample [7] (4 # replicate 64 0) ''ctx'' (Pow 5) 100 60)
     ''ctx'' (Pow 3) 120 60
   = Some \<lparr>cl_version = 2, cl_pk = b64url sample (4 # replicate 64 0), cl_context = ''ctx'',
           cl_assurance = Pow 5, cl_iat = 100, cl_exp = 160\<rparr>"
  using clearance_roundtrip [OF sample_base64_laws sample_digest_laws sample_serde_laws,
      of 120 60 "''ctx''" "Pow 5" 100 "4 # replicate 64 0" 60 "Pow 3" "[7]"] sample_issue_length
  by (simp add: in_i64_small wf_str_ascii)

theorem clearance_verify_sound_witness:
  "\<exists>c raw. clearance_verify sample [7]
       (clearance_issue sample [7] (4 # replicate 64 0) ''ctx'' (Pow 5) 100 60) ''ctx'' (Pow 3) 120 60 = Some c
     \<and> de_clearance sample raw = Some c \<and> cl_context c = ''ctx'' \<and> 120 < cl_exp c"
proof -
  let ?t = "clearance_issue sample [7] (4 # replicate 64 0) ''ctx'' (Pow 5) 100 60"
  have i: "in_i64 120" "in_i64 60" by (simp_all add: in_i64_small)
  have "accepted sample [7] ?t ''ctx'' (Pow 3) 120 60
      = Some (issued_payload sample (4 # replicate 64 0) ''ctx'' (Pow 5) 100 60, 4 # replicate 64 0)"
    using sample_issue_length
    by (intro clearance_roundtrip_accepted) (simp_all add: sample_laws in_i64_small wf_str_ascii)
  then obtain c where c: "clearance_verify sample [7] ?t ''ctx'' (Pow 3) 120 60 = Some c"
    by (simp add: clearance_verify_eq [OF sample_base64_laws sample_digest_laws sample_serde_laws i])
  from clearance_verify_sound [OF sample_base64_laws sample_digest_laws sample_serde_laws i c] c
  show ?thesis by blast
qed

end
