(* ===== verification/Target.thy ===== *)
theory Target
  imports Wire Sample
begin

text \<open>
  \<open>pow-gate-core/src/target.rs\<close>: the 256-bit target of a difficulty, by long division in base
  256 with a 128-bit remainder, and the big-endian comparison of a hash with it.
\<close>

text \<open>The loop body over one digit of the numerator: \<open>cur = (remainder << 8) | digit\<close>.\<close>

fun long_div :: "u128 \<Rightarrow> u128 \<Rightarrow> bytes \<Rightarrow> bytes" where
  "long_div d remainder [] = []"
| "long_div d remainder (n # numerator) =
     (let cur = push_bit 8 remainder OR ucast n
      in ucast (cur div d) # long_div d (cur mod d) numerator)"

definition difficulty_to_target :: "u64 \<Rightarrow> bytes" where
  "difficulty_to_target difficulty =
     (if difficulty \<le> 1 then replicate 32 0xff
      else let numerator = 1 # replicate 32 0;
               quotient = long_div (ucast difficulty) 0 numerator
           in take 32 (drop 1 quotient))"

fun hash_below :: "bytes \<Rightarrow> bytes \<Rightarrow> bool" where
  "hash_below (h # hash) (t # target) =
     (if h \<noteq> t then h < t else hash_below hash target)"
| "hash_below _ _ = False"

definition pow_hash :: "externals \<Rightarrow> string \<Rightarrow> u64 \<Rightarrow> bytes" where
  "pow_hash X salt nonce = sha256 X (as_bytes salt @ as_bytes (nat_str (unat nonce)))"

definition solution_valid :: "externals \<Rightarrow> string \<Rightarrow> u64 \<Rightarrow> u64 \<Rightarrow> bool" where
  "solution_valid X salt nonce difficulty =
     hash_below (pow_hash X salt nonce) (difficulty_to_target difficulty)"

subsection \<open>Long division\<close>

lemma length_long_div [simp]: "length (long_div d r ns) = length ns"
  by (induction d r ns rule: long_div.induct) (auto simp: Let_def)

lemma shift_or_digit:
  assumes "unat (r :: u128) < 2 ^ 64"
  shows "unat (push_bit 8 r OR ucast (n :: u8)) = unat r * 256 + unat n"
proof -
  have "push_bit 8 r OR ucast n = push_bit 8 r + ucast n"
    by (rule disjunctive_add [symmetric]) (auto simp: bit_push_bit_iff bit_ucast_iff dest: bit_imp_le_length)
  also have "\<dots> = r * 256 + ucast n" by (simp add: push_bit_eq_mult)
  finally have eq: "push_bit 8 r OR ucast n = r * 256 + ucast n" .
  have n: "unat (ucast n :: u128) = unat n"
    using u8_less_256 [of n] by (simp add: unsigned_ucast_eq take_bit_eq_mod del: u8_less_256)
  have "unat r * 256 + unat n < 2 ^ 64 * 256 + 256"
    using assms u8_less_256 [of n] by (intro add_strict_mono mult_strict_right_mono) (auto simp del: u8_less_256)
  then have "unat r * 256 + unat n < 2 ^ 128" by (rule less_trans) simp
  moreover from this have "unat (r * 256) = unat r * 256" by (simp add: unat_word_ariths(2))
  ultimately show ?thesis by (simp add: eq unat_word_ariths(1) n)
qed

lemma div_step: "0 < D \<Longrightarrow> (c * L + b) div D = c div D * L + (c mod D * L + b) div (D :: nat)"
proof -
  assume "0 < D"
  have "c * L = (c div D * D + c mod D) * L" by simp
  then have "c * L + b = (c mod D * L + b) + (c div D * L) * D" by (simp only: algebra_simps)
  then show ?thesis using \<open>0 < D\<close> by (simp only: div_mult_self1)
qed

lemma long_div_value:
  assumes "0 < unat d" "unat d < 2 ^ 64" "unat r < unat d"
  shows "be_val (long_div d r ns) = (unat r * 256 ^ length ns + be_val ns) div unat d"
  using assms(3)
proof (induction ns arbitrary: r)
  case (Cons n ns)
  let ?D = "unat d" and ?cur = "push_bit 8 r OR ucast n" and ?L = "256 ^ length ns :: nat"
  have cur: "unat ?cur = unat r * 256 + unat n"
    using Cons.prems assms(2) by (intro shift_or_digit) simp
  have q: "unat (?cur div d) = unat ?cur div ?D" and m: "unat (?cur mod d) = unat ?cur mod ?D"
    by (simp_all add: unat_div unat_mod)
  have "unat ?cur < ?D * 256" using cur Cons.prems u8_less_256 [of n] by linarith
  then have "unat ?cur div ?D < 256" using assms(1) by (simp add: less_mult_imp_div_less mult.commute)
  then have digit: "unat (ucast (?cur div d) :: u8) = unat ?cur div ?D"
    using q by (simp add: unsigned_ucast_eq take_bit_eq_mod)
  have "(unat ?cur * ?L + be_val ns) div ?D
      = unat ?cur div ?D * ?L + ((unat ?cur mod ?D) * ?L + be_val ns) div ?D"
    by (rule div_step [OF assms(1)])
  moreover have "be_val (long_div d (?cur mod d) ns) = ((unat ?cur mod ?D) * ?L + be_val ns) div ?D"
    using Cons.IH [of "?cur mod d"] m assms(1) by simp
  ultimately have "be_val (long_div d r (n # ns)) = (unat ?cur * ?L + be_val ns) div ?D"
    by (simp add: Let_def be_val_Cons digit)
  then show ?case by (simp add: cur be_val_Cons algebra_simps)
qed simp

lemma be_val_replicate_0 [simp]: "be_val (replicate n 0) = 0"
  by (induction n) (auto simp: be_val_Cons)

lemma be_val_replicate_255: "be_val (replicate n 0xff) + 1 = 256 ^ n"
  by (induction n) (auto simp: be_val_Cons)

lemma mult_less_mono_imp: "a * c < b * c \<Longrightarrow> a < (b :: nat)"
  using mult_le_mono1 [of b a c] by linarith

lemma be_val_drop_hd: "length q = Suc n \<Longrightarrow> be_val q < 256 ^ n \<Longrightarrow> be_val (drop 1 q) = be_val q"
proof (cases q)
  case (Cons x xs)
  assume *: "length q = Suc n" "be_val q < 256 ^ n"
  with Cons have "unat x * 256 ^ n + be_val xs < 256 ^ n" by (simp only: be_val_Cons) simp
  then have "unat x * 256 ^ n < 1 * 256 ^ n" by linarith
  then have "unat x < 1" by (rule mult_less_mono_imp)
  with Cons show ?thesis by (simp add: be_val_Cons)
qed simp

lemma length_difficulty_to_target [simp]: "length (difficulty_to_target d) = 32"
  by (simp add: difficulty_to_target_def Let_def)

lemma u64_le_1: "(d :: u64) \<le> 1 \<longleftrightarrow> unat d \<le> 1"
  by (simp add: word_le_nat_alt)

lemma u64_le_1_iff: "(d :: u64) \<le> 1 \<longleftrightarrow> d = 0 \<or> d = 1"
  unfolding u64_le_1 using unat_eq_zero [of d] by (auto simp: word_unat_eq_iff le_Suc_eq)

lemma difficulty_to_target_value:
  "be_val (difficulty_to_target d) = (if d \<le> 1 then 2 ^ 256 - 1 else 2 ^ 256 div unat d)"
proof (cases "d \<le> 1")
  case True
  then show ?thesis using be_val_replicate_255 [of 32] by (simp add: difficulty_to_target_def)
next
  case False
  define q where "q = long_div (ucast d) 0 (1 # replicate 32 0)"
  have D: "unat (ucast d :: u128) = unat d" "1 < unat d" "unat d < 2 ^ 64"
    using False u64_less [of d] by (simp_all add: unsigned_ucast_eq take_bit_eq_mod u64_le_1)
  have val: "be_val q = 2 ^ 256 div unat d"
    unfolding q_def using D by (subst long_div_value) (simp_all add: be_val_Cons)
  have "2 ^ 256 div unat d \<le> 2 ^ 256 div 2" using D(2) by (intro div_le_mono2) simp_all
  then have "be_val q < 256 ^ 32" using val by simp
  moreover have "length q = Suc 32" by (simp add: q_def)
  ultimately have "be_val (drop 1 q) = be_val q" by (rule be_val_drop_hd [rotated])
  with False val show ?thesis by (simp add: difficulty_to_target_def Let_def q_def)
qed

lemma hash_below_value: "length h = length t \<Longrightarrow> hash_below h t \<longleftrightarrow> be_val h < be_val t"
proof (induction h t rule: list_induct2)
  case (Cons x xs y ys)
  consider "unat x < unat y" | "unat y < unat x" | "x = y"
    using word_unat_eq_iff nat_neq_iff by blast
  then show ?case
  proof cases
    case 1
    then show ?thesis using be_val_less_Cons [OF Cons.hyps 1] by (auto simp: word_less_nat_alt)
  next
    case 2
    then show ?thesis
      using be_val_less_Cons [OF Cons.hyps [symmetric] 2] by (auto simp: word_less_nat_alt)
  next
    case 3
    then show ?thesis using Cons by (simp add: be_val_Cons)
  qed
qed simp

lemma length_pow_hash [simp]: "digest_laws X \<Longrightarrow> length (pow_hash X salt nonce) = 32"
  by (simp add: pow_hash_def)

lemma solution_valid_value:
  "digest_laws X \<Longrightarrow>
   solution_valid X salt nonce d \<longleftrightarrow>
     be_val (pow_hash X salt nonce) < (if d \<le> 1 then 2 ^ 256 - 1 else 2 ^ 256 div unat d)"
  by (simp add: solution_valid_def hash_below_value difficulty_to_target_value)

lemma target_mono: "unat d \<le> unat d' \<Longrightarrow> be_val (difficulty_to_target d') \<le> be_val (difficulty_to_target d)"
proof -
  assume le: "unat d \<le> unat d'"
  show ?thesis
  proof (cases "unat d \<le> 1")
    case True
    have "be_val (difficulty_to_target d') < 256 ^ 32"
      using be_val_bound [of "difficulty_to_target d'"] by simp
    then have "be_val (difficulty_to_target d') \<le> 2 ^ 256 - 1" by simp
    with True show ?thesis by (simp add: difficulty_to_target_value u64_le_1)
  next
    case False
    with le show ?thesis by (simp add: difficulty_to_target_value u64_le_1 div_le_mono2)
  qed
qed

subsection \<open>Properties\<close>

text \<open>
  C40. The target is exact: the 33 steps of long division over a 128-bit remainder compute
  \<open>floor(2^256 / difficulty)\<close> in 32 big-endian bytes for every difficulty from 2 to
  \<open>2^64 - 1\<close>, and \<open>2^256 - 1\<close> below that.
\<close>

theorem difficulty_to_target_exact:
  "length (difficulty_to_target d) = 32 \<and>
   be_val (difficulty_to_target d) = (if unat d \<le> 1 then 2 ^ 256 - 1 else 2 ^ 256 div unat d)"
  by (simp add: difficulty_to_target_value u64_le_1)

text \<open>
  Raising the difficulty never admits a new solution: a nonce that solves a salt at some
  difficulty solves it at every lower one.
\<close>

theorem solution_valid_antimono:
  assumes "digest_laws X" "unat d \<le> unat d'" "solution_valid X salt nonce d'"
  shows "solution_valid X salt nonce d"
  using target_mono [OF assms(2)] assms(1,3) by (simp add: solution_valid_def hash_below_value)

theorem solution_valid_antimono_witness:
  "solution_valid sample ''00'' 0 5 \<and> solution_valid sample ''00'' 0 2"
proof -
  have v: "solution_valid sample ''00'' 0 5" by code_simp
  have "unat (2 :: u64) \<le> unat (5 :: u64)" by simp
  from solution_valid_antimono [OF sample_digest_laws this v] v show ?thesis by simp
qed

text \<open>
  Even the easiest setting is not quite off: the hash whose 32 bytes are all \<open>0xff\<close> is below
  no target, since the comparison is strict and the largest target is that very value; every
  other hash passes at difficulty 0 and 1.
\<close>

theorem easiest_target_excludes_one_hash:
  "length h = 32 \<Longrightarrow> hash_below h (difficulty_to_target 1) \<longleftrightarrow> h \<noteq> replicate 32 0xff"
proof -
  assume len: "length h = 32"
  have eq: "difficulty_to_target 1 = replicate 32 0xff" by (simp add: difficulty_to_target_def)
  have val: "be_val (replicate 32 (0xff :: u8)) = 2 ^ 256 - 1" using be_val_replicate_255 [of 32] by simp
  have "be_val h < 2 ^ 256" using be_val_bound [of h] len by simp
  moreover have "be_val h = 2 ^ 256 - 1 \<longleftrightarrow> h = replicate 32 0xff"
    using be_val_inject [of h "replicate 32 0xff"] len val by simp
  ultimately show ?thesis using len hash_below_value [of h "replicate 32 0xff"] val eq by auto
qed

theorem easiest_target_excludes_one_hash_witness:
  "\<not> hash_below (replicate 32 0xff) (difficulty_to_target 1) \<and>
   hash_below (replicate 32 0) (difficulty_to_target 1)"
proof -
  have "(replicate 32 0 :: bytes) \<noteq> replicate 32 0xff" by simp
  then show ?thesis
    using easiest_target_excludes_one_hash [of "replicate 32 0xff"]
      easiest_target_excludes_one_hash [of "replicate 32 0"] by simp
qed

end
