(* ===== verification/Pow_Challenge.thy ===== *)
theory Pow_Challenge
  imports Target Codec Mac
begin

text \<open>
  \<open>pow-gate-core/src/pow.rs\<close>: issuing a proof-of-work challenge bound to a public key and a
  context, and judging a submitted solution. The 16 random bytes are an argument, \<open>None\<close> when the
  system generator fails (the code panics there, the model returns \<open>None\<close>).
\<close>

definition pow_binding :: "externals \<Rightarrow> string \<Rightarrow> i64 \<Rightarrow> u64 \<Rightarrow> bytes \<Rightarrow> string \<Rightarrow> bytes" where
  "pow_binding X salt exp difficulty pk context =
     ser_binding X ''pow-gate-challenge-v2'' salt exp difficulty (b64url X pk) context"

definition pow_issue ::
  "externals \<Rightarrow> bytes option \<Rightarrow> bytes \<Rightarrow> bytes \<Rightarrow> string \<Rightarrow> u64 \<Rightarrow> i64 \<Rightarrow> i64 \<Rightarrow> challenge option" where
  "pow_issue X rng key pk context difficulty now ttl =
     (case rng of
        None \<Rightarrow> None
      | Some raw \<Rightarrow>
          (let salt = hex raw;
               exp = i64_add now ttl;
               token = b64url X (hmac X key (pow_binding X salt exp difficulty pk context))
           in Some \<lparr>ch_version = 2, ch_salt = salt, ch_exp = exp, ch_difficulty = difficulty,
                    ch_token = token\<rparr>))"

datatype pow_verdict = PowOk | Expired | BadToken | WrongSolution

definition verify_solution ::
  "externals \<Rightarrow> bytes \<Rightarrow> challenge \<Rightarrow> u64 \<Rightarrow> bytes \<Rightarrow> string \<Rightarrow> u64 \<Rightarrow> i64 \<Rightarrow> pow_verdict" where
  "verify_solution X key challenge nonce pk context required_difficulty now =
     (let expect = b64url X (hmac X key
            (pow_binding X (ch_salt challenge) (ch_exp challenge) (ch_difficulty challenge) pk context))
      in if ch_version challenge \<noteq> 2
            \<or> ch_difficulty challenge = 0
            \<or> ch_difficulty challenge \<noteq> required_difficulty
            \<or> \<not> ct_eq (as_bytes expect) (as_bytes (ch_token challenge))
         then BadToken
         else if ch_exp challenge \<le> now then Expired
         else if \<not> solution_valid X (ch_salt challenge) nonce (ch_difficulty challenge)
         then WrongSolution
         else PowOk)"

lemma pow_binding_inject:
  assumes "json_laws X" "base64_laws X"
  shows "pow_binding X s e d p c = pow_binding X s' e' d' p' c' \<longleftrightarrow>
     s = s' \<and> e = e' \<and> d = d' \<and> p = p' \<and> c = c'"
proof
  assume "pow_binding X s e d p c = pow_binding X s' e' d' p' c'"
  then have "s = s' \<and> e = e' \<and> d = d' \<and> b64url X p = b64url X p' \<and> c = c'"
    using assms(1) unfolding json_laws_def pow_binding_def by blast
  then show "s = s' \<and> e = e' \<and> d = d' \<and> p = p' \<and> c = c'" using assms(2) by simp
qed simp

text \<open>A challenge that carries the right MAC for a key, a context and the fields it shows.\<close>

definition challenge_authentic :: "externals \<Rightarrow> bytes \<Rightarrow> challenge \<Rightarrow> bytes \<Rightarrow> string \<Rightarrow> bool" where
  "challenge_authentic X key ch pk context \<longleftrightarrow>
     ch_token ch = b64url X (hmac X key
       (pow_binding X (ch_salt ch) (ch_exp ch) (ch_difficulty ch) pk context))"

lemma verify_solution_eq:
  "verify_solution X key ch nonce pk context required now =
     (if ch_version ch \<noteq> 2 \<or> required = 0 \<or> ch_difficulty ch \<noteq> required
         \<or> \<not> challenge_authentic X key ch pk context then BadToken
      else if ch_exp ch \<le> now then Expired
      else if solution_valid X (ch_salt ch) nonce required then PowOk else WrongSolution)"
  by (auto simp: verify_solution_def challenge_authentic_def Let_def)

lemma issued_authentic:
  "pow_issue X rng key pk context d now ttl = Some ch \<Longrightarrow>
   challenge_authentic X key ch pk context \<and> ch_version ch = 2 \<and> ch_difficulty ch = d \<and>
   ch_exp ch = i64_add now ttl"
  by (auto simp: pow_issue_def challenge_authentic_def Let_def split: option.splits)

subsection \<open>Properties\<close>

text \<open>
  C17. A solution is accepted exactly when the challenge is version 2, was sealed with this key
  for this public key, this context and the difficulty now required (never zero), has not
  expired, and the hash of its salt with the nonce lies below the target: \<open>2^256 / difficulty\<close>
  rounded down for a difficulty of 2 or more, and \<open>2^256 - 1\<close> for difficulty 1. (So at difficulty
  1 the hash of 32 bytes \<open>0xff\<close> fails, although the comment in \<open>target.rs\<close> lets every hash pass.)
\<close>

theorem verify_solution_Ok_iff:
  assumes "digest_laws X"
  shows "verify_solution X key ch nonce pk context required now = PowOk \<longleftrightarrow>
    ch_version ch = 2 \<and> 0 < required \<and> ch_difficulty ch = required \<and>
    ch_token ch = b64url X (hmac X key
      (pow_binding X (ch_salt ch) (ch_exp ch) (ch_difficulty ch) pk context)) \<and>
    now < ch_exp ch \<and>
    be_val (sha256 X (as_bytes (ch_salt ch @ nat_str (unat nonce))))
      < (if required = 1 then 2 ^ 256 - 1 else 2 ^ 256 div unat required)"
  by (auto simp: verify_solution_eq challenge_authentic_def solution_valid_value [OF assms]
      pow_hash_def word_neq_0_conv u64_le_1_iff)

text \<open>
  A challenge that the server issues can be solved and is then accepted: with the same key,
  public key, context and a positive difficulty, any nonce whose hash is below the target is
  accepted until the challenge expires.
\<close>

theorem issued_challenge_accepted:
  assumes "pow_issue X (Some raw) key pk context difficulty now ttl = Some ch"
    and "0 < difficulty" "in_i64 (now + ttl)" "later < now + ttl"
    and "solution_valid X (hex raw) nonce difficulty"
  shows "verify_solution X key ch nonce pk context difficulty later = PowOk"
proof -
  have "ch_salt ch = hex raw" using assms(1) by (auto simp: pow_issue_def Let_def)
  with issued_authentic [OF assms(1)] assms(2-5) show ?thesis
    by (simp add: verify_solution_eq i64_add_exact word_neq_0_conv)
qed

text \<open>
  C18. A challenge cannot be moved to another client: if one challenge is authentic for two public
  keys or two contexts, the two sealed messages are different and have the same HMAC, an explicit
  collision.
\<close>

theorem challenge_not_transferable:
  assumes "base64_laws X" "json_laws X"
    and "verify_solution X key ch nonce pk context d now = PowOk"
    and "verify_solution X key ch nonce' pk' context' d' now' = PowOk"
    and "pk \<noteq> pk' \<or> context \<noteq> context'"
  shows "\<exists>m m'. m = pow_binding X (ch_salt ch) (ch_exp ch) (ch_difficulty ch) pk context \<and>
    m' = pow_binding X (ch_salt ch) (ch_exp ch) (ch_difficulty ch) pk' context' \<and>
    m \<noteq> m' \<and> hmac X key m = hmac X key m'"
proof -
  have "challenge_authentic X key ch pk context" "challenge_authentic X key ch pk' context'"
    using assms(3,4) by (auto simp: verify_solution_eq split: if_splits)
  then have "hmac X key (pow_binding X (ch_salt ch) (ch_exp ch) (ch_difficulty ch) pk context)
      = hmac X key (pow_binding X (ch_salt ch) (ch_exp ch) (ch_difficulty ch) pk' context')"
    using assms(1) by (simp add: challenge_authentic_def)
  with assms(5) show ?thesis by (auto simp: pow_binding_inject [OF assms(2,1)])
qed

subsection \<open>Witnesses\<close>

definition sample_challenge :: challenge where
  "sample_challenge =
     \<lparr>ch_version = 2, ch_salt = ''00'', ch_exp = 160, ch_difficulty = 5,
      ch_token = b64url sample (hmac sample [7] (pow_binding sample ''00'' 160 5 [4] ''a!''))\<rparr>"

lemma sample_solution_valid: "solution_valid sample ''00'' 0 5" by code_simp

lemma sample_collision:
  "hmac sample [7] (pow_binding sample ''00'' 160 5 [4] ''b`'')
     = hmac sample [7] (pow_binding sample ''00'' 160 5 [4] ''a!'')"
  by code_simp

theorem verify_solution_Ok_iff_witness:
  "digest_laws sample \<and> verify_solution sample [7] sample_challenge 0 [4] ''a!'' 5 100 = PowOk \<and>
   be_val (sha256 sample (as_bytes (''00'' @ nat_str (unat (0 :: u64))))) < 2 ^ 256 div unat (5 :: u64)"
proof -
  have ok: "verify_solution sample [7] sample_challenge 0 [4] ''a!'' 5 100 = PowOk"
    using sample_solution_valid by (simp add: verify_solution_eq challenge_authentic_def sample_challenge_def)
  have salt: "ch_salt sample_challenge = ''00''" by (simp add: sample_challenge_def)
  have "be_val (sha256 sample (as_bytes (''00'' @ nat_str (unat (0 :: u64)))))
      < (if (5 :: u64) = 1 then 2 ^ 256 - 1 else 2 ^ 256 div unat (5 :: u64))"
    using verify_solution_Ok_iff [THEN iffD1, OF sample_digest_laws ok] unfolding salt by blast
  moreover have "(5 :: u64) \<noteq> 1" by simp
  ultimately show ?thesis using ok sample_digest_laws by (simp only: if_False)
qed

theorem issued_challenge_accepted_witness:
  "\<exists>ch. pow_issue sample (Some [0]) [7] [4] ''a!'' 5 100 60 = Some ch \<and>
        verify_solution sample [7] ch 0 [4] ''a!'' 5 120 = PowOk"
proof -
  obtain ch where ch: "pow_issue sample (Some [0]) [7] [4] ''a!'' 5 100 60 = Some ch"
    by (simp add: pow_issue_def Let_def)
  have "hex [0] = ''00''" by code_simp
  then have "solution_valid sample (hex [0]) 0 5" using sample_solution_valid by simp
  with issued_challenge_accepted [OF ch, of 120 0] ch show ?thesis
    by (simp add: in_i64_def i64_min_def i64_max_def)
qed

theorem challenge_not_transferable_witness:
  "\<exists>m m'. m \<noteq> m' \<and> hmac sample [7] m = hmac sample [7] m'"
proof -
  have v: "verify_solution sample [7] sample_challenge 0 [4] ''a!'' 5 100 = PowOk"
    "verify_solution sample [7] sample_challenge 0 [4] ''b`'' 5 100 = PowOk"
    using sample_solution_valid sample_collision
    by (simp_all add: verify_solution_eq challenge_authentic_def sample_challenge_def)
  from challenge_not_transferable [OF sample_base64_laws sample_json_laws v] show ?thesis by auto
qed

end
