(* ===== verification/Uri.thy ===== *)
theory Uri
  imports Rust_Std
begin

text \<open>
  \<open>pow-gate-core/src/uri.rs\<close>: the predicate on client-supplied paths that are handed back to the
  client in a \<open>Location\<close> header or a page.
\<close>

definition same_site_byte :: "u8 \<Rightarrow> bool" where
  "same_site_byte b \<longleftrightarrow>
     0x21 \<le> b \<and> b < 0x7f \<and> b \<noteq> 0x22 \<and> b \<noteq> 0x3c \<and> b \<noteq> 0x3e \<and> b \<noteq> 0x5c"

definition same_site_path :: "string \<Rightarrow> bool" where
  "same_site_path path \<longleftrightarrow>
     starts_with path ''/'' \<and> \<not> starts_with path ''//'' \<and>
     list_all same_site_byte (as_bytes path)"

lemma same_site_path_head:
  assumes "same_site_path p"
  obtains r where "p = CHR ''/'' # r" "\<And>r'. r \<noteq> CHR ''/'' # r'"
  using assms by (cases p) (auto simp: same_site_path_def starts_with_iff)

lemma same_site_path_byte:
  assumes "same_site_path p" "c \<in> set p"
  shows "0x21 \<le> (of_char c :: u8)" "(of_char c :: u8) < 0x7f"
    "c \<noteq> CHR 0x22" "c \<noteq> CHR ''<''" "c \<noteq> CHR ''>''" "c \<noteq> CHR 0x5C"
proof -
  have "same_site_byte (of_char c)"
    using assms by (auto simp: same_site_path_def list_all_iff as_bytes_def)
  then show "0x21 \<le> (of_char c :: u8)" "(of_char c :: u8) < 0x7f"
    "c \<noteq> CHR 0x22" "c \<noteq> CHR ''<''" "c \<noteq> CHR ''>''" "c \<noteq> CHR 0x5C"
    by (auto simp: same_site_byte_def)
qed

lemma same_site_path_root [simp]: "same_site_path ''/''"
  by (simp add: same_site_path_def starts_with_def same_site_byte_def as_bytes_def)

lemma same_site_path_ascii: "same_site_path p \<Longrightarrow> \<forall>b\<in>set (as_bytes p). b < 128"
proof
  fix b assume p: "same_site_path p" and "b \<in> set (as_bytes p)"
  then obtain c where c: "b = of_char c" "c \<in> set p" by (auto simp: as_bytes_def)
  have "b < 0x7f" using same_site_path_byte(2) [OF p c(2)] c(1) by simp
  then show "b < 128" by (simp add: word_less_nat_alt)
qed

subsection \<open>Properties\<close>

text \<open>
  A path that passes is an absolute path on this site (one leading slash, no second one that
  would name another host) and holds no control byte, no white space, no quote, no angle
  bracket, no backslash and no non-ASCII byte, so it cannot split a header or leave an attribute.
\<close>

theorem same_site_path_safe:
  assumes "same_site_path p"
  shows "(\<exists>r. p = CHR ''/'' # r \<and> take 1 r \<noteq> ''/'') \<and>
         (\<forall>c\<in>set p. (0x20 :: nat) < of_char c \<and> (of_char c :: nat) < 0x7f \<and>
            c \<notin> {CHR 0x22, CHR ''<'', CHR ''>'', CHR 0x5C})"
proof
  show "\<exists>r. p = CHR ''/'' # r \<and> take 1 r \<noteq> ''/''"
    using assms by (cases p; cases "tl p") (auto simp: same_site_path_def starts_with_iff)
next
  show "\<forall>c\<in>set p. (0x20 :: nat) < of_char c \<and> (of_char c :: nat) < 0x7f \<and>
          c \<notin> {CHR 0x22, CHR ''<'', CHR ''>'', CHR 0x5C}"
  proof
    fix c assume "c \<in> set p"
    note b = same_site_path_byte [OF assms this]
    have "(0x20 :: nat) < of_char c" "(of_char c :: nat) < 0x7f"
      using b(1,2) by (simp_all add: word_le_nat_alt word_less_nat_alt)
    with b(3-6) show "(0x20 :: nat) < of_char c \<and> (of_char c :: nat) < 0x7f \<and>
          c \<notin> {CHR 0x22, CHR ''<'', CHR ''>'', CHR 0x5C}" by simp
  qed
qed

theorem same_site_path_safe_witness:
  "same_site_path ''/a?b=1'' \<and> (\<exists>r. ''/a?b=1'' = CHR ''/'' # r \<and> take 1 r \<noteq> ''/'')"
proof -
  have "same_site_path ''/a?b=1''"
    by (simp add: same_site_path_def starts_with_def same_site_byte_def as_bytes_def)
  then show ?thesis using same_site_path_safe [of "''/a?b=1''"] by simp
qed

end
