(* ===== verification/Nojs.thy ===== *)
theory Nojs
  imports Token Uri
begin

text \<open>
  \<open>pow-gate-core/src/nojs.rs\<close>: the grant behind the no-JS challenge. The format is that of a
  clearance with another MAC prefix; the payload binds the return path and the minimal wait.
\<close>

definition NOJS_GRACE :: i64 where "NOJS_GRACE = 120"

datatype nojs_verdict = NojsOk grant | TooEarly grant | Bad

definition mac_input :: "string \<Rightarrow> bytes" where
  "mac_input payload_b64 = as_bytes ''nojs-v2|'' @ as_bytes payload_b64"

definition path_ok :: "string \<Rightarrow> bool" where
  "path_ok path = same_site_path path"

text \<open>The grant as built by \<open>issue\<close>; the random identifier is an argument.\<close>

definition nojs_issue ::
  "externals \<Rightarrow> bytes option \<Rightarrow> bytes \<Rightarrow> string \<Rightarrow> i64 \<Rightarrow> i64 \<Rightarrow> string \<Rightarrow> string option" where
  "nojs_issue X rng key path delay now context =
     (case rng of
        None \<Rightarrow> None
      | Some uid \<Rightarrow>
          (let grant = \<lparr>gr_path = (if path_ok path then path else ''/''), gr_context = context,
                        gr_id = b64url X uid, gr_version = 2, gr_iat = now, gr_delay = delay\<rparr>;
               payload_b64 = b64url X (ser_grant X grant);
               tag = b64url X (hmac X key (mac_input payload_b64))
           in Some (payload_b64 @ ''.'' @ tag)))"

definition nojs_verify :: "externals \<Rightarrow> bytes \<Rightarrow> string \<Rightarrow> i64 \<Rightarrow> string \<Rightarrow> nojs_verdict" where
  "nojs_verify X key token now context =
     (if length token > 8192 then Bad
      else case split_once (CHR ''.'') token of
          None \<Rightarrow> Bad
        | Some (payload_b64, tag_b64) \<Rightarrow>
            (let expected = hmac X key (mac_input payload_b64) in
             case unb64url X tag_b64 of
               None \<Rightarrow> Bad
             | Some provided \<Rightarrow>
                 if \<not> ct_eq expected provided then Bad
                 else case unb64url X payload_b64 of
                     None \<Rightarrow> Bad
                   | Some raw \<Rightarrow>
                       (case de_grant X raw of
                          None \<Rightarrow> Bad
                        | Some grant \<Rightarrow>
                            if gr_version grant \<noteq> 2
                               \<or> \<not> ct_eq (as_bytes (gr_context grant)) (as_bytes context)
                               \<or> \<not> path_ok (gr_path grant)
                               \<or> \<not> (1 \<le> gr_delay grant \<and> gr_delay grant \<le> 30)
                               \<or> gr_iat grant > now
                               \<or> i64_abs_diff now (gr_iat grant) \<ge> nat NOJS_GRACE
                            then Bad
                            else if now < i64_add (gr_iat grant) (gr_delay grant)
                            then TooEarly grant
                            else NojsOk grant)))"

subsection \<open>The abstract contract\<close>

definition nojs_mac :: "externals \<Rightarrow> bytes \<Rightarrow> string \<Rightarrow> bytes" where
  "nojs_mac X key payload = hmac X key (mac_input payload)"

interpretation njs: sealed_format "base64_laws X" "b64url X" "unb64url X" "nojs_mac X key" for X key
  by unfold_locales (auto simp: b64url_def unb64url_def b64_encode_decode)

definition grant_valid :: "string \<Rightarrow> i64 \<Rightarrow> grant \<Rightarrow> bool" where
  "grant_valid context now g \<longleftrightarrow>
     gr_version g = 2 \<and> gr_context g = context \<and> same_site_path (gr_path g) \<and>
     1 \<le> gr_delay g \<and> gr_delay g \<le> 30 \<and> gr_iat g \<le> now \<and> now < gr_iat g + NOJS_GRACE"

definition grant_of :: "externals \<Rightarrow> bytes \<Rightarrow> string \<Rightarrow> i64 \<Rightarrow> string \<Rightarrow> grant option" where
  "grant_of X key token now context =
     (if length token > 8192 then None
      else case opened (unb64url X) (nojs_mac X key) token of
          None \<Rightarrow> None
        | Some raw \<Rightarrow>
            (case de_grant X raw of
               None \<Rightarrow> None
             | Some g \<Rightarrow> if grant_valid context now g then Some g else None))"

lemma grant_guard:
  assumes "in_i64 now" "now + 30 \<le> i64_max" "in_i64 (gr_iat g)"
  shows "(gr_version g \<noteq> 2 \<or> \<not> ct_eq (as_bytes (gr_context g)) (as_bytes context)
      \<or> \<not> path_ok (gr_path g) \<or> \<not> (1 \<le> gr_delay g \<and> gr_delay g \<le> 30)
      \<or> gr_iat g > now \<or> i64_abs_diff now (gr_iat g) \<ge> nat NOJS_GRACE) \<longleftrightarrow> \<not> grant_valid context now g"
    and "grant_valid context now g \<Longrightarrow> i64_add (gr_iat g) (gr_delay g) = gr_iat g + gr_delay g"
  using assms
  by (auto simp: grant_valid_def path_ok_def i64_abs_diff_def NOJS_GRACE_def in_i64_def i64_min_def
      i64_max_def intro!: i64_add_exact)

lemma nojs_verify_eq:
  assumes "serde_laws X" "in_i64 now" "now + 30 \<le> i64_max"
  shows "nojs_verify X key token now context =
    (case grant_of X key token now context of
       None \<Rightarrow> Bad
     | Some g \<Rightarrow> if now < gr_iat g + gr_delay g then TooEarly g else NojsOk g)"
proof -
  have iat: "in_i64 (gr_iat g)" if "de_grant X raw = Some g" for raw g
    using assms(1) that unfolding serde_laws_def wf_grant_def by blast
  note guard = grant_guard [OF assms(2,3) iat]
  show ?thesis
  proof (cases "length token > 8192")
    case False
    show ?thesis
    proof (cases "opened (unb64url X) (nojs_mac X key) token")
      case None
      with False show ?thesis
        by (auto simp: nojs_verify_def grant_of_def opened_def nojs_mac_def Let_def
            split: option.splits if_splits)
    next
      case (Some raw)
      then have head: "nojs_verify X key token now context =
          (case de_grant X raw of
             None \<Rightarrow> Bad
           | Some grant \<Rightarrow>
               if gr_version grant \<noteq> 2 \<or> \<not> ct_eq (as_bytes (gr_context grant)) (as_bytes context)
                  \<or> \<not> path_ok (gr_path grant) \<or> \<not> (1 \<le> gr_delay grant \<and> gr_delay grant \<le> 30)
                  \<or> gr_iat grant > now \<or> i64_abs_diff now (gr_iat grant) \<ge> nat NOJS_GRACE
               then Bad
               else if now < i64_add (gr_iat grant) (gr_delay grant) then TooEarly grant
               else NojsOk grant)"
        using False unfolding nojs_verify_def opened_def nojs_mac_def Let_def
        by (auto split: option.splits if_splits prod.splits)
      show ?thesis
      proof (cases "de_grant X raw")
        case (Some g)
        with \<open>opened _ _ _ = _\<close> False show ?thesis
          unfolding head Some option.case guard(1) [OF Some]
          using guard(2) [OF Some] by (simp add: grant_of_def Some)
      qed (use head Some False in \<open>simp add: grant_of_def\<close>)
    qed
  qed (simp add: nojs_verify_def grant_of_def)
qed

lemma grant_of_SomeD:
  assumes "base64_laws X" "grant_of X key token now context = Some g"
  shows "grant_valid context now g \<and> length token \<le> 8192 \<and>
    (\<exists>raw. de_grant X raw = Some g \<and> token = sealed (b64url X) (nojs_mac X key) raw)"
proof -
  from assms(2) obtain raw where "opened (unb64url X) (nojs_mac X key) token = Some raw"
    "de_grant X raw = Some g" "grant_valid context now g" "length token \<le> 8192"
    by (auto simp: grant_of_def split: option.splits if_splits)
  then show ?thesis using njs.opened_canonical [OF assms(1)] by blast
qed

subsection \<open>Issuing\<close>

definition issued_grant :: "externals \<Rightarrow> bytes \<Rightarrow> string \<Rightarrow> i64 \<Rightarrow> i64 \<Rightarrow> string \<Rightarrow> grant" where
  "issued_grant X uid path delay now context =
     \<lparr>gr_path = (if path_ok path then path else ''/''), gr_context = context, gr_id = b64url X uid,
      gr_version = 2, gr_iat = now, gr_delay = delay\<rparr>"

lemma nojs_issue_sealed:
  "nojs_issue X (Some uid) key path delay now context =
     Some (sealed (b64url X) (nojs_mac X key) (ser_grant X (issued_grant X uid path delay now context)))"
  by (simp add: nojs_issue_def sealed_def issued_grant_def nojs_mac_def Let_def)

lemma same_site_wf_str: "same_site_path p \<Longrightarrow> wf_str p"
  using same_site_path_ascii [of p] by (auto simp: wf_str_def intro: utf8_valid_ascii)

lemma issued_grant_wf:
  "base64_laws X \<Longrightarrow> wf_str context \<Longrightarrow> in_i64 now \<Longrightarrow> in_i64 delay \<Longrightarrow>
   wf_grant (issued_grant X uid path delay now context)"
  by (auto simp: wf_grant_def issued_grant_def path_ok_def b64url_def b64_encode_wf_str
      intro: same_site_wf_str)

lemma grant_of_issued:
  assumes "base64_laws X" "serde_laws X"
    and "nojs_issue X (Some uid) key path delay iat context = Some token"
    and "wf_str context" "in_i64 iat" "1 \<le> delay" "delay \<le> 30" "length token \<le> 8192"
  shows "grant_of X key token now context =
     (if iat \<le> now \<and> now < iat + 120 then Some (issued_grant X uid path delay iat context) else None)"
proof -
  let ?g = "issued_grant X uid path delay iat context"
  have token: "token = sealed (b64url X) (nojs_mac X key) (ser_grant X ?g)"
    using assms(3) by (simp add: nojs_issue_sealed)
  have "in_i64 delay" using assms(6,7) by (simp add: in_i64_def i64_min_def i64_max_def)
  then have "de_grant X (ser_grant X ?g) = Some ?g"
    using assms(2) issued_grant_wf [OF assms(1,4,5)] unfolding serde_laws_def by blast
  moreover have "opened (unb64url X) (nojs_mac X key) token = Some (ser_grant X ?g)"
    unfolding token by (rule njs.opened_sealed [OF assms(1)])
  moreover have "grant_valid context now ?g \<longleftrightarrow> iat \<le> now \<and> now < iat + 120"
    using assms(6,7) by (auto simp: grant_valid_def issued_grant_def path_ok_def NOJS_GRACE_def)
  ultimately show ?thesis using assms(8) by (simp add: grant_of_def)
qed

subsection \<open>Properties\<close>

text \<open>
  C19. A grant is honoured only if it was sealed with this key in the no-JS domain for this
  context, names a same-site return path, and its whole waiting time has passed within the 120
  second window; presented earlier in the window it is reported as early, and everything else is
  bad (clock at least 30 seconds below the signed 64-bit limit).
\<close>

theorem nojs_verify_sound:
  assumes "base64_laws X" "serde_laws X" "in_i64 now" "now + 30 \<le> i64_max"
    and "nojs_verify X key token now context = NojsOk g \<or> nojs_verify X key token now context = TooEarly g"
  shows "\<exists>raw. token = b64url X raw @ ''.'' @
        b64url X (hmac X key (as_bytes ''nojs-v2|'' @ as_bytes (b64url X raw)))
    \<and> de_grant X raw = Some g \<and> gr_version g = 2 \<and> gr_context g = context
    \<and> same_site_path (gr_path g) \<and> 1 \<le> gr_delay g \<and> gr_delay g \<le> 30
    \<and> gr_iat g \<le> now \<and> now < gr_iat g + 120
    \<and> (nojs_verify X key token now context = NojsOk g \<longleftrightarrow> gr_iat g + gr_delay g \<le> now)"
proof -
  from assms(5) have g: "grant_of X key token now context = Some g"
    unfolding nojs_verify_eq [OF assms(2-4)] by (auto split: option.splits if_splits)
  then have "nojs_verify X key token now context = NojsOk g \<longleftrightarrow> gr_iat g + gr_delay g \<le> now"
    by (simp add: nojs_verify_eq [OF assms(2-4)])
  with grant_of_SomeD [OF assms(1) g] show ?thesis
    unfolding grant_valid_def sealed_def nojs_mac_def mac_input_def NOJS_GRACE_def by blast
qed

text \<open>
  The life of an issued grant over time: bad before it exists, early for \<open>delay\<close> seconds,
  good until 120 seconds after issue, bad for ever after; a path that is not same-site has been
  replaced by the root.
\<close>

theorem nojs_grant_lifetime:
  assumes "base64_laws X" "serde_laws X"
    and "nojs_issue X (Some uid) key path delay iat context = Some token"
    and "wf_str context" "in_i64 iat" "1 \<le> delay" "delay \<le> 30" "length token \<le> 8192"
    and "in_i64 now" "now + 30 \<le> i64_max"
  shows "\<exists>g. gr_path g = (if same_site_path path then path else ''/'') \<and> gr_delay g = delay \<and>
    nojs_verify X key token now context =
      (if now < iat \<or> iat + 120 \<le> now then Bad
       else if now < iat + delay then TooEarly g else NojsOk g)"
proof -
  have "gr_path (issued_grant X uid path delay iat context) = (if same_site_path path then path else ''/'')"
    "gr_delay (issued_grant X uid path delay iat context) = delay"
    "gr_iat (issued_grant X uid path delay iat context) = iat"
    by (simp_all add: issued_grant_def path_ok_def)
  then show ?thesis
    unfolding nojs_verify_eq [OF assms(2,9,10)] grant_of_issued [OF assms(1-8)]
    by (intro exI [of _ "issued_grant X uid path delay iat context"]) auto
qed

subsection \<open>Witnesses\<close>

lemma sample_grant:
  obtains token where "nojs_issue sample (Some [1]) [7] ''/p'' 2 100 ''ctx'' = Some token"
    "length token \<le> 8192"
proof
  let ?g = "issued_grant sample [1] ''/p'' 2 100 ''ctx''"
  show "nojs_issue sample (Some [1]) [7] ''/p'' 2 100 ''ctx'' =
      Some (sealed (b64url sample) (nojs_mac sample [7]) (ser_grant sample ?g))"
    by (rule nojs_issue_sealed)
  show "length (sealed (b64url sample) (nojs_mac sample [7]) (ser_grant sample ?g)) \<le> 8192"
    by (subst length_sealed [OF sample_base64_laws])
      (simp_all add: nojs_mac_def sample_digest_laws length_ser_grant_sample issued_grant_def
        b64url_def b64_length [OF sample_base64_laws] int_str_def nat_str.simps)
qed

theorem nojs_grant_lifetime_witness:
  "\<exists>token g. nojs_issue sample (Some [1]) [7] ''/p'' 2 100 ''ctx'' = Some token \<and>
     nojs_verify sample [7] token 105 ''ctx'' = NojsOk g"
proof -
  obtain token where t: "nojs_issue sample (Some [1]) [7] ''/p'' 2 100 ''ctx'' = Some token"
    "length token \<le> 8192" by (rule sample_grant)
  have c: "wf_str ''ctx''" "in_i64 100" "in_i64 105" "105 + 30 \<le> i64_max"
    by (simp_all add: wf_str_ascii in_i64_def i64_min_def i64_max_def)
  from nojs_grant_lifetime [OF sample_base64_laws sample_serde_laws t(1) c(1,2) _ _ t(2) c(3,4)] t
  show ?thesis by auto
qed

theorem nojs_verify_sound_witness:
  "\<exists>token g. nojs_verify sample [7] token 105 ''ctx'' = NojsOk g \<and> gr_context g = ''ctx'' \<and>
     gr_iat g + gr_delay g \<le> 105"
proof -
  obtain token where t: "nojs_issue sample (Some [1]) [7] ''/p'' 2 100 ''ctx'' = Some token"
    "length token \<le> 8192" by (rule sample_grant)
  have c: "wf_str ''ctx''" "in_i64 100" "in_i64 105" "105 + 30 \<le> i64_max"
    by (simp_all add: wf_str_ascii in_i64_def i64_min_def i64_max_def)
  have "grant_of sample [7] token 105 ''ctx'' = Some (issued_grant sample [1] ''/p'' 2 100 ''ctx'')"
    by (simp add: grant_of_issued [OF sample_base64_laws sample_serde_laws t(1) c(1,2) _ _ t(2)])
  then have "nojs_verify sample [7] token 105 ''ctx'' = NojsOk (issued_grant sample [1] ''/p'' 2 100 ''ctx'')"
    by (simp add: nojs_verify_eq [OF sample_serde_laws c(3,4)] issued_grant_def)
  with nojs_verify_sound [OF sample_base64_laws sample_serde_laws c(3,4) disjI1 [OF this]]
  show ?thesis by blast
qed

end
