(* ===== verification/Request_Proof.thy ===== *)
theory Request_Proof
  imports Wire Sample
begin

text \<open>
  \<open>pow-gate-core/src/proof.rs\<close>: the signature that binds one request to the key of a clearance.
  The curve arithmetic of \<open>p256\<close> and \<open>ring\<close> is a parameter; the crate is compiled with one of
  them, which the argument \<open>native\<close> says.
\<close>

definition verify_signature :: "bool \<Rightarrow> externals \<Rightarrow> bytes \<Rightarrow> bytes \<Rightarrow> bytes \<Rightarrow> bool" where
  "verify_signature native X pk msg sig =
     (if native then
        (if length pk = 33 then
           (case p256_from_sec1 X pk of
              None \<Rightarrow> False
            | Some encoded \<Rightarrow> ring_verify X encoded msg sig)
         else ring_verify X pk msg sig)
      else
        (case p256_from_sec1 X pk of
           None \<Rightarrow> False
         | Some vk \<Rightarrow>
             (case p256_signature X sig of
                None \<Rightarrow> False
              | Some sig' \<Rightarrow> p256_verify X vk msg sig')))"

definition message :: "string \<Rightarrow> string \<Rightarrow> i64 \<Rightarrow> string" where
  "message method path ts = method @ '' '' @ path @ '' '' @ int_str ts"

datatype proof_check = Valid | Skewed | Invalid

definition check ::
  "bool \<Rightarrow> externals \<Rightarrow> bytes \<Rightarrow> string \<Rightarrow> string \<Rightarrow> i64 \<Rightarrow> bytes \<Rightarrow> i64 \<Rightarrow> i64 \<Rightarrow> proof_check" where
  "check native X pk_sec1 method path ts sig now skew =
     (if skew < 0 then Invalid
      else if i64_abs_diff now ts > nat skew then Skewed
      else if verify_signature native X pk_sec1 (as_bytes (message method path ts)) sig
      then Valid else Invalid)"

definition proof_verify ::
  "bool \<Rightarrow> externals \<Rightarrow> bytes \<Rightarrow> string \<Rightarrow> string \<Rightarrow> i64 \<Rightarrow> bytes \<Rightarrow> i64 \<Rightarrow> i64 \<Rightarrow> bool" where
  "proof_verify native X pk_sec1 method path ts sig now skew =
     (check native X pk_sec1 method path ts sig now skew = Valid)"

definition valid_public_key :: "externals \<Rightarrow> bytes \<Rightarrow> bool" where
  "valid_public_key X pk \<longleftrightarrow> length pk = 65 \<and> pk ! 0 = 4 \<and> p256_from_sec1 X pk \<noteq> None"

definition challenge_message :: "string \<Rightarrow> string" where
  "challenge_message token = ''pow-gate-redeem-v2 '' @ token"

definition verify_challenge :: "bool \<Rightarrow> externals \<Rightarrow> bytes \<Rightarrow> string \<Rightarrow> bytes \<Rightarrow> bool" where
  "verify_challenge native X pk token sig =
     verify_signature native X pk (as_bytes (challenge_message token)) sig"

subsection \<open>Facts\<close>

lemma message_inject:
  assumes "CHR '' '' \<notin> set m" "CHR '' '' \<notin> set m'" "CHR '' '' \<notin> set p" "CHR '' '' \<notin> set p'"
    and "message m p t = message m' p' t'"
  shows "m = m' \<and> p = p' \<and> t = t'"
proof -
  have "m = m' \<and> p @ '' '' @ int_str t = p' @ '' '' @ int_str t'"
    using assms(5) split_once_unique [OF assms(1,2)] by (auto simp: message_def)
  then show ?thesis using split_once_unique [OF assms(3,4), of "int_str t" "int_str t'"] by auto
qed

subsection \<open>Properties\<close>

text \<open>
  A request proof is valid exactly when its timestamp is within the allowed skew of the
  clock and the signature verifies for this method, path and timestamp; outside the window it is
  reported as skewed whatever the signature. A message names one method, path and timestamp, so
  a signature for one request is not one for another (methods and paths hold no space).
\<close>

theorem check_outcomes:
  assumes "CHR '' '' \<notin> set m" "CHR '' '' \<notin> set m'" "CHR '' '' \<notin> set p" "CHR '' '' \<notin> set p'"
  shows "(check native X pk m p ts sig now skew = Valid \<longleftrightarrow>
            \<bar>now - ts\<bar> \<le> skew \<and>
            verify_signature native X pk (as_bytes (message m p ts)) sig) \<and>
         (check native X pk m p ts sig now skew = Skewed \<longleftrightarrow> 0 \<le> skew \<and> skew < \<bar>now - ts\<bar>) \<and>
         (message m p ts = message m' p' ts' \<longleftrightarrow> m = m' \<and> p = p' \<and> ts = ts')"
  using message_inject [OF assms, of ts ts']
  by (auto simp: check_def i64_abs_diff_def)

theorem check_outcomes_witness:
  "check False sample (4 # replicate 64 0) ''GET'' ''/a'' 100
     (sample_sign (as_bytes (message ''GET'' ''/a'' 100))) 103 5 = Valid"
proof -
  have "verify_signature False sample (4 # replicate 64 0) (as_bytes (message ''GET'' ''/a'' 100))
      (sample_sign (as_bytes (message ''GET'' ''/a'' 100)))"
    by (simp add: verify_signature_def sample_def sample_point_def sample_sign_def)
  then show ?thesis
    using check_outcomes [of "''GET''" "''GET''" "''/a''" "''/a''" False sample "4 # replicate 64 0" 100
        "sample_sign (as_bytes (message ''GET'' ''/a'' 100))" 103 5] by simp
qed

end
