(* ===== verification/Decision.thy ===== *)
theory Decision
  imports Rust_Std
begin

text \<open>\<open>pow-gate-core/src/decision.rs\<close>: the per-request verdict string.\<close>

definition NOJS_DEFAULT_DELAY :: i64 where "NOJS_DEFAULT_DELAY = 2"
definition NOJS_MIN_DELAY :: i64 where "NOJS_MIN_DELAY = 1"
definition NOJS_MAX_DELAY :: i64 where "NOJS_MAX_DELAY = 30"

datatype decision =
    Challenge "u64 option"
  | ChallengeNoJs i64
  | Allow
  | Deny
  | Verify string

definition clamp :: "i64 \<Rightarrow> i64 \<Rightarrow> i64 \<Rightarrow> i64" where
  "clamp lo hi v = (if v < lo then lo else if hi < v then hi else v)"

definition parse_challenge_arg :: "string \<Rightarrow> decision" where
  "parse_challenge_arg arg =
     (if arg = ''js'' then Challenge (Some 1)
      else if arg = ''nojs'' then ChallengeNoJs NOJS_DEFAULT_DELAY
      else case strip_prefix arg ''nojs:'' of
          Some secs \<Rightarrow>
            ChallengeNoJs (clamp NOJS_MIN_DELAY NOJS_MAX_DELAY
              (case parse_i64 secs of Some n \<Rightarrow> n | None \<Rightarrow> NOJS_DEFAULT_DELAY))
        | None \<Rightarrow>
            (case parse_u64 arg of
               Some n \<Rightarrow> Challenge (Some (max n 1))
             | None \<Rightarrow> Challenge None))"

definition parse :: "string \<Rightarrow> decision" where
  "parse s =
     (if s = ''allow'' then Allow
      else if s = ''deny'' then Deny
      else if s = '''' \<or> s = ''challenge'' then Challenge None
      else case split_once (CHR '':'') s of
          Some (kind, arg) \<Rightarrow>
            if kind = ''verify'' \<and> arg \<noteq> [] then Verify arg
            else if kind = ''challenge'' then parse_challenge_arg arg
            else Challenge None
        | None \<Rightarrow> Challenge None)"

text \<open>The grammar's writer, for the round trip: the canonical text of every decision.\<close>

fun decision_text :: "decision \<Rightarrow> string" where
  "decision_text (Challenge None) = ''challenge''"
| "decision_text (Challenge (Some n)) = ''challenge:'' @ nat_str (unat n)"
| "decision_text (ChallengeNoJs d) = ''challenge:nojs:'' @ int_str d"
| "decision_text Allow = ''allow''"
| "decision_text Deny = ''deny''"
| "decision_text (Verify name) = ''verify:'' @ name"

text \<open>What every parsed decision satisfies: positive difficulty, clamped delay, named verifier.\<close>

fun decision_ok :: "decision \<Rightarrow> bool" where
  "decision_ok (Challenge None) = True"
| "decision_ok (Challenge (Some n)) = (1 \<le> n)"
| "decision_ok (ChallengeNoJs d) = (NOJS_MIN_DELAY \<le> d \<and> d \<le> NOJS_MAX_DELAY)"
| "decision_ok Allow = True"
| "decision_ok Deny = True"
| "decision_ok (Verify name) = (name \<noteq> [])"

lemma clamp_bounds: "lo \<le> hi \<Longrightarrow> lo \<le> clamp lo hi v \<and> clamp lo hi v \<le> hi"
  by (simp add: clamp_def)

lemma clamp_id: "lo \<le> v \<Longrightarrow> v \<le> hi \<Longrightarrow> clamp lo hi v = v"
  by (simp add: clamp_def)

lemma parse_challenge_arg_challenges [simp]:
  "parse_challenge_arg arg \<noteq> Allow" "parse_challenge_arg arg \<noteq> Deny"
  "parse_challenge_arg arg \<noteq> Verify name"
  by (simp_all add: parse_challenge_arg_def split: option.split)

lemma parse_challenge_arg_ok: "decision_ok (parse_challenge_arg arg)"
  using clamp_bounds [of NOJS_MIN_DELAY NOJS_MAX_DELAY]
  by (auto simp: parse_challenge_arg_def NOJS_MIN_DELAY_def NOJS_MAX_DELAY_def
      NOJS_DEFAULT_DELAY_def split: option.splits)

lemma parse_ok: "decision_ok (parse s)"
  using parse_challenge_arg_ok by (auto simp: parse_def split: option.splits)

lemma parse_Allow_iff: "parse s = Allow \<longleftrightarrow> s = ''allow''"
  by (simp add: parse_def split: option.split)

lemma parse_Deny_iff: "parse s = Deny \<longleftrightarrow> s = ''deny''"
  by (simp add: parse_def split: option.split)

lemma parse_Verify_iff: "parse s = Verify name \<longleftrightarrow> s = ''verify:'' @ name \<and> name \<noteq> []"
proof
  assume "parse s = Verify name"
  then have "split_once (CHR '':'') s = Some (''verify'', name) \<and> name \<noteq> []"
    by (simp add: parse_def split: option.splits if_splits prod.splits)
  then show "s = ''verify:'' @ name \<and> name \<noteq> []" by (simp add: split_once_Some)
next
  assume s: "s = ''verify:'' @ name \<and> name \<noteq> []"
  then have "split_once (CHR '':'') s = Some (''verify'', name)" by (simp add: split_once_Some)
  with s show "parse s = Verify name" by (simp add: parse_def)
qed

lemma digits_not_nojs: "strip_prefix (nat_str n) ''nojs:'' = None"
  using nat_str_hd [of n] by (auto simp: strip_prefix_def starts_with_iff is_ascii_digit_def)

lemma digits_not_words: "nat_str n \<noteq> ''js''" "nat_str n \<noteq> ''nojs''"
  using nat_str_hd [of n] by (auto simp: is_ascii_digit_def)

subsection \<open>Properties\<close>

text \<open>
  C20. A decision string never opens the gate by accident: the request is let through only for the
  exact text \<open>allow\<close>, handed to a verifier only for \<open>verify:\<close> with a non-empty name, denied only
  for \<open>deny\<close>; every other text is a challenge, whose difficulty is at least 1 and whose no-JS
  delay lies between 1 and 30 seconds.
\<close>

theorem parse_fail_safe:
  "(parse s = Allow \<longleftrightarrow> s = ''allow'') \<and>
   (parse s = Deny \<longleftrightarrow> s = ''deny'') \<and>
   (parse s = Verify name \<longleftrightarrow> s = ''verify:'' @ name \<and> name \<noteq> []) \<and>
   decision_ok (parse s)"
  by (intro conjI parse_Allow_iff parse_Deny_iff parse_Verify_iff parse_ok)

text \<open>
  Every well-formed decision has a text that parses to it: the grammar can express each
  difficulty from 1, each delay from 1 to 30 and each verifier name, and the parser reads them
  back exactly.
\<close>

theorem parse_decision_text:
  assumes "decision_ok d"
  shows "parse (decision_text d) = d"
proof (cases d)
  case (Challenge od)
  then show ?thesis
  proof (cases od)
    case (Some n)
    have "split_once (CHR '':'') (''challenge'' @ CHR '':'' # nat_str (unat n)) = Some (''challenge'', nat_str (unat n))"
      by (rule split_once_append) simp
    moreover have "max n 1 = n" using assms Some Challenge by (simp add: max_def)
    ultimately show ?thesis using Some Challenge
      by (simp add: parse_def parse_challenge_arg_def digits_not_nojs digits_not_words)
  qed (simp add: parse_def)
next
  case (ChallengeNoJs t)
  have "in_i64 t" using assms ChallengeNoJs
    by (simp add: in_i64_def i64_min_def i64_max_def NOJS_MIN_DELAY_def NOJS_MAX_DELAY_def)
  moreover have "split_once (CHR '':'') (''challenge'' @ CHR '':'' # ''nojs:'' @ int_str t) = Some (''challenge'', ''nojs:'' @ int_str t)"
    by (rule split_once_append) simp
  moreover have "clamp NOJS_MIN_DELAY NOJS_MAX_DELAY t = t"
    using assms ChallengeNoJs by (simp add: clamp_id)
  ultimately show ?thesis using ChallengeNoJs
    by (simp add: parse_def parse_challenge_arg_def strip_prefix_def starts_with_def)
next
  case (Verify name)
  then show ?thesis using assms parse_Verify_iff by simp
qed (simp_all add: parse_def)

theorem parse_decision_text_witness:
  "decision_ok (ChallengeNoJs 5) \<and>
   parse (decision_text (ChallengeNoJs 5)) = ChallengeNoJs 5"
proof -
  have "decision_ok (ChallengeNoJs 5)" by (simp add: NOJS_MIN_DELAY_def NOJS_MAX_DELAY_def)
  then show ?thesis using parse_decision_text by blast
qed

end
