(* ===== verification/Replay.thy ===== *)
theory Replay
  imports Uri Codec
begin

text \<open>
  \<open>pow-gate-core/src/replay.rs\<close>: the captured request that a challenge page carries, its JSON
  payload with markup escaped, and its insertion into the page.
\<close>

definition SCRIPT_ID :: string where "SCRIPT_ID = ''pow-replay''"

definition NEVER_REPLAYED :: "string list" where
  "NEVER_REPLAYED = [''GET'', ''HEAD'', ''TRACE'', ''CONNECT'']"

definition MAX_CONTENT_TYPE :: nat where "MAX_CONTENT_TYPE = 200"

definition method_replayable :: "string \<Rightarrow> bool" where
  "method_replayable method \<longleftrightarrow>
     method \<noteq> [] \<and> list_all is_ascii_alphabetic method \<and>
     \<not> list_ex (\<lambda>m. eq_ignore_ascii_case m method) NEVER_REPLAYED"

text \<open>Only ASCII passes the filter, so filtering bytes and filtering characters agree.\<close>

definition sanitize_content_type :: "string \<Rightarrow> string" where
  "sanitize_content_type ct =
     take MAX_CONTENT_TYPE
       (filter (\<lambda>c. 32 \<le> (of_char c :: nat) \<and> (of_char c :: nat) \<le> 126) ct)"

fun escape_markup :: "string \<Rightarrow> string" where
  "escape_markup [] = []"
| "escape_markup (c # json) =
     (if c = CHR ''<'' then CHR 0x5C # ''u003c''
      else if c = CHR ''>'' then CHR 0x5C # ''u003e''
      else if c = CHR ''&'' then CHR 0x5C # ''u0026''
      else [c]) @ escape_markup json"

record captured =
  cap_method :: string
  cap_url :: string
  cap_content_type :: string
  cap_body :: bytes

definition captured_new :: "string \<Rightarrow> string \<Rightarrow> string \<Rightarrow> bytes \<Rightarrow> captured option" where
  "captured_new method url content_type body =
     (if \<not> method_replayable method \<or> \<not> same_site_path url then None
      else Some \<lparr>cap_method = method, cap_url = url,
                 cap_content_type = sanitize_content_type content_type, cap_body = body\<rparr>)"

definition payload :: "externals \<Rightarrow> captured \<Rightarrow> string" where
  "payload X c =
     escape_markup (json_object X
       [(''method'', cap_method c), (''url'', cap_url c), (''type'', cap_content_type c),
        (''body'', b64url X (cap_body c))])"

definition script_tag :: "externals \<Rightarrow> captured \<Rightarrow> string" where
  "script_tag X c =
     ''<script id='' @ [CHR 0x22] @ SCRIPT_ID @ [CHR 0x22] @ '' type='' @ [CHR 0x22]
       @ ''application/json'' @ [CHR 0x22] @ ''>'' @ payload X c @ ''</script>'' @ [CHR 0x0A]"

definition rfind_ci :: "bytes \<Rightarrow> bytes \<Rightarrow> nat option" where
  "rfind_ci haystack needle =
     (if needle = [] \<or> length haystack < length needle then None
      else find (\<lambda>i. eq_ignore_ascii_case_u8 (take (length needle) (drop i haystack)) needle)
             (rev [0..<length haystack - length needle + 1]))"

definition inject :: "bytes \<Rightarrow> string \<Rightarrow> bytes" where
  "inject page tag =
     (let at = (case rfind_ci page (as_bytes ''</body>'') of Some i \<Rightarrow> i | None \<Rightarrow> length page)
      in take at page @ as_bytes tag @ drop at page)"

subsection \<open>Facts\<close>

lemma escape_markup_set: "c \<in> set (escape_markup s) \<Longrightarrow> c \<noteq> CHR ''<'' \<and> c \<noteq> CHR ''>'' \<and> c \<noteq> CHR ''&''"
  by (induction s) (auto split: if_splits)

text \<open>An occurrence of \<open>needle\<close>, ignoring ASCII case, at position \<open>i\<close>.\<close>

definition occurs_ci :: "bytes \<Rightarrow> bytes \<Rightarrow> nat \<Rightarrow> bool" where
  "occurs_ci haystack needle i \<longleftrightarrow>
     i + length needle \<le> length haystack \<and>
     eq_ignore_ascii_case_u8 (take (length needle) (drop i haystack)) needle"

lemma find_rev_upt_Some:
  "find P (rev [0..<n]) = Some i \<longleftrightarrow> i < n \<and> P i \<and> (\<forall>j. i < j \<and> j < n \<longrightarrow> \<not> P j)"
  by (induction n) (auto simp: less_Suc_eq)

lemma find_rev_upt_None: "find P (rev [0..<n]) = None \<longleftrightarrow> (\<forall>j<n. \<not> P j)"
  by (auto simp: find_None_iff)

lemma occurs_ci_iff:
  "n \<noteq> [] \<Longrightarrow> length n \<le> length h \<Longrightarrow>
   occurs_ci h n i \<longleftrightarrow> i < length h - length n + 1 \<and> eq_ignore_ascii_case_u8 (take (length n) (drop i h)) n"
  by (auto simp: occurs_ci_def)

lemma rfind_ci_Some:
  assumes "rfind_ci h n = Some i"
  shows "occurs_ci h n i \<and> (\<forall>j. i < j \<longrightarrow> \<not> occurs_ci h n j)"
proof -
  have n: "n \<noteq> []" "length n \<le> length h" using assms by (auto simp: rfind_ci_def split: if_splits)
  from assms n have "find (\<lambda>i. eq_ignore_ascii_case_u8 (take (length n) (drop i h)) n)
      (rev [0..<length h - length n + 1]) = Some i" unfolding rfind_ci_def by (simp only: if_False) simp
  then show ?thesis unfolding find_rev_upt_Some occurs_ci_iff [OF n] by blast
qed

lemma rfind_ci_None:
  assumes "rfind_ci h n = None" "n \<noteq> []"
  shows "\<not> occurs_ci h n i"
proof (cases "length n \<le> length h")
  case True
  with assms have "find (\<lambda>i. eq_ignore_ascii_case_u8 (take (length n) (drop i h)) n)
      (rev [0..<length h - length n + 1]) = None" unfolding rfind_ci_def by (simp split: if_splits)
  then show ?thesis unfolding find_rev_upt_None occurs_ci_iff [OF assms(2) True] by blast
qed (simp add: occurs_ci_def)

subsection \<open>Properties\<close>

text \<open>
  C38. A captured request cannot break out of the page: whatever method, URL, content type and
  body the client sent, the payload between the script tags holds no \<open><\<close>, \<open>>\<close> or \<open>&\<close>, so it
  closes no element and opens none; what is captured has a replayable alphabetic method, a
  same-site URL and a printable content type of at most 200 characters.
\<close>

theorem captured_payload_inert:
  assumes "captured_new method url content_type body = Some c"
  shows "(\<forall>x\<in>set (payload X c). x \<noteq> CHR ''<'' \<and> x \<noteq> CHR ''>'' \<and> x \<noteq> CHR ''&'') \<and>
    same_site_path (cap_url c) \<and> list_all is_ascii_alphabetic (cap_method c) \<and>
    length (cap_content_type c) \<le> 200 \<and>
    (\<forall>x\<in>set (cap_content_type c). 32 \<le> (of_char x :: nat) \<and> (of_char x :: nat) < 127) \<and>
    cap_body c = body"
proof -
  have c: "c = \<lparr>cap_method = method, cap_url = url, cap_content_type = sanitize_content_type content_type,
      cap_body = body\<rparr>" "method_replayable method" "same_site_path url"
    using assms by (auto simp: captured_new_def split: if_splits)
  have "x \<in> set (sanitize_content_type content_type) \<Longrightarrow> 32 \<le> (of_char x :: nat) \<and> (of_char x :: nat) < 127" for x
    by (auto simp: sanitize_content_type_def dest: in_set_takeD)
  moreover have "length (sanitize_content_type content_type) \<le> 200"
    by (simp add: sanitize_content_type_def MAX_CONTENT_TYPE_def)
  moreover have "list_all is_ascii_alphabetic method" using c(2) by (simp add: method_replayable_def)
  ultimately show ?thesis using c escape_markup_set by (auto simp: payload_def)
qed

theorem captured_payload_inert_witness:
  "\<exists>c. captured_new ''POST'' ''/order'' ''text/plain'' [60, 62] = Some c \<and>
       (\<forall>x\<in>set (payload sample c). x \<noteq> CHR ''<'') \<and> cap_body c = [60, 62]"
proof -
  have "method_replayable ''POST''" by code_simp
  moreover have "same_site_path ''/order''" by code_simp
  ultimately obtain c where "captured_new ''POST'' ''/order'' ''text/plain'' [60, 62] = Some c"
    by (simp add: captured_new_def)
  with captured_payload_inert [OF this, of sample] show ?thesis by blast
qed

text \<open>
  Injection only adds the tag: the page is cut in two, the tag goes between, and the second
  part starts at the last closing body tag (in any case), or is empty when there is none.
\<close>

theorem inject_before_last_body:
  "\<exists>a b. page = a @ b \<and> inject page tag = a @ as_bytes tag @ b \<and>
     (if \<exists>i. occurs_ci page (as_bytes ''</body>'') i
      then occurs_ci page (as_bytes ''</body>'') (length a) \<and>
           \<not> (\<exists>j. length a < j \<and> occurs_ci page (as_bytes ''</body>'') j)
      else b = [])"
proof (cases "rfind_ci page (as_bytes ''</body>'')")
  case None
  then have "\<not> occurs_ci page (as_bytes ''</body>'') i" for i by (rule rfind_ci_None) simp
  then show ?thesis using None by (intro exI [of _ page] exI [of _ "[]"]) (simp add: inject_def)
next
  case (Some i)
  note occ = rfind_ci_Some [OF Some]
  then have "i \<le> length page" by (simp add: occurs_ci_def)
  then show ?thesis using Some occ
    by (intro exI [of _ "take i page"] exI [of _ "drop i page"]) (auto simp: inject_def)
qed

end
