(* ===== verification/Engine.thy ===== *)
theory Engine
  imports Worker Clearance Pow_Challenge Nojs Request_Proof Decision Replay
begin

text \<open>
  The nginx-facing engine: \<open>engine/clearance.rs\<close>, \<open>engine/pow.rs\<close>, \<open>engine/nojs.rs\<close>, the request
  capture of the module's \<open>replay.rs\<close>, the internal routes of \<open>challenge.rs\<close> and the policy
  helpers of \<open>access.rs\<close>. A failing random generator panics, which aborts the process: the action
  \<open>Aborted\<close>, after which the returned status means nothing.
\<close>

subsection \<open>Policy\<close>

definition eval_complex_value :: "nginx \<Rightarrow> complex_value option \<Rightarrow> request \<Rightarrow> string" where
  "eval_complex_value N cv r =
     (case cv of
        None \<Rightarrow> []
      | Some cv \<Rightarrow>
          if \<not> cv_dynamic cv then from_utf8_lossy (cv_value cv)
          else case ng_complex_value N cv r of Some v \<Rightarrow> from_utf8_lossy v | None \<Rightarrow> [])"

definition is_trusted :: "nginx \<Rightarrow> complex_value option \<Rightarrow> request \<Rightarrow> bool" where
  "is_trusted N cv r =
     (case cv of
        None \<Rightarrow> False
      | Some cv \<Rightarrow> (case ng_complex_value N cv r of Some v \<Rightarrow> v = as_bytes ''1'' | None \<Rightarrow> False))"

definition assurance_for :: "decision \<Rightarrow> cfg \<Rightarrow> assurance" where
  "assurance_for decision c =
     (case decision of
        ChallengeNoJs delay \<Rightarrow> NoJs delay
      | Challenge (Some n) \<Rightarrow> Pow n
      | _ \<Rightarrow> Pow (cf_difficulty c))"

definition required_assurance :: "nginx \<Rightarrow> location_conf \<Rightarrow> cfg \<Rightarrow> request \<Rightarrow> assurance" where
  "required_assurance N lc c r = assurance_for (parse (eval_complex_value N (lc_decision lc) r)) c"

definition resolve_worker ::
  "externals \<Rightarrow> gate_env \<Rightarrow> location_conf \<Rightarrow> worker \<Rightarrow> cfg \<times> worker" where
  "resolve_worker X E lc w =
     (let (c, cells, keys) = resolve X (ge_fs E) lc (wk_cells w, wk_keys w)
      in (c, w\<lparr>wk_cells := cells, wk_keys := keys\<rparr>))"

definition abort :: "request \<Rightarrow> int \<times> request" where
  "abort r = (NGX_ERROR, emit Aborted r)"

subsection \<open>Clearance\<close>

datatype clearance_check = ClearanceValid | ClearanceSkewed | ClearanceInvalid

definition can_carry_proof :: "request \<Rightarrow> bool" where
  "can_carry_proof r =
     (case header ''sec-fetch-dest'' r of
        Some dest \<Rightarrow> eq_ignore_ascii_case dest ''empty''
      | None \<Rightarrow> False)"

definition parse_proof :: "externals \<Rightarrow> string \<Rightarrow> (bytes \<times> i64) option" where
  "parse_proof X h =
     (case rsplit_once (CHR ''.'') h of
        None \<Rightarrow> None
      | Some (sig_b64, ts) \<Rightarrow>
          (case unb64url_fixed X 64 sig_b64 of
             None \<Rightarrow> None
           | Some sig \<Rightarrow> (case parse_i64 ts of None \<Rightarrow> None | Some ts \<Rightarrow> Some (sig, ts))))"

text \<open>The closure run on a verified clearance: the verdict and the \<open>skewed\<close> cell.\<close>

definition proof_verdict ::
  "externals \<Rightarrow> bool \<Rightarrow> cfg \<Rightarrow> i64 \<Rightarrow> request \<Rightarrow> verified_clearance \<Rightarrow> bool \<times> bool" where
  "proof_verdict X native c now r cleared =
     (case header ''x-pow-proof'' r of
        Some proof_header \<Rightarrow>
          (case parse_proof X proof_header of
             None \<Rightarrow> (False, False)
           | Some (sig, ts) \<Rightarrow>
               (let (method, path) = method_and_path r in
                case check native X (public_key cleared) method path ts sig now (cf_proof_skew c) of
                  Valid \<Rightarrow> (True, False)
                | Skewed \<Rightarrow> (False, True)
                | Invalid \<Rightarrow> (False, False)))
      | None \<Rightarrow> (\<not> cf_require_proof c \<or> \<not> can_carry_proof r, False))"

definition verified ::
  "externals \<Rightarrow> gate_env \<Rightarrow> cfg \<Rightarrow> assurance \<Rightarrow> worker \<Rightarrow> request \<Rightarrow> bool \<times> bool" where
  "verified X E c required w r =
     (if \<not> cf_key_ok c then (False, False)
      else
        (let now = ge_now E AtClearance in
         case cookie (cc_name (cf_cookie c)) r of
           None \<Rightarrow> (False, False)
         | Some token \<Rightarrow>
             if length token > 4096 then (False, False)
             else case client_context X (issuer w) c r of
                 None \<Rightarrow> (False, False)
               | Some context \<Rightarrow>
                   (case with_verified_prepared X (cf_authenticator c) token context required now
                           (cf_clearance_ttl c) (proof_verdict X (ge_native E) c now r) of
                      Some res \<Rightarrow> res
                    | None \<Rightarrow> (False, False))))"

definition check_clearance ::
  "externals \<Rightarrow> gate_env \<Rightarrow> cfg \<Rightarrow> assurance \<Rightarrow> worker \<Rightarrow> request \<Rightarrow> clearance_check" where
  "check_clearance X E c required w r =
     (let (ok, skewed) = verified X E c required w r in
      if ok then ClearanceValid else if skewed then ClearanceSkewed else ClearanceInvalid)"

subsection \<open>Proof of work\<close>

definition CHALLENGE_GRACE :: i64 where "CHALLENGE_GRACE = 120"

definition issue_challenge ::
  "externals \<Rightarrow> gate_env \<Rightarrow> cfg \<Rightarrow> assurance \<Rightarrow> worker \<Rightarrow> request \<Rightarrow> int \<times> request" where
  "issue_challenge X E c required w r =
     (let N = ge_nginx E in
      if \<not> cf_key_ok c \<or> store_down E w then
        (let r = record_outcome N ''error'' ''issuer_unavailable'' 0 r
         in send_and_finish N SERVICE_UNAVAILABLE ''text/plain'' (as_bytes (''unavailable'' @ [CHR 0x0A])) None r)
      else
        (let r = record_outcome N ''rejected'' ''invalid_key'' 0 r in
         case required of
           NoJs _ \<Rightarrow> (BAD_REQUEST, r)
         | Pow difficulty \<Rightarrow>
             (let pk = Option.bind
                         (case header_limited ''x-pow-key'' 87 r of
                            Some s \<Rightarrow> if length s = 87 then Some s else None
                          | None \<Rightarrow> None)
                         (unb64url X)
              in case (case pk of Some pk \<Rightarrow> if valid_public_key X pk then Some pk else None | None \<Rightarrow> None) of
                   None \<Rightarrow> (BAD_REQUEST, r)
                 | Some pk \<Rightarrow>
                     (case client_context X (issuer w) c r of
                        None \<Rightarrow> (SERVICE_UNAVAILABLE, r)
                      | Some context \<Rightarrow>
                          (case pow_issue X (ge_rng E) (cf_key c) pk context difficulty
                                  (ge_now E AtIssue) CHALLENGE_GRACE of
                             None \<Rightarrow> abort r
                           | Some challenge \<Rightarrow>
                               (let r = record_outcome N ''issued'' ''pow'' difficulty r;
                                    body = ser_challenge X challenge (ge_now E AtBody)
                                in send_and_finish_with_headers N HTTP_OK ''application/json'' body
                                     [(''Cache-Control'', ''no-store'')] r))))))"

text \<open>\<open>POST verify\<close>: check the declared length, arm the limiter, start reading the body.\<close>

definition read_solution :: "gate_env \<Rightarrow> request \<Rightarrow> int \<times> request" where
  "read_solution E r =
     (let N = ge_nginx E;
          r = record_outcome N ''rejected'' ''invalid_submission'' 0 r in
      if rq_content_length_n r > int VERIFY_LIMIT then (REQUEST_ENTITY_TOO_LARGE, r)
      else
        (let (ok, r) = enable N r in
         if \<not> ok then (SERVICE_UNAVAILABLE, r)
         else
           (let (rc, r) = read_client_request_body N VerifyBody r in
            if rc \<ge> SPECIAL_RESPONSE then (rc, r)
            else (NGX_DONE, finalize_request NGX_DONE r))))"

definition finalize_status :: "gate_env \<Rightarrow> int \<Rightarrow> request \<Rightarrow> request" where
  "finalize_status E status r =
     (let (_, r) = send (ge_nginx E) status ''text/plain'' (as_bytes (''rejected'' @ [CHR 0x0A])) None r
      in finalize_request NGX_OK r)"

definition submitted_challenge :: "submission \<Rightarrow> challenge" where
  "submitted_challenge sub =
     \<lparr>ch_version = sb_version sub, ch_salt = sb_salt sub, ch_exp = sb_exp sub,
      ch_difficulty = sb_difficulty sub, ch_token = sb_token sub\<rparr>"

text \<open>The callback once the body is there.\<close>

definition verify_body ::
  "externals \<Rightarrow> gate_env \<Rightarrow> location_conf option \<Rightarrow> worker \<Rightarrow> request \<Rightarrow> worker \<times> request" where
  "verify_body X E lco w r =
     (let N = ge_nginx E in
      case lco of
        None \<Rightarrow> (w, finalize_status E BAD_REQUEST r)
      | Some lc \<Rightarrow>
     (let (c, w) = resolve_worker X E lc w;
          r = record_outcome N ''rejected'' ''invalid_submission'' (cf_difficulty c) r in
      if \<not> cf_key_ok c then (w, finalize_status E SERVICE_UNAVAILABLE r)
      else
     (let now = ge_now E AtVerify in
      case request_body_limited (ge_pread E) VERIFY_LIMIT r of
        None \<Rightarrow> (w, finalize_status E BAD_REQUEST r)
      | Some body \<Rightarrow>
      case de_submission X body of
        None \<Rightarrow> (w, finalize_status E BAD_REQUEST r)
      | Some sub \<Rightarrow>
     (let required = required_assurance N lc c r in
      case required of
        NoJs _ \<Rightarrow> (w, finalize_status E BAD_REQUEST r)
      | Pow difficulty \<Rightarrow>
      case (case unb64url X (sb_pubkey sub) of
              Some pk \<Rightarrow> if valid_public_key X pk then Some pk else None | None \<Rightarrow> None) of
        None \<Rightarrow> (w, finalize_status E BAD_REQUEST r)
      | Some pk \<Rightarrow>
      case client_context X (issuer w) c r of
        None \<Rightarrow> (w, finalize_status E SERVICE_UNAVAILABLE r)
      | Some context \<Rightarrow>
     (let challenge = submitted_challenge sub;
          verdict = verify_solution X (cf_key c) challenge (sb_nonce sub) pk context difficulty now in
      if verdict \<noteq> PowOk then
        (let reason = (case verdict of
                         Expired \<Rightarrow> ''challenge_expired''
                       | BadToken \<Rightarrow> ''bad_token''
                       | _ \<Rightarrow> ''wrong_solution'');
             r = record_outcome N ''rejected'' reason (cf_difficulty c) r
         in (w, finalize_status E BAD_REQUEST r))
      else case unb64url X (sb_signature sub) of
        None \<Rightarrow> (w, finalize_status E BAD_REQUEST r)
      | Some signature \<Rightarrow>
          if \<not> verify_challenge (ge_native E) X pk (ch_token challenge) signature
          then (w, finalize_status E BAD_REQUEST r)
          else
            (let token = clearance_issue X (cf_key c) pk context required now (cf_clearance_ttl c);
                 g = \<lparr>rg_cookie = build_set_cookie token (cf_cookie c), rg_redirect = None,
                      rg_difficulty = difficulty, rg_kind = ''pow''\<rparr>
             in snd (redeem X E (ch_token challenge) (ch_exp challenge) g w r)))))))"

subsection \<open>Waiting without JavaScript\<close>

definition redirect_body :: "string \<Rightarrow> string" where
  "redirect_body path =
     ''<html><body><a href='' @ [CHR 0x22] @ path @ [CHR 0x22] @ ''>Continue</a></body></html>'' @ [CHR 0x0A]"

definition query_param :: "string \<Rightarrow> request \<Rightarrow> string option" where
  "query_param name r =
     map_option snd
       (find (\<lambda>kv. fst kv = name)
          (List.map_filter (split_once (CHR ''='')) (split_on (CHR ''&'') (rq_args r))))"

definition pass_url :: "cfg \<Rightarrow> string \<Rightarrow> string" where
  "pass_url c grant = cf_endpoint c @ ''pass?t='' @ grant"

definition pass ::
  "externals \<Rightarrow> gate_env \<Rightarrow> cfg \<Rightarrow> bytes \<Rightarrow> assurance \<Rightarrow> worker \<Rightarrow> request \<Rightarrow> int \<times> worker \<times> request" where
  "pass X E c template required w r =
     (let N = ge_nginx E in
      if \<not> cf_key_ok c then
        (let (rc, r) = send_and_finish_with_headers N SERVICE_UNAVAILABLE ''text/plain''
                         (as_bytes (''unavailable'' @ [CHR 0x0A])) [] r
         in (rc, w, r))
      else
        (let r = record_outcome N ''rejected'' ''invalid_grant'' 0 r;
             now = ge_now E AtPass in
         case required of
           Pow _ \<Rightarrow> (BAD_REQUEST, w, r)
         | NoJs delay \<Rightarrow>
             (case client_context X (issuer w) c r of
                None \<Rightarrow> (SERVICE_UNAVAILABLE, w, r)
              | Some context \<Rightarrow>
                  (let token = (case query_param ''t'' r of Some t \<Rightarrow> t | None \<Rightarrow> []) in
                   case nojs_verify X (cf_key c) token now context of
                     NojsOk grant \<Rightarrow>
                       if gr_delay grant \<noteq> delay then (BAD_REQUEST, w, r)
                       else
                         (let expires = i64_add (gr_iat grant) NOJS_GRACE;
                              clr = clearance_issue X (cf_key c) [] context required now (cf_clearance_ttl c);
                              g = \<lparr>rg_cookie = build_set_cookie clr (cf_cookie c),
                                   rg_redirect = Some (gr_path grant), rg_difficulty = 0,
                                   rg_kind = ''nojs''\<rparr>
                          in redeem X E token expires g w r)
                   | TooEarly grant \<Rightarrow>
                       (case nojs_issue X (ge_rng E) (cf_key c) (gr_path grant) delay now context of
                          None \<Rightarrow> (let (rc, r) = abort r in (rc, w, r))
                        | Some fresh \<Rightarrow>
                            (let (rc, r) = serve_nojs_page N template (pass_url c fresh) (gr_delay grant) r
                             in (rc, w, r)))
                   | Bad \<Rightarrow>
                       (let (rc, r) = send_and_finish_with_headers N MOVED_TEMPORARILY
                              ''text/html; charset=utf-8'' (as_bytes (redirect_body ''/''))
                              [(''Location'', ''/''), (''Cache-Control'', ''no-store'')] r
                        in (rc, w, r))))))"

subsection \<open>Capturing a challenged request\<close>

definition RENDERS_HTML :: "string list" where
  "RENDERS_HTML = [''document'', ''iframe'', ''frame'']"

definition should_capture :: "cfg \<Rightarrow> request \<Rightarrow> bool" where
  "should_capture c r =
     (if \<not> cf_replay c then False
      else case content_length r of
          None \<Rightarrow> False
        | Some n \<Rightarrow>
            if n > cf_replay_max_body c then False
            else if (case header ''sec-fetch-dest'' r of
                       Some dest \<Rightarrow> \<not> list_ex (\<lambda>d. eq_ignore_ascii_case dest d) RENDERS_HTML
                     | None \<Rightarrow> False) then False
            else method_replayable (rq_method r))"

definition capture_then_challenge :: "gate_env \<Rightarrow> bytes \<Rightarrow> request \<Rightarrow> int \<times> request" where
  "capture_then_challenge E page r =
     (let N = ge_nginx E;
          (rc, r) = read_client_request_body N BodyReady r in
      if rc \<ge> SPECIAL_RESPONSE then serve_challenge_page N page r
      else (NGX_DONE, finalize_request NGX_DONE r))"

definition body_ready ::
  "externals \<Rightarrow> gate_env \<Rightarrow> location_conf option \<Rightarrow> worker \<Rightarrow> request \<Rightarrow> worker \<times> request" where
  "body_ready X E lco w r =
     (let N = ge_nginx E in
      case lco of
        None \<Rightarrow>
          (w, snd (send_and_finish_with_headers N INTERNAL_SERVER_ERROR ''text/plain''
                     (as_bytes (''error'' @ [CHR 0x0A])) [] r))
      | Some lc \<Rightarrow>
          (let (c, w) = resolve_worker X E lc w;
               page = lc_page_cache lc;
               body = (case request_body (ge_pread E) r of Some b \<Rightarrow> b | None \<Rightarrow> []);
               (method, _) = method_and_path r;
               url = rq_unparsed_uri r;
               content_type = (case header ''content-type'' r of Some ct \<Rightarrow> ct | None \<Rightarrow> []);
               rendered =
                 (case captured_new method url content_type body of
                    Some cap \<Rightarrow>
                      if length body \<le> cf_replay_max_body c then inject page (script_tag X cap) else page
                  | None \<Rightarrow> page)
           in (w, snd (send_and_finish_with_headers N HTTP_OK ''text/html; charset=utf-8'' rendered
                         [(''Cache-Control'', ''no-store'')] r))))"

subsection \<open>Internal routes\<close>

definition status ::
  "externals \<Rightarrow> gate_env \<Rightarrow> cfg \<Rightarrow> assurance \<Rightarrow> worker \<Rightarrow> request \<Rightarrow> int \<times> request" where
  "status X E c required w r =
     (let N = ge_nginx E;
          base = [(''Cache-Control'', ''no-store''), (''X-Pow-Now'', int_str (ge_now E AtStatus))] in
      case check_clearance X E c required w r of
        ClearanceValid \<Rightarrow> send_and_finish_with_headers N NO_CONTENT ''text/plain'' [] base r
      | ClearanceSkewed \<Rightarrow>
          send_and_finish_with_headers N CONFLICT ''text/plain''
            (as_bytes (''proof timestamp outside window'' @ [CHR 0x0A]))
            (base @ [(''X-Pow-Reason'', ''proof_skew'')])
            (record_outcome N ''rejected'' ''proof_skew'' 0 r)
      | ClearanceInvalid \<Rightarrow>
          send_and_finish_with_headers N CONFLICT ''text/plain''
            (as_bytes (''clearance missing or invalid'' @ [CHR 0x0A])) base r)"

definition method_ok :: "string \<Rightarrow> string \<Rightarrow> bool" where
  "method_ok suffix method =
     (if suffix \<in> {''challenge'', ''pass'', ''status''} then method = ''GET''
      else if suffix = ''solver.js'' then method = ''GET'' \<or> method = ''HEAD''
      else if suffix = ''verify'' then method = ''POST''
      else True)"

definition route_internal ::
  "externals \<Rightarrow> gate_env \<Rightarrow> cfg \<Rightarrow> string \<Rightarrow> assurance \<Rightarrow> bytes \<Rightarrow> worker \<Rightarrow> request \<Rightarrow>
   int option \<times> worker \<times> request" where
  "route_internal X E c suffix required template w r =
     (let N = ge_nginx E;
          ok = method_ok suffix (rq_method r);
          r = (if suffix \<in> {''challenge'', ''pass'', ''status'', ''verify''} \<or> suffix = ''solver.js'' \<and> \<not> ok
               then no_store N r else r) in
      if \<not> ok then (Some NOT_ALLOWED, w, r)
      else if suffix = ''challenge'' then
        (let (rc, r) = issue_challenge X E c required w r in (Some rc, w, r))
      else if suffix = ''solver.js'' then
        (let r = record_outcome N ''asset'' ''solver'' 0 r;
             (rc, r) = serve_solver X N (ge_assets E) r in (Some rc, w, r))
      else if suffix = ''verify'' then (let (rc, r) = read_solution E r in (Some rc, w, r))
      else if suffix = ''status'' then (let (rc, r) = status X E c required w r in (Some rc, w, r))
      else if suffix = ''pass'' then
        (let (rc, w, r) = pass X E c template required w r in (Some rc, w, r))
      else (None, w, r))"

subsection \<open>Configurations of a worker\<close>

text \<open>What \<open>build_cfg\<close> promises of a resolved configuration, and that a worker keeps only such.\<close>

definition cfg_ok :: "cfg \<Rightarrow> bool" where
  "cfg_ok c \<longleftrightarrow>
     cf_authenticator c = hmac_key_new (cf_key c) \<and> cf_key_ok c = (MIN_HMAC_KEY_LEN \<le> length (cf_key c)) \<and>
     (cf_key c = [] \<or> cf_key_ok c)"

definition worker_ok :: "worker \<Rightarrow> bool" where
  "worker_ok w \<longleftrightarrow>
     (\<forall>c\<in>snd ` set (wk_cells w). cfg_ok c) \<and>
     (\<forall>b\<in>snd ` set (wk_keys w). b = [] \<or> MIN_HMAC_KEY_LEN \<le> length b)"

lemma resolve_worker_ok:
  assumes "worker_ok w"
  shows "cfg_ok (fst (resolve_worker X E lc w))" "worker_ok (snd (resolve_worker X E lc w))"
proof -
  obtain k keys where k: "load_key (ge_fs E) (lc_hmac_key_file lc) (wk_keys w) = (k, keys)" by fastforce
  have "(k = [] \<or> MIN_HMAC_KEY_LEN \<le> length k) \<and> (\<forall>b\<in>set (map snd keys). b = [] \<or> MIN_HMAC_KEY_LEN \<le> length b)"
    using load_key_usable [OF k] assms by (simp add: worker_ok_def)
  with assms k
  have "cfg_ok (fst (resolve_worker X E lc w)) \<and> worker_ok (snd (resolve_worker X E lc w))"
    by (auto simp: resolve_worker_def resolve_def build_cfg_def Let_def worker_ok_def cfg_ok_def
        dest!: map_of_SomeD split: option.splits)
  then show "cfg_ok (fst (resolve_worker X E lc w))" "worker_ok (snd (resolve_worker X E lc w))" by simp_all
qed

lemma resolve_worker_fields [simp]:
  "wk_cluster (snd (resolve_worker X E lc w)) = wk_cluster w" "wk_zone (snd (resolve_worker X E lc w)) = wk_zone w"
  "wk_bots (snd (resolve_worker X E lc w)) = wk_bots w"
  by (simp_all add: resolve_worker_def case_prod_beta)

lemma resolve_worker_store [simp]:
  "zone_data (snd (resolve_worker X E lc w)) = zone_data w" "issuer (snd (resolve_worker X E lc w)) = issuer w"
  "store_down E' (snd (resolve_worker X E lc w)) = store_down E' w"
  "zone_outcome X' E' token expires (snd (resolve_worker X E lc w)) = zone_outcome X' E' token expires w"
  by (simp_all add: zone_data_def issuer_def store_down_def zone_outcome_def split: option.split)

lemma resolve_worker_cell:
  "map_of (wk_cells (snd (resolve_worker X E lc w))) (lc_resolved lc) = Some (fst (resolve_worker X E lc w))"
  by (auto simp: resolve_worker_def resolve_def Let_def case_prod_beta split: option.splits)

lemma resolve_worker_again:
  "map_of (wk_cells w) (lc_resolved lc) = Some c \<Longrightarrow> resolve_worker X E lc w = (c, w)"
  by (simp add: resolve_worker_def resolve_def)

subsection \<open>What a valid clearance is\<close>

definition proof_met :: "externals \<Rightarrow> bool \<Rightarrow> cfg \<Rightarrow> i64 \<Rightarrow> bytes \<Rightarrow> request \<Rightarrow> bool" where
  "proof_met X native c now pk r \<longleftrightarrow>
     (case header ''x-pow-proof'' r of
        Some h \<Rightarrow>
          (\<exists>sig ts. parse_proof X h = Some (sig, ts) \<and> 0 \<le> cf_proof_skew c \<and>
             \<bar>now - ts\<bar> \<le> cf_proof_skew c \<and>
             verify_signature native X pk (as_bytes (message (rq_method r) (rq_uri r) ts)) sig)
      | None \<Rightarrow> \<not> (cf_require_proof c \<and> can_carry_proof r))"

definition cleared :: "externals \<Rightarrow> gate_env \<Rightarrow> cfg \<Rightarrow> assurance \<Rightarrow> worker \<Rightarrow> request \<Rightarrow> bool" where
  "cleared X E c required w r \<longleftrightarrow>
     MIN_HMAC_KEY_LEN \<le> length (cf_key c) \<and>
     (\<exists>token context clr pk.
        cookie (cc_name (cf_cookie c)) r = Some token \<and>
        client_context X (issuer w) c r = Some context \<and>
        accepted X (cf_key c) token context required (ge_now E AtClearance) (cf_clearance_ttl c) = Some (clr, pk) \<and>
        proof_met X (ge_native E) c (ge_now E AtClearance) pk r)"

lemma proof_verdict_met: "fst (proof_verdict X native c now r v) \<longleftrightarrow> proof_met X native c now (public_key v) r"
  by (auto simp: proof_verdict_def proof_met_def method_and_path_def check_def i64_abs_diff_def nat_le_iff not_less
      split: option.splits proof_check.splits if_splits prod.splits)

lemma accepted_length: "accepted X key token context required now age = Some cp \<Longrightarrow> length token \<le> 4096"
  by (simp add: accepted_def split: if_splits)

lemma check_clearance_iff:
  assumes "base64_laws X" "digest_laws X" "serde_laws X" "cfg_ok c"
    and "in_i64 (ge_now E AtClearance)" "in_i64 (cf_clearance_ttl c)"
  shows "check_clearance X E c required w r = ClearanceValid \<longleftrightarrow> cleared X E c required w r"
proof -
  let ?with = "\<lambda>token ctx. with_verified_prepared X (cf_authenticator c) token ctx required
    (ge_now E AtClearance) (cf_clearance_ttl c) (proof_verdict X (ge_native E) c (ge_now E AtClearance) r)"
  have "?with token ctx = map_option (\<lambda>(clr, pk). proof_verdict X (ge_native E) c (ge_now E AtClearance) r (as_verified clr pk))
      (accepted X (cf_key c) token ctx required (ge_now E AtClearance) (cf_clearance_ttl c))" for token ctx
    using assms(4) with_verified_prepared_eq [OF assms(1,2,3,5,6), of "cf_key c"] by (simp add: cfg_ok_def)
  then show ?thesis using assms(4)
    by (auto simp: check_clearance_def verified_def cleared_def cfg_ok_def Let_def case_prod_beta
        proof_verdict_met dest: accepted_length split: option.splits if_splits)
qed

subsection \<open>Answers\<close>

text \<open>An answer of the module is never \<open>NGX_DECLINED\<close>.\<close>

lemma answered_done [simp]:
  "fst (send_cached_and_finish N st ct b hs r) = NGX_DONE"
  "fst (send_and_finish N st ct b k r) = NGX_DONE"
  "fst (send_and_finish_with_headers N st ct b hs r) = NGX_DONE"
  "fst (serve_nojs_page N page url delay r) = NGX_DONE"
  "fst (serve_challenge_page N page r) = NGX_DONE"
  "fst (serve_solver X N A r) = NGX_DONE"
  "fst (status X E c required w r) = NGX_DONE"
  "fst (capture_then_challenge E page r) = NGX_DONE"
  by (simp_all add: send_cached_and_finish_def send_and_finish_def send_and_finish_with_headers_def
      serve_nojs_page_def serve_challenge_page_def serve_solver_def status_def capture_then_challenge_def
      case_prod_beta Let_def split: clearance_check.split)

lemma issue_challenge_kept: "fst (issue_challenge X E c required w r) \<noteq> NGX_DECLINED"
  by (simp add: issue_challenge_def Let_def abort_def split: assurance.split option.split)

lemma read_solution_kept: "fst (read_solution E r) \<noteq> NGX_DECLINED"
  by (auto simp: read_solution_def Let_def case_prod_beta)

lemma pass_kept: "fst (pass X E c template required w r) \<noteq> NGX_DECLINED"
  by (simp add: pass_def Let_def abort_def case_prod_beta split: assurance.split option.split nojs_verdict.split)

definition SUFFIXES :: "string set" where
  "SUFFIXES = {''challenge'', ''solver.js'', ''verify'', ''status'', ''pass''}"

lemma route_internal_kept:
  assumes "route_internal X E c suffix required template w r = (rc, w', r')"
  shows "rc \<noteq> Some NGX_DECLINED" "rc = None \<longleftrightarrow> suffix \<notin> SUFFIXES"
proof -
  have "fst (route_internal X E c suffix required template w r) \<noteq> Some NGX_DECLINED \<and>
      (fst (route_internal X E c suffix required template w r) = None \<longleftrightarrow> suffix \<notin> SUFFIXES)"
    using issue_challenge_kept read_solution_kept pass_kept
    by (simp add: route_internal_def Let_def case_prod_beta method_ok_def SUFFIXES_def)
  with assms show "rc \<noteq> Some NGX_DECLINED" "rc = None \<longleftrightarrow> suffix \<notin> SUFFIXES" by auto
qed

subsection \<open>What earns a clearance\<close>

text \<open>
  A submission of proof of work that passed every check, and the grant prepared for it: the body
  fits the limit and is a submission; the policy asks for proof of work; the key is a point; the
  solution is accepted for this key, this client and the difficulty asked for now; the owner of
  the key signed the challenge.
\<close>

definition pow_earned ::
  "externals \<Rightarrow> gate_env \<Rightarrow> location_conf \<Rightarrow> cfg \<Rightarrow> worker \<Rightarrow> request \<Rightarrow> string \<Rightarrow> i64 \<Rightarrow> redeem_grant \<Rightarrow> bool" where
  "pow_earned X E lc c w r token expires g \<longleftrightarrow>
     (\<exists>body sub d pk ctx sig.
        cf_key_ok c \<and>
        request_body_limited (ge_pread E) VERIFY_LIMIT r = Some body \<and> de_submission X body = Some sub \<and>
        required_assurance (ge_nginx E) lc c
          (record_outcome (ge_nginx E) ''rejected'' ''invalid_submission'' (cf_difficulty c) r) = Pow d \<and>
        unb64url X (sb_pubkey sub) = Some pk \<and> valid_public_key X pk \<and>
        client_context X (issuer w) c r = Some ctx \<and>
        verify_solution X (cf_key c) (submitted_challenge sub) (sb_nonce sub) pk ctx d (ge_now E AtVerify) = PowOk \<and>
        unb64url X (sb_signature sub) = Some sig \<and> verify_challenge (ge_native E) X pk (sb_token sub) sig \<and>
        token = sb_token sub \<and> expires = sb_exp sub \<and>
        g = \<lparr>rg_cookie = build_set_cookie
                (clearance_issue X (cf_key c) pk ctx (Pow d) (ge_now E AtVerify) (cf_clearance_ttl c)) (cf_cookie c),
             rg_redirect = None, rg_difficulty = d, rg_kind = ''pow''\<rparr>)"

lemma set_cookies_finalize_status: "set (set_cookies (finalize_status E st r)) \<subseteq> set (set_cookies r)"
  using set_cookies_send [of "ge_nginx E" st "''text/plain''" "as_bytes (''rejected'' @ [CHR 0x0A])" None r]
  by (simp add: finalize_status_def case_prod_beta)

lemma verify_body_cases:
  fixes r
  assumes "resolve_worker X E lc w = (c, w1)"
  defines "r1 \<equiv> record_outcome (ge_nginx E) ''rejected'' ''invalid_submission'' (cf_difficulty c) r"
  obtains (refused) st r2 where "verify_body X E (Some lc) w r = (w1, finalize_status E st r2)" "set_cookies r2 = set_cookies r"
  | (earned) token expires g where "pow_earned X E lc c w1 r token expires g"
      "verify_body X E (Some lc) w r = snd (redeem X E token expires g w1 r1)"
proof -
  have r1: "same_client r r1" "set_cookies r1 = set_cookies r" by (simp_all add: r1_def)
  define Q where "Q out \<longleftrightarrow> (\<exists>st r2. out = (w1, finalize_status E st r2) \<and> set_cookies r2 = set_cookies r) \<or>
      (\<exists>token expires g. pow_earned X E lc c w1 r token expires g \<and> out = snd (redeem X E token expires g w1 r1))" for out
  have no: "set_cookies r2 = set_cookies r \<Longrightarrow> Q (w1, finalize_status E st r2)" for st r2
    by (auto simp: Q_def)
  have yes: "pow_earned X E lc c w1 r token expires g \<Longrightarrow> Q (snd (redeem X E token expires g w1 r1))" for token expires g
    unfolding Q_def by blast
  have "Q (verify_body X E (Some lc) w r)"
    unfolding verify_body_def option.case assms(1) Let_def prod.case r1_def [symmetric]
    by (auto simp: r1 submitted_challenge_def pow_earned_def r1_def [symmetric] client_reads [OF r1(1)]
        intro!: no yes split: option.split assurance.split)
  then show thesis unfolding Q_def using refused earned by blast
qed

lemma verify_body_earned:
  fixes r
  assumes "resolve_worker X E lc w = (c, w1)" "pow_earned X E lc c w1 r token expires g"
  defines "r1 \<equiv> record_outcome (ge_nginx E) ''rejected'' ''invalid_submission'' (cf_difficulty c) r"
  shows "verify_body X E (Some lc) w r = snd (redeem X E token expires g w1 r1)"
proof -
  have r1: "same_client r r1" by (simp add: r1_def)
  from assms(2) show ?thesis
    unfolding verify_body_def option.case assms(1) Let_def prod.case r1_def [symmetric]
    by (auto simp: pow_earned_def submitted_challenge_def r1_def [symmetric] client_reads [OF r1])
qed

text \<open>
  A grant of the waiting page that passed every check: it is authentic for this client, the wait
  is over, and the policy still asks for that very wait.
\<close>

definition nojs_earned ::
  "externals \<Rightarrow> gate_env \<Rightarrow> cfg \<Rightarrow> assurance \<Rightarrow> worker \<Rightarrow> request \<Rightarrow> string \<Rightarrow> i64 \<Rightarrow> redeem_grant \<Rightarrow> bool" where
  "nojs_earned X E c required w r token expires g \<longleftrightarrow>
     (\<exists>delay ctx grant.
        cf_key_ok c \<and> required = NoJs delay \<and> client_context X (issuer w) c r = Some ctx \<and>
        query_param ''t'' r = Some token \<and>
        nojs_verify X (cf_key c) token (ge_now E AtPass) ctx = NojsOk grant \<and> gr_delay grant = delay \<and>
        expires = i64_add (gr_iat grant) NOJS_GRACE \<and>
        g = \<lparr>rg_cookie = build_set_cookie
                (clearance_issue X (cf_key c) [] ctx (NoJs delay) (ge_now E AtPass) (cf_clearance_ttl c)) (cf_cookie c),
             rg_redirect = Some (gr_path grant), rg_difficulty = 0, rg_kind = ''nojs''\<rparr>)"

lemma nojs_verify_Nil: "nojs_verify X key [] now ctx = Bad"
  by (simp add: nojs_verify_def)

lemma query_param_client: "same_client r s \<Longrightarrow> query_param name s = query_param name r"
  by (simp add: query_param_def same_client_def)

lemma pass_cases:
  fixes E r
  defines "r1 \<equiv> record_outcome (ge_nginx E) ''rejected'' ''invalid_grant'' 0 r"
  obtains (refused) rc r2 where "pass X E c template required w r = (rc, w, r2)" "set (set_cookies r2) \<subseteq> set (set_cookies r)"
  | (earned) token expires g where "nojs_earned X E c required w r token expires g"
      "pass X E c template required w r = redeem X E token expires g w r1"
proof -
  have r1: "same_client r r1" "set_cookies r1 = set_cookies r" by (simp_all add: r1_def)
  define mute where "mute s \<longleftrightarrow> set (set_cookies s) \<subseteq> set (set_cookies r)" for s
  define Q where "Q out \<longleftrightarrow> (\<exists>rc r2. out = (rc, w, r2) \<and> mute r2) \<or>
      (\<exists>token expires g. nojs_earned X E c required w r token expires g \<and> out = redeem X E token expires g w r1)" for out
  have no: "mute r2 \<Longrightarrow> Q (rc, w, r2)" for rc r2
    by (auto simp: Q_def)
  have yes: "nojs_earned X E c required w r token expires g \<Longrightarrow> Q (redeem X E token expires g w r1)" for token expires g
    unfolding Q_def by blast
  have mute: "mute s" if "set_cookies s = set_cookies r" for s by (simp add: mute_def that)
  have send: "mute (snd (send_and_finish_with_headers N st ct b hs s))"
    if "set_cookies s = set_cookies r" "filter sets_cookie hs = []" for N st ct b hs s
    using set_cookies_finish(3) [of N st ct b hs s] that by (simp add: mute_def)
  have "Q (pass X E c template required w r)"
    unfolding pass_def Let_def r1_def [symmetric] client_reads [OF r1(1)] query_param_client [OF r1(1)]
    by (auto simp: case_prod_beta r1 serve_nojs_page_def abort_def nojs_verify_Nil nojs_earned_def send mute
        intro!: no yes split: option.split assurance.split nojs_verdict.split)
  then show thesis unfolding Q_def mute_def using refused earned by blast
qed

end
