(* ===== verification/Access.thy ===== *)
theory Access
  imports Engine
begin

text \<open>
  \<open>access.rs\<close>: the ACCESS-phase handler. The result \<open>NGX_DECLINED\<close> hands the request on to the
  site; every other result keeps it at the gate.
\<close>

definition deny :: "nginx \<Rightarrow> request \<Rightarrow> int \<times> request" where
  "deny N r = (FORBIDDEN, record_outcome N ''deny'' ''policy'' 0 (no_store N r))"

definition assurance_difficulty :: "assurance \<Rightarrow> u64" where
  "assurance_difficulty a = (case a of Pow d \<Rightarrow> d | NoJs _ \<Rightarrow> 0)"

text \<open>Step 2 of the handler for a claimed bot: confirmed or not, with the worker and the request after it.\<close>

definition verify_bot ::
  "gate_env \<Rightarrow> string \<Rightarrow> u64 \<Rightarrow> worker \<Rightarrow> request \<Rightarrow> bool \<times> worker \<times> request" where
  "verify_bot E name difficulty w r =
     (case client_ip r of
        None \<Rightarrow> (False, w, r)
      | Some ip \<Rightarrow>
          (let ((allowed, reason), bots) =
             verifier_result (ge_spawned E) name ip (fst (ge_instants E)) (snd (ge_instants E)) (wk_bots w)
           in (allowed, w\<lparr>wk_bots := bots\<rparr>,
               record_outcome (ge_nginx E) (if allowed then ''bypass'' else ''challenge'') reason difficulty r)))"

text \<open>Step 3: clearance, or the page the decision picks.\<close>

definition challenge_client ::
  "externals \<Rightarrow> gate_env \<Rightarrow> location_conf \<Rightarrow> cfg \<Rightarrow> decision \<Rightarrow> assurance \<Rightarrow> worker \<Rightarrow> request \<Rightarrow>
   int \<times> worker \<times> request" where
  "challenge_client X E lc c decision required w r =
     (let N = ge_nginx E;
          difficulty = assurance_difficulty required;
          clr = check_clearance X E c required w r in
      if clr = ClearanceValid then
        (NGX_DECLINED, w, record_outcome N ''bypass'' ''clearance'' difficulty r)
      else
        (let r = no_store N r;
             r = (if clr = ClearanceSkewed
                  then clock_headers N (ge_now E AtHeaders) True
                         (record_outcome N ''challenge'' ''proof_skew'' difficulty r)
                  else r)
         in case decision of
              ChallengeNoJs delay \<Rightarrow>
                if store_down E w then
                  (SERVICE_UNAVAILABLE, w, no_store N (record_outcome N ''error'' ''issuer_unavailable'' 0 r))
                else
                  (case client_context X (issuer w) c r of
                     None \<Rightarrow> (SERVICE_UNAVAILABLE, w, r)
                   | Some context \<Rightarrow>
                       (case nojs_issue X (ge_rng E) (cf_key c) (rq_unparsed_uri r) delay
                               (ge_now E AtIssue) context of
                          None \<Rightarrow> (let (rc, r) = abort r in (rc, w, r))
                        | Some grant \<Rightarrow>
                            (let r = record_outcome N ''issued'' ''nojs'' 0 r;
                                 (rc, r) = serve_nojs_page N (lc_nojs_page_cache lc) (pass_url c grant) delay r
                             in (rc, w, r))))
            | _ \<Rightarrow>
                if should_capture c r then
                  (let (rc, r) = capture_then_challenge E (lc_page_cache lc) r in (rc, w, r))
                else
                  (let (rc, r) = serve_challenge_page N (lc_page_cache lc) r in (rc, w, r))))"

definition pow_gate_access ::
  "externals \<Rightarrow> gate_env \<Rightarrow> location_conf option \<Rightarrow> worker \<Rightarrow> request \<Rightarrow> int \<times> worker \<times> request" where
  "pow_gate_access X E lco w r =
     (let N = ge_nginx E in
      case lco of
        None \<Rightarrow> (NGX_DECLINED, w, r)
      | Some lc \<Rightarrow>
          if lc_enabled lc = 0 then (NGX_DECLINED, w, record_outcome N ''off'' ''disabled'' 0 r)
          else
            (let (c, w) = resolve_worker X E lc w;
                 decision = parse (eval_complex_value N (lc_decision lc) r);
                 required = assurance_for decision c;
                 difficulty = assurance_difficulty required;
                 r = record_outcome N ''challenge'' ''no_clearance'' difficulty r in
             if cf_endpoint c \<noteq> [] \<and> starts_with (rq_uri r) (cf_endpoint c) then
               (let (rc, w, r) = route_internal X E c (drop (length (cf_endpoint c)) (rq_uri r)) required
                                   (lc_nojs_page_cache lc) w r
                in (case rc of Some rc \<Rightarrow> rc | None \<Rightarrow> NGX_DECLINED, w, r))
             else if is_trusted N (lc_trusted lc) r then
               (NGX_DECLINED, w, record_outcome N ''bypass'' ''trusted'' difficulty r)
             else
               (case decision of
                  Allow \<Rightarrow> (NGX_DECLINED, w, record_outcome N ''bypass'' ''allow'' difficulty r)
                | Deny \<Rightarrow> (let (rc, r) = deny N r in (rc, w, r))
                | Verify name \<Rightarrow>
                    (let (allowed, w, r) = verify_bot E name difficulty w r in
                     if allowed then (NGX_DECLINED, w, r)
                     else challenge_client X E lc c decision required w r)
                | _ \<Rightarrow> challenge_client X E lc c decision required w r)))"

subsection \<open>The handler step by step\<close>

text \<open>The handler once the location is resolved and the first outcome recorded.\<close>

definition decide ::
  "externals \<Rightarrow> gate_env \<Rightarrow> location_conf \<Rightarrow> cfg \<Rightarrow> decision \<Rightarrow> assurance \<Rightarrow> worker \<Rightarrow> request \<Rightarrow>
   int \<times> worker \<times> request" where
  "decide X E lc c decision required w r =
     (case decision of
        Allow \<Rightarrow> (NGX_DECLINED, w, record_outcome (ge_nginx E) ''bypass'' ''allow'' (assurance_difficulty required) r)
      | Deny \<Rightarrow> (let (rc, r) = deny (ge_nginx E) r in (rc, w, r))
      | Verify name \<Rightarrow>
          (let (allowed, w, r) = verify_bot E name (assurance_difficulty required) w r in
           if allowed then (NGX_DECLINED, w, r) else challenge_client X E lc c decision required w r)
      | _ \<Rightarrow> challenge_client X E lc c decision required w r)"

lemma access_eq:
  fixes X E lc w r c
  defines "decision \<equiv> parse (eval_complex_value (ge_nginx E) (lc_decision lc) r)"
  defines "required \<equiv> assurance_for decision c"
  defines "r0 \<equiv> record_outcome (ge_nginx E) ''challenge'' ''no_clearance'' (assurance_difficulty required) r"
  assumes "lc_enabled lc \<noteq> 0" "resolve_worker X E lc w = (c, w1)"
  shows "pow_gate_access X E (Some lc) w r =
    (if cf_endpoint c \<noteq> [] \<and> starts_with (rq_uri r) (cf_endpoint c) then
       (case route_internal X E c (drop (length (cf_endpoint c)) (rq_uri r)) required (lc_nojs_page_cache lc) w1 r0 of
          (rc, w2, r2) \<Rightarrow> (case rc of Some rc \<Rightarrow> rc | None \<Rightarrow> NGX_DECLINED, w2, r2))
     else if is_trusted (ge_nginx E) (lc_trusted lc) r0 then
       (NGX_DECLINED, w1, record_outcome (ge_nginx E) ''bypass'' ''trusted'' (assurance_difficulty required) r0)
     else decide X E lc c decision required w1 r0)"
proof -
  have "same_client r r0" by (simp add: r0_def)
  then have uri: "rq_uri r0 = rq_uri r" by (simp add: same_client_def)
  show ?thesis
    unfolding pow_gate_access_def Let_def decide_def option.case assms(5) prod.case decision_def [symmetric]
      required_def [symmetric] r0_def [symmetric] uri using assms(4) by simp
qed

subsection \<open>Who is let through\<close>

lemma challenge_client_declined:
  "fst (challenge_client X E lc c decision required w r) = NGX_DECLINED \<longleftrightarrow>
   check_clearance X E c required w r = ClearanceValid"
  by (auto simp: challenge_client_def Let_def abort_def case_prod_beta split: decision.split option.split)

lemma cleared_client: "same_client r s \<Longrightarrow> cleared X E c required w s = cleared X E c required w r"
proof -
  assume "same_client r s"
  note reads = client_reads [OF this]
  have fields: "rq_method s = rq_method r" "rq_uri s = rq_uri r"
    using \<open>same_client r s\<close> by (simp_all add: same_client_def)
  show ?thesis unfolding cleared_def proof_met_def can_carry_proof_def reads fields by (rule refl)
qed

definition bot_confirmed :: "gate_env \<Rightarrow> string \<Rightarrow> worker \<Rightarrow> request \<Rightarrow> bool" where
  "bot_confirmed E name w r \<longleftrightarrow>
     (\<exists>ip. client_ip r = Some ip \<and>
        fst (fst (verifier_result (ge_spawned E) name ip (fst (ge_instants E)) (snd (ge_instants E)) (wk_bots w))))"

lemma verify_bot_confirmed: "fst (verify_bot E name d w r) \<longleftrightarrow> bot_confirmed E name w r"
  by (auto simp: verify_bot_def bot_confirmed_def case_prod_beta split: option.split)

lemma verify_bot_fields:
  "wk_cells (fst (snd (verify_bot E name d w r))) = wk_cells w" "wk_keys (fst (snd (verify_bot E name d w r))) = wk_keys w"
  "wk_cluster (fst (snd (verify_bot E name d w r))) = wk_cluster w" "wk_zone (fst (snd (verify_bot E name d w r))) = wk_zone w"
  "same_client q (snd (snd (verify_bot E name d w r))) = same_client q r"
  by (simp_all add: verify_bot_def case_prod_beta split: option.split)

lemma issuer_cong: "wk_cluster w = wk_cluster w' \<Longrightarrow> wk_zone w = wk_zone w' \<Longrightarrow> issuer w = issuer w'"
  by (simp add: issuer_def zone_data_def split: option.split)

lemma cleared_worker:
  "wk_cluster w = wk_cluster w' \<Longrightarrow> wk_zone w = wk_zone w' \<Longrightarrow> cleared X E c required w r = cleared X E c required w' r"
  unfolding cleared_def using issuer_cong [of w w'] by simp

lemma worker_ok_bots: "worker_ok (fst (snd (verify_bot E name d w r))) = worker_ok w"
  by (simp add: worker_ok_def verify_bot_fields)

text \<open>The reasons for which the handler declines, the last one still in terms of the check it makes.\<close>

lemma access_declines:
  fixes E r
  assumes "pow_gate_access X E (Some lc) w r = (NGX_DECLINED, w', r')" "lc_enabled lc \<noteq> 0"
    and "resolve_worker X E lc w = (c, w1)"
    and "decision = parse (eval_complex_value (ge_nginx E) (lc_decision lc) r)"
  defines "required \<equiv> assurance_for decision c"
  defines "r0 \<equiv> record_outcome (ge_nginx E) ''challenge'' ''no_clearance'' (assurance_difficulty required) r"
  obtains (unknown) suffix where "cf_endpoint c \<noteq> []" "rq_uri r = cf_endpoint c @ suffix" "suffix \<notin> SUFFIXES"
  | (trusted) "is_trusted (ge_nginx E) (lc_trusted lc) r0"
  | (allowed) "decision = Allow"
  | (bot) name where "decision = Verify name" "bot_confirmed E name w r"
  | (clearance) w2 r2 where "decision \<noteq> Deny" "check_clearance X E c required w2 r2 = ClearanceValid"
      "same_client r r2" "wk_cluster w2 = wk_cluster w" "wk_zone w2 = wk_zone w"
proof -
  let ?N = "ge_nginx E"
  have r0: "same_client r r0" by (simp add: r0_def)
  have w1: "wk_cluster w1 = wk_cluster w" "wk_zone w1 = wk_zone w" "wk_bots w1 = wk_bots w"
    using resolve_worker_fields [of X E lc w] by (simp_all add: assms(3))
  have run: "fst (pow_gate_access X E (Some lc) w r) = NGX_DECLINED" using assms(1) by simp
  note eq = access_eq [OF assms(2,3), of r, folded assms(4), folded required_def, folded r0_def]
  consider (route) "cf_endpoint c \<noteq> [] \<and> starts_with (rq_uri r) (cf_endpoint c)"
    | (geo) "is_trusted ?N (lc_trusted lc) r0"
    | (rest) "\<not> (cf_endpoint c \<noteq> [] \<and> starts_with (rq_uri r) (cf_endpoint c))" "\<not> is_trusted ?N (lc_trusted lc) r0"
    by blast
  then show thesis
  proof cases
    case route
    obtain rc w2 r2 where rt: "route_internal X E c (drop (length (cf_endpoint c)) (rq_uri r)) required
        (lc_nojs_page_cache lc) w1 r0 = (rc, w2, r2)" by (cases "route_internal X E c (drop (length (cf_endpoint c)) (rq_uri r))
        required (lc_nojs_page_cache lc) w1 r0") auto
    with run route have "(case rc of Some rc \<Rightarrow> rc | None \<Rightarrow> NGX_DECLINED) = NGX_DECLINED"
      by (simp add: eq)
    with route_internal_kept [OF rt] have "drop (length (cf_endpoint c)) (rq_uri r) \<notin> SUFFIXES"
      by (cases rc) auto
    moreover have "rq_uri r = cf_endpoint c @ drop (length (cf_endpoint c)) (rq_uri r)"
      using route by (auto simp: starts_with_iff)
    ultimately show thesis using unknown route by blast
  next
    case rest
    from rest have tail: "pow_gate_access X E (Some lc) w r = decide X E lc c decision required w1 r0" by (auto simp: eq)
    show thesis
    proof (cases decision)
      case (Verify name)
      let ?v = "verify_bot E name (assurance_difficulty required) w1 r0"
      have same: "bot_confirmed E name w1 r0 = bot_confirmed E name w r"
        unfolding bot_confirmed_def client_reads [OF r0] w1(3) by (rule refl)
      show thesis
      proof (cases "bot_confirmed E name w r")
        case False
        with run Verify same have "check_clearance X E c required (fst (snd ?v)) (snd (snd ?v)) = ClearanceValid"
          unfolding tail by (simp add: decide_def case_prod_beta verify_bot_confirmed challenge_client_declined)
        from clearance [OF _ this] Verify r0 w1 show thesis by (simp add: verify_bot_fields)
      qed (rule bot [OF Verify])
    qed (use run r0 w1 allowed clearance in \<open>auto simp: tail decide_def deny_def challenge_client_declined\<close>)
  qed (rule trusted)
qed

text \<open>
  C1. The gate hands a request on only for a reason. When the access handler of an enabled
  location declines, then the request asks for an unknown name below the internal endpoint, or the
  site's \<open>geo\<close> value trusts the client, or the decision is \<open>allow\<close>, or it names a bot and the
  verifier confirms the client's address, or the client is cleared: the key is usable, the cookie
  of the location holds a token sealed with it that is admissible for this client's context, the
  assurance required now and this time, and the demand for a request proof is met.
\<close>

theorem access_admits_only:
  assumes "base64_laws X" "digest_laws X" "serde_laws X" "worker_ok w" "in_i64 (ge_now E AtClearance)"
    and "pow_gate_access X E (Some lc) w r = (NGX_DECLINED, w', r')" "lc_enabled lc \<noteq> 0"
    and "resolve_worker X E lc w = (c, w1)" "in_i64 (cf_clearance_ttl c)"
    and "decision = parse (eval_complex_value (ge_nginx E) (lc_decision lc) r)"
  shows "cf_endpoint c \<noteq> [] \<and> (\<exists>suffix. rq_uri r = cf_endpoint c @ suffix \<and> suffix \<notin> SUFFIXES) \<or>
    is_trusted (ge_nginx E) (lc_trusted lc)
      (record_outcome (ge_nginx E) ''challenge'' ''no_clearance'' (assurance_difficulty (assurance_for decision c)) r) \<or>
    decision = Allow \<or>
    (\<exists>name. decision = Verify name \<and> bot_confirmed E name w r) \<or>
    decision \<noteq> Deny \<and> cleared X E c (assurance_for decision c) w r"
  using assms(6,7,8,10)
proof (cases rule: access_declines)
  case (clearance w2 r2)
  have "cfg_ok c" using resolve_worker_ok(1) [OF assms(4), of X E lc] by (simp add: assms(8))
  from clearance check_clearance_iff [OF assms(1-3) this assms(5,9)] cleared_client cleared_worker
  show ?thesis by blast
qed blast+

subsection \<open>Who is given a clearance\<close>

text \<open>The answers that carry no new cookie.\<close>

definition mute :: "request \<Rightarrow> request \<Rightarrow> bool" where
  "mute r s \<longleftrightarrow> set (set_cookies s) \<subseteq> set (set_cookies r)"

lemma mute_eq: "set_cookies s = set_cookies r \<Longrightarrow> mute r s"
  by (simp add: mute_def)

lemma mute_send:
  "mute r s \<Longrightarrow> filter sets_cookie hs = [] \<Longrightarrow> mute r (snd (send_and_finish_with_headers N st ct b hs s))"
  "mute r s \<Longrightarrow> filter sets_cookie hs = [] \<Longrightarrow> mute r (snd (send_cached_and_finish N st ct b hs s))"
  "mute r s \<Longrightarrow> mute r (snd (send_and_finish N st ct b None s))"
  using set_cookies_finish(1,3) [of N st ct b hs s] set_cookies_finish(2) [of N st ct b None s]
  by (auto simp: mute_def)

lemma mute_steps [simp]:
  "mute r (record_outcome N a b d s) = mute r s" "mute r (no_store N s) = mute r s"
  "mute r (clock_headers N t k s) = mute r s" "mute r (emit ev s) = mute r s" "mute r (finalize_request rc s) = mute r s"
  by (simp_all add: mute_def)

lemma mute_read [simp]: "mute r (snd (read_client_request_body N cb s)) = mute r s"
  by (simp add: read_client_request_body_def Let_def)

lemma mute_pages:
  "mute r s \<Longrightarrow> mute r (snd (serve_nojs_page N page url delay s))"
  "mute r s \<Longrightarrow> mute r (snd (serve_challenge_page N page s))"
  "mute r s \<Longrightarrow> mute r (snd (serve_solver X N A s))"
  by (simp_all add: serve_nojs_page_def serve_challenge_page_def serve_solver_def mute_send Let_def)

lemma mute_enable: "mute r (snd (enable N s)) = mute r s"
  by (auto simp: enable_def state_slot_def mute_def set_cookies_def split: option.split)

lemma mute_handlers:
  "mute r s \<Longrightarrow> mute r (snd (issue_challenge X E c required w s))"
  "mute r s \<Longrightarrow> mute r (snd (read_solution E s))"
  "mute r s \<Longrightarrow> mute r (snd (status X E c required w s))"
  "mute r s \<Longrightarrow> mute r (snd (capture_then_challenge E page s))"
  "mute r s \<Longrightarrow> mute r (snd (deny N s))"
  "mute r s \<Longrightarrow> mute r (snd (snd (verify_bot E name d w s)))"
  "mute r s \<Longrightarrow> mute r (snd (snd (challenge_client X E lc c decision required w s)))"
  "mute r s \<Longrightarrow> mute r (snd (body_ready X E lco w s))"
  by (simp_all add: issue_challenge_def read_solution_def status_def capture_then_challenge_def deny_def
      verify_bot_def challenge_client_def body_ready_def abort_def Let_def case_prod_beta mute_send mute_pages mute_enable
      split: assurance.split option.split clearance_check.split decision.split)

lemma mute_decide: "mute r s \<Longrightarrow> mute r (snd (snd (decide X E lc c decision required w s)))"
  by (simp add: decide_def case_prod_beta Let_def mute_handlers split: decision.split)

text \<open>
  A call of the handler either redeems a grant of the waiting page that was earned, or leaves the
  store alone and sends no cookie.
\<close>

lemma nojs_earned_client:
  "same_client r s \<Longrightarrow> nojs_earned X E c required w s token expires g = nojs_earned X E c required w r token expires g"
proof -
  assume same: "same_client r s"
  show ?thesis unfolding nojs_earned_def client_reads [OF same] query_param_client [OF same] ..
qed

lemma route_internal_cases:
  assumes "route_internal X E c suffix required template w r = (rc, w', r')"
  obtains (quiet) "w' = w" "mute r r'"
  | (earned) token expires g r1 where "nojs_earned X E c required w r token expires g"
      "(w', r') = snd (redeem X E token expires g w r1)" "set_cookies r1 = set_cookies r"
proof -
  let ?r = "no_store (ge_nginx E) r"
  have here: "mute r r" "mute r ?r" "same_client r ?r" "set_cookies ?r = set_cookies r" by (simp_all add: mute_eq)
  consider "w' = w" "mute r r'" | "(w', r') = snd (pass X E c template required w ?r)"
    using assms here(1,2)
    by (auto simp: route_internal_def Let_def case_prod_beta mute_handlers mute_pages prod_eq_iff split: if_splits)
  then show thesis
  proof cases
    case 2
    show thesis
    proof (cases rule: pass_cases [where X = X and E = E and c = c and template = template and required = required and w = w and r = ?r])
      case (refused rc r2)
      with 2 quiet show thesis by (simp add: mute_def)
    next
      case (earned token expires g)
      have "nojs_earned X E c required w r token expires g" using earned(1) unfolding nojs_earned_client [OF here(3)] .
      from that(2) [OF this 2 [unfolded earned(2)]] show thesis by (simp add: here(4))
    qed
  qed (rule quiet)
qed

lemma decide_store:
  assumes "decide X E lc c decision required w r = (rc, w', r')"
  shows "wk_cluster w' = wk_cluster w" "wk_zone w' = wk_zone w" "wk_cells w' = wk_cells w" "wk_keys w' = wk_keys w"
proof -
  have keeps: "fst (snd (challenge_client X E lc c d required w2 r2)) = w2" for d w2 r2
    by (simp add: challenge_client_def Let_def case_prod_beta split: decision.split option.split)
  have w': "w' = fst (snd (decide X E lc c decision required w r))" by (simp add: assms)
  show "wk_cluster w' = wk_cluster w" "wk_zone w' = wk_zone w" "wk_cells w' = wk_cells w" "wk_keys w' = wk_keys w"
    by (simp_all add: w' decide_def case_prod_beta Let_def keeps verify_bot_fields split: decision.split)
qed

lemma access_cases:
  assumes "resolve_worker X E lc w = (c, w1)"
    and "required = assurance_for (parse (eval_complex_value (ge_nginx E) (lc_decision lc) r)) c"
    and run: "pow_gate_access X E (Some lc) w r = (rc, w', r')"
  obtains (quiet) "wk_cluster w' = wk_cluster w" "wk_zone w' = wk_zone w" "worker_ok w \<longrightarrow> worker_ok w'" "mute r r'"
  | (earned) token expires g r1 where "nojs_earned X E c required w1 r token expires g"
      "(w', r') = snd (redeem X E token expires g w1 r1)" "set_cookies r1 = set_cookies r"
proof (cases "lc_enabled lc = 0")
  case True
  with run show thesis by (intro quiet) (auto simp: pow_gate_access_def mute_eq)
next
  case False
  define r0 where "r0 = record_outcome (ge_nginx E) ''challenge'' ''no_clearance'' (assurance_difficulty required) r"
  have r0: "same_client r r0" "set_cookies r0 = set_cookies r" "mute r r0" by (simp_all add: r0_def mute_eq)
  have w1: "wk_cluster w1 = wk_cluster w" "wk_zone w1 = wk_zone w" "worker_ok w \<longrightarrow> worker_ok w1"
    using resolve_worker_fields [of X E lc w] resolve_worker_ok(2) [of w X E lc] by (simp_all add: assms(1))
  note eq = access_eq [OF False assms(1), of r, folded assms(2), folded r0_def]
  consider (route) rc2 where "route_internal X E c (drop (length (cf_endpoint c)) (rq_uri r)) required
      (lc_nojs_page_cache lc) w1 r0 = (rc2, w', r')"
    | (trusted) "w' = w1" "mute r r'"
    | (decided) "decide X E lc c (parse (eval_complex_value (ge_nginx E) (lc_decision lc) r)) required w1 r0 = (rc, w', r')"
    using run unfolding eq by (auto simp: r0(3) split: if_splits prod.splits)
  then show thesis
  proof cases
    case route
    then show thesis
    proof (cases rule: route_internal_cases)
      case quiet
      with that(1) w1 r0(2) show thesis by (simp add: mute_def)
    next
      case (earned token expires g r1)
      from earned(1) have "nojs_earned X E c required w1 r token expires g" unfolding nojs_earned_client [OF r0(1)] .
      from that(2) [OF this earned(2)] earned(3) r0(2) show thesis by simp
    qed
  next
    case trusted
    with quiet w1 show thesis by simp
  next
    case decided
    note kept = decide_store [OF this]
    have "r' = snd (snd (decide X E lc c (parse (eval_complex_value (ge_nginx E) (lc_decision lc) r)) required w1 r0))"
      unfolding decided by simp
    then have "mute r r'" using mute_decide [OF r0(3)] by blast
    moreover have "worker_ok w' = worker_ok w1" by (simp only: worker_ok_def kept)
    ultimately show thesis using kept(1,2) w1 by (intro quiet) simp_all
  qed
qed

lemma redeem_mute:
  assumes "(w', r') = snd (redeem X E token expires g w r1)" "set_cookies r1 = set_cookies r" "v \<in> set (set_cookies r')"
  shows "v \<in> set (set_cookies r) \<or>
    wk_cluster w = None \<and> zone_outcome X E token expires w = Accepted \<and> v = rg_cookie g"
  using redeem_cookies [of v X E token expires g w r1] assms by (metis snd_conv)

text \<open>
  C2. A clearance cookie is handed out only when it was earned and redeemed. The callback of the
  verify endpoint sets a new cookie only for a submission that passed every check, only in the
  mode of the shared zone, and only if the zone accepted this very redemption, and the cookie is
  then the one prepared for it; the access handler does so only for a grant of the waiting page
  under the same conditions; the capture callback never does. In cluster mode no handler sets a
  cookie by itself: that is left to the reply of the cluster.
\<close>

theorem clearance_is_earned:
  assumes "resolve_worker X E lc w = (c, w1)"
    and "required = assurance_for (parse (eval_complex_value (ge_nginx E) (lc_decision lc) r)) c"
  shows "set (set_cookies (snd (verify_body X E (Some lc) w r))) \<subseteq> set (set_cookies r) \<union>
      {rg_cookie g | g token expires. pow_earned X E lc c w1 r token expires g \<and> wk_cluster w = None \<and>
         zone_outcome X E token expires w = Accepted} \<and>
    set (set_cookies (snd (snd (pow_gate_access X E (Some lc) w r)))) \<subseteq> set (set_cookies r) \<union>
      {rg_cookie g | g token expires. nojs_earned X E c required w1 r token expires g \<and> wk_cluster w = None \<and>
         zone_outcome X E token expires w = Accepted} \<and>
    set (set_cookies (snd (body_ready X E lco w r))) \<subseteq> set (set_cookies r)"
proof (intro conjI subsetI)
  have same: "wk_cluster w1 = wk_cluster w" "zone_outcome X E token expires w1 = zone_outcome X E token expires w"
    for token expires
    using resolve_worker_fields [of X E lc w] resolve_worker_store(4) [of X E token expires X E lc w]
    by (simp_all add: assms(1))
  {
    fix v assume v: "v \<in> set (set_cookies (snd (verify_body X E (Some lc) w r)))"
    show "v \<in> set (set_cookies r) \<union> {rg_cookie g | g token expires. pow_earned X E lc c w1 r token expires g \<and>
        wk_cluster w = None \<and> zone_outcome X E token expires w = Accepted}"
    proof (cases rule: verify_body_cases [OF assms(1), of r])
      case (1 st r2)
      with v set_cookies_finalize_status [of E st r2] show ?thesis by auto
    next
      case (2 token expires g)
      from v [unfolded 2(2), THEN redeem_cookies] 2(1) show ?thesis unfolding same by auto
    qed
  next
    fix v assume v: "v \<in> set (set_cookies (snd (snd (pow_gate_access X E (Some lc) w r))))"
    obtain rc w' r' where run: "pow_gate_access X E (Some lc) w r = (rc, w', r')"
      by (cases "pow_gate_access X E (Some lc) w r") auto
    with v have v: "v \<in> set (set_cookies r')" by simp
    from assms run show "v \<in> set (set_cookies r) \<union> {rg_cookie g | g token expires. nojs_earned X E c required w1 r token expires g \<and>
        wk_cluster w = None \<and> zone_outcome X E token expires w = Accepted}"
    proof (cases rule: access_cases)
      case quiet
      with v show ?thesis by (auto simp: mute_def)
    next
      case (earned token expires g r1)
      from redeem_mute [OF earned(2,3) v] earned(1) show ?thesis unfolding same by blast
    qed
  next
    fix v assume "v \<in> set (set_cookies (snd (body_ready X E lco w r)))"
    then show "v \<in> set (set_cookies r)" 
      using subsetD [OF mute_handlers(8) [OF mute_eq [OF refl], unfolded mute_def]] by blast
  }
qed

text \<open>
  C15. Without a usable key the gate fails closed. When a worker has no usable key for a location,
  no handler sends a cookie or redeems anything, so that no token is used up either, and the only
  requests let through are those that need no token: trusted, allowed, of a confirmed bot, or for
  an unknown name below the endpoint.
\<close>

theorem unusable_key_fails_closed:
  assumes "resolve_worker X E lc w = (c, w1)" "\<not> cf_key_ok c" "lc_enabled lc \<noteq> 0"
    and acc: "pow_gate_access X E (Some lc) w r = (rc, w', r')" and ver: "verify_body X E (Some lc) w q = (w'', q')"
    and decision: "decision = parse (eval_complex_value (ge_nginx E) (lc_decision lc) r)"
  shows "set (set_cookies q') \<subseteq> set (set_cookies q) \<and> set (set_cookies r') \<subseteq> set (set_cookies r) \<and>
    wk_cluster w' = wk_cluster w \<and> wk_zone w' = wk_zone w \<and> wk_cluster w'' = wk_cluster w \<and> wk_zone w'' = wk_zone w \<and>
    (rc = NGX_DECLINED \<longrightarrow>
      (\<exists>suffix. rq_uri r = cf_endpoint c @ suffix \<and> suffix \<notin> SUFFIXES) \<or>
      is_trusted (ge_nginx E) (lc_trusted lc)
        (record_outcome (ge_nginx E) ''challenge'' ''no_clearance'' (assurance_difficulty (assurance_for decision c)) r) \<or>
      decision = Allow \<or> (\<exists>name. decision = Verify name \<and> bot_confirmed E name w r))"
proof (intro conjI impI)
  have ver': "w'' = w1" "q' = finalize_status E SERVICE_UNAVAILABLE
      (record_outcome (ge_nginx E) ''rejected'' ''invalid_submission'' (cf_difficulty c) q)"
    using ver assms(1,2) by (simp_all add: verify_body_def Let_def)
  then show "wk_cluster w'' = wk_cluster w" "wk_zone w'' = wk_zone w"
    using resolve_worker_fields(1,2) [of X E lc w] by (simp_all add: assms(1))
  show "set (set_cookies q') \<subseteq> set (set_cookies q)"
    using set_cookies_finalize_status [of E SERVICE_UNAVAILABLE] unfolding ver'(2) by (metis set_cookies_record)
  have "set (set_cookies r') \<subseteq> set (set_cookies r) \<and> wk_cluster w' = wk_cluster w \<and> wk_zone w' = wk_zone w"
    using assms(1) refl acc
    by (cases rule: access_cases) (use assms(2) in \<open>auto simp: nojs_earned_def mute_def\<close>)
  then show "set (set_cookies r') \<subseteq> set (set_cookies r)" "wk_cluster w' = wk_cluster w" "wk_zone w' = wk_zone w" by simp_all
  assume "rc = NGX_DECLINED"
  with acc have "pow_gate_access X E (Some lc) w r = (NGX_DECLINED, w', r')" by simp
  from this assms(3,1) decision
  show "(\<exists>suffix. rq_uri r = cf_endpoint c @ suffix \<and> suffix \<notin> SUFFIXES) \<or>
      is_trusted (ge_nginx E) (lc_trusted lc)
        (record_outcome (ge_nginx E) ''challenge'' ''no_clearance'' (assurance_difficulty (assurance_for decision c)) r) \<or>
      decision = Allow \<or> (\<exists>name. decision = Verify name \<and> bot_confirmed E name w r)"
  proof (cases rule: access_declines)
    case (clearance w2 r2)
    with assms(2) show ?thesis by (simp add: check_clearance_def verified_def split: if_splits)
  qed blast+
qed

subsection \<open>A cleared client gets through\<close>

lemma access_lets_cleared:
  assumes "base64_laws X" "digest_laws X" "serde_laws X" "cfg_ok c" "in_i64 (ge_now E AtClearance)" "in_i64 (cf_clearance_ttl c)"
    and "lc_enabled lc \<noteq> 0" "resolve_worker X E lc w = (c, w1)"
    and "\<not> (cf_endpoint c \<noteq> [] \<and> starts_with (rq_uri r) (cf_endpoint c))"
    and decision: "decision = parse (eval_complex_value (ge_nginx E) (lc_decision lc) r)" "decision \<noteq> Deny"
    and cleared: "cleared X E c (assurance_for decision c) w r"
  shows "fst (pow_gate_access X E (Some lc) w r) = NGX_DECLINED"
proof -
  let ?req = "assurance_for decision c"
  define r0 where "r0 = record_outcome (ge_nginx E) ''challenge'' ''no_clearance'' (assurance_difficulty ?req) r"
  have r0: "same_client r r0" by (simp add: r0_def)
  have w1: "wk_cluster w1 = wk_cluster w" "wk_zone w1 = wk_zone w"
    using resolve_worker_fields [of X E lc w] by (simp_all add: assms(8))
  note iff = check_clearance_iff [OF assms(1-6)]
  have passes: "fst (challenge_client X E lc c decision ?req w2 r2) = NGX_DECLINED"
    if "same_client r r2" "wk_cluster w2 = wk_cluster w" "wk_zone w2 = wk_zone w" for w2 r2
    using cleared challenge_client_declined iff cleared_client [OF that(1)] cleared_worker [OF that(2,3)] by simp
  have "fst (decide X E lc c decision ?req w1 r0) = NGX_DECLINED"
  proof (cases decision)
    case (Verify name)
    then show ?thesis
      using passes [of "snd (snd (verify_bot E name (assurance_difficulty ?req) w1 r0))"
          "fst (snd (verify_bot E name (assurance_difficulty ?req) w1 r0))"] r0 w1
      by (simp add: decide_def case_prod_beta verify_bot_fields)
  qed (use passes [of r0 w1] r0 w1 decision(2) in \<open>simp_all add: decide_def\<close>)
  then show ?thesis
    unfolding access_eq [OF assms(7,8), of r, folded decision(1), folded r0_def] if_not_P [OF assms(9)] by simp
qed

lemma valid_key_shape: "valid_public_key X pk \<Longrightarrow> key_shape (Pow d) pk"
  by (cases pk) (auto simp: valid_public_key_def)

lemma context_wf: "base64_laws X \<Longrightarrow> client_context X iss c r = Some ctx \<Longrightarrow> wf_str ctx"
  by (auto simp: client_context_def binding_prepared_def Let_def b64url_def b64_encode_wf_str split: option.splits)

lemma context_cong:
  assumes "rq_sockaddr q = rq_sockaddr r" "rq_server q = rq_server r" "header ''user-agent'' q = header ''user-agent'' r"
  shows "client_context X iss c q = client_context X iss c r"
  using assms by (simp add: client_context_def client_ip_def cong: option.case_cong)

text \<open>
  The cookie of an earned grant clears the same client, as long as it lasts, wherever the store has
  the identity it had when the grant was prepared.
\<close>

lemma earned_is_cleared:
  assumes laws: "base64_laws X" "digest_laws X" "serde_laws X" "cfg_ok c"
    and earned: "pow_earned X E lc c w1 r token expires g"
    and clock: "in_i64 (ge_now E AtVerify)" "in_i64 (ge_now E AtVerify + cf_clearance_ttl c)" "in_i64 (cf_clearance_ttl c)"
      "in_i64 (ge_now F AtClearance)" "ge_now E AtVerify \<le> ge_now F AtClearance"
      "ge_now F AtClearance < ge_now E AtVerify + cf_clearance_ttl c"
    and again: "rg_cookie g = build_set_cookie v (cf_cookie c)" "length v \<le> 4096"
      "cookie (cc_name (cf_cookie c)) q = Some v" "rq_sockaddr q = rq_sockaddr r" "rq_server q = rq_server r"
      "header ''user-agent'' q = header ''user-agent'' r" "header ''x-pow-proof'' q = None"
      "\<not> (cf_require_proof c \<and> can_carry_proof q)"
    and policy: "satisfies (Pow (rg_difficulty g)) required" "issuer w = issuer w1"
  shows "cleared X F c required w q"
proof -
  obtain d pk ctx where grant: "cf_key_ok c" "valid_public_key X pk" "client_context X (issuer w1) c r = Some ctx"
    and g: "rg_difficulty g = d" "rg_cookie g = build_set_cookie
      (clearance_issue X (cf_key c) pk ctx (Pow d) (ge_now E AtVerify) (cf_clearance_ttl c)) (cf_cookie c)"
    using earned unfolding pow_earned_def by auto
  have v: "v = clearance_issue X (cf_key c) pk ctx (Pow d) (ge_now E AtVerify) (cf_clearance_ttl c)"
    using again(1) g(2) by (simp add: build_set_cookie_def)
  have "accepted X (cf_key c) v ctx required (ge_now F AtClearance) (cf_clearance_ttl c) =
      Some (issued_payload X pk ctx (Pow d) (ge_now E AtVerify) (cf_clearance_ttl c), pk)"
    using clock again(2) policy(1) grant(2) unfolding v
    by (intro clearance_roundtrip_accepted [OF laws(1,3) context_wf [OF laws(1) grant(3)]])
      (auto simp: g valid_key_shape [OF grant(2)] simp del: key_shape.simps)
  moreover have "client_context X (issuer w) c q = Some ctx"
    unfolding policy(2) context_cong [OF again(4-6)] by (rule grant(3))
  ultimately show ?thesis
    using laws(4) grant(1) again(3,7,8) unfolding cleared_def proof_met_def by (auto simp: cfg_ok_def)
qed

end
