(* ===== verification/Site.thy ===== *)
theory Site
  imports Access
begin

text \<open>
  A site in the mode of the shared zone: several workers, each with its own memory, and the zone
  they share. An event runs one handler in one worker; the zone's lock makes the redemption in it
  one step, and nothing else of a handler touches shared memory, so that every interleaving of
  the workers is a sequence of such events. The interface \<open>one_use_ledger\<close> is interpreted once
  more, now on the whole site: what it counts are the clearance cookies that leave it.
\<close>

record site =
  st_zone :: "zone_state option"
  st_worker :: "nat \<Rightarrow> worker"

text \<open>
  What happens in a worker: the access handler runs for a request, one of the two body callbacks
  runs, the background threads change what is known about bots (to anything), or the worker died
  and a new one starts on the configuration of the cycle.
\<close>

datatype worker_event =
    Arrives gate_env location_conf request
  | Submits gate_env location_conf request
  | Captures gate_env location_conf request
  | BotsMove bots
  | Respawns main_conf

definition new_cookies :: "request \<Rightarrow> request \<Rightarrow> string list" where
  "new_cookies r r' = filter (\<lambda>v. v \<notin> set (set_cookies r)) (set_cookies r')"

text \<open>
  The worker after the event, with the request a handler ran for before and after it; and the
  cookies the response adds.
\<close>

fun handled :: "externals \<Rightarrow> worker_event \<Rightarrow> worker \<Rightarrow> worker \<times> (request \<times> request) option" where
  "handled X (Arrives E lc r) w = (case pow_gate_access X E (Some lc) w r of (rc, w', r') \<Rightarrow> (w', Some (r, r')))"
| "handled X (Submits E lc r) w = (case verify_body X E (Some lc) w r of (w', r') \<Rightarrow> (w', Some (r, r')))"
| "handled X (Captures E lc r) w = (case body_ready X E (Some lc) w r of (w', r') \<Rightarrow> (w', Some (r, r')))"
| "handled X (BotsMove b) w = (w\<lparr>wk_bots := b\<rparr>, None)"
| "handled X (Respawns main) w = (snd (init_process (Some (main\<lparr>mc_zone := wk_zone w\<rparr>)) new_worker), None)"

definition handle :: "externals \<Rightarrow> worker_event \<Rightarrow> worker \<Rightarrow> worker \<times> string list" where
  "handle X ev w = (case handled X ev w of (w', rr) \<Rightarrow> (w', case rr of None \<Rightarrow> [] | Some (r, r') \<Rightarrow> new_cookies r r'))"

fun event_env :: "worker_event \<Rightarrow> gate_env option" where
  "event_env (Arrives E lc r) = Some E"
| "event_env (Submits E lc r) = Some E"
| "event_env (Captures E lc r) = Some E"
| "event_env _ = None"

definition enter :: "site \<Rightarrow> nat \<Rightarrow> worker" where
  "enter s k = set_zone_data (st_zone s) (st_worker s k)"

definition site_step :: "externals \<Rightarrow> nat \<times> worker_event \<Rightarrow> site \<Rightarrow> site" where
  "site_step X ev s =
     (let w = fst (handle X (snd ev) (enter s (fst ev)))
      in \<lparr>st_zone = zone_data w, st_worker = (st_worker s)(fst ev := w)\<rparr>)"

definition site_cookies :: "externals \<Rightarrow> nat \<times> worker_event \<Rightarrow> site \<Rightarrow> string list" where
  "site_cookies X ev s = snd (handle X (snd ev) (enter s (fst ev)))"

text \<open>The redemption an event makes: its token, the token's expiry and the grant prepared for it.\<close>

fun earned :: "externals \<Rightarrow> worker_event \<Rightarrow> worker \<Rightarrow> string \<Rightarrow> i64 \<Rightarrow> redeem_grant \<Rightarrow> bool" where
  "earned X (Submits E lc r) w token expires g \<longleftrightarrow>
     (case resolve_worker X E lc w of (c, w1) \<Rightarrow> pow_earned X E lc c w1 r token expires g)"
| "earned X (Arrives E lc r) w token expires g \<longleftrightarrow>
     (case resolve_worker X E lc w of (c, w1) \<Rightarrow>
        nojs_earned X E c (assurance_for (parse (eval_complex_value (ge_nginx E) (lc_decision lc) r)) c)
          w1 r token expires g)"
| "earned X _ w token expires g \<longleftrightarrow> False"

definition hands_out :: "externals \<Rightarrow> nat \<times> worker_event \<Rightarrow> site \<Rightarrow> bytes \<Rightarrow> i64 \<Rightarrow> bool" where
  "hands_out X ev s uid expires \<longleftrightarrow>
     (\<exists>token g. earned X (snd ev) (enter s (fst ev)) token expires g \<and> redemption_id X token = uid \<and>
        rg_cookie g \<in> set (site_cookies X ev s))"

definition zone_mode :: "site \<Rightarrow> bool" where
  "zone_mode s \<longleftrightarrow> (\<forall>k. wk_cluster (st_worker s k) = None \<and> wk_zone (st_worker s k) \<noteq> None)"

fun zone_event :: "worker_event \<Rightarrow> bool" where
  "zone_event (Respawns main) = (mc_cluster main = None)"
| "zone_event _ = True"

subsection \<open>One event\<close>

lemma new_cookies_Nil_iff: "new_cookies r r' = [] \<longleftrightarrow> mute r r'"
  by (auto simp: new_cookies_def mute_def filter_empty_conv)

lemma body_ready_worker: "fst (body_ready X E (Some lc) w r) = snd (resolve_worker X E lc w)"
  by (simp add: body_ready_def Let_def case_prod_beta)

lemma pow_earned_unique:
  "pow_earned X E lc c w r token expires g \<Longrightarrow> pow_earned X E lc c w r token' expires' g' \<Longrightarrow>
   token' = token \<and> expires' = expires \<and> g' = g"
  by (auto simp: pow_earned_def)

lemma nojs_earned_unique:
  "nojs_earned X E c required w r token expires g \<Longrightarrow> nojs_earned X E c required w r token' expires' g' \<Longrightarrow>
   token' = token \<and> expires' = expires \<and> g' = g"
  by (auto simp: nojs_earned_def)

lemma earned_unique:
  "earned X ev w token expires g \<Longrightarrow> earned X ev w token' expires' g' \<Longrightarrow>
   token' = token \<and> expires' = expires \<and> g' = g"
  by (cases ev) (auto dest: pow_earned_unique nojs_earned_unique split: prod.splits)

text \<open>
  Whatever the mode: an event leaves both stores alone and sends no cookie, or it redeems what it
  earned, or a worker starts anew.
\<close>

lemma handled_cases:
  assumes run: "handled X ev w = (w', rr)"
  obtains (quiet) "wk_cluster w' = wk_cluster w" "wk_zone w' = wk_zone w" "worker_ok w \<longrightarrow> worker_ok w'"
      "\<And>r r'. rr = Some (r, r') \<Longrightarrow> mute r r'"
  | (redeemed) E token expires g w1 r r1 r' where "earned X ev w token expires g" "event_env ev = Some E" "rr = Some (r, r')"
      "(w', r') = snd (redeem X E token expires g w1 r1)" "set_cookies r1 = set_cookies r"
      "wk_cluster w1 = wk_cluster w" "wk_zone w1 = wk_zone w" "worker_ok w \<longrightarrow> worker_ok w1"
  | (started) main where "ev = Respawns main"
proof (cases ev)
  case (Arrives E lc r)
  obtain c w1 where res: "resolve_worker X E lc w = (c, w1)" by fastforce
  note w1 = resolve_worker_fields [of X E lc w] resolve_worker_ok(2) [of w X E lc]
  obtain rc r' where acc: "pow_gate_access X E (Some lc) w r = (rc, w', r')" and rr: "rr = Some (r, r')"
    using run by (auto simp: Arrives split: prod.splits)
  from res refl acc show thesis
  proof (cases rule: access_cases)
    case quiet
    with that(1) show thesis by (simp add: rr)
  next
    case (earned token expires g r1)
    with that(2) [OF _ _ rr earned(2,3)] w1 res show thesis by (simp add: Arrives)
  qed
next
  case (Submits E lc r)
  obtain c w1 where res: "resolve_worker X E lc w = (c, w1)" by fastforce
  note w1 = resolve_worker_fields [of X E lc w] resolve_worker_ok(2) [of w X E lc]
  obtain r' where ver: "verify_body X E (Some lc) w r = (w', r')" and rr: "rr = Some (r, r')"
    using run by (auto simp: Submits split: prod.splits)
  show thesis
  proof (cases rule: verify_body_cases [OF res, of r])
    case (1 st r2)
    then have "w' = w1" "mute r r'" using ver set_cookies_finalize_status [of E st r2] by (auto simp: mute_def)
    with that(1) w1 res show thesis by (simp add: rr)
  next
    case (2 token expires g)
    with that(2) [OF _ _ rr 2(2) [unfolded ver]] w1 res show thesis by (simp add: Submits)
  qed
next
  case (Captures E lc r)
  have "w' = snd (resolve_worker X E lc w)" using body_ready_worker [of X E lc w r] run by (auto simp: Captures split: prod.splits)
  moreover have "mute r (snd (body_ready X E (Some lc) w r))" by (rule mute_handlers(8) [OF mute_eq [OF refl]])
  ultimately show thesis using that(1) run resolve_worker_ok(2) [of w X E lc]
    by (auto simp: Captures split: prod.splits)
next
  case (BotsMove b)
  with run that(1) show thesis by (auto simp: worker_ok_def)
qed (rule that(3))

text \<open>What a redemption in the mode of the zone does to the worker and to the response.\<close>

lemma redeem_in_zone:
  assumes "(w', r') = snd (redeem X E token expires g w1 r1)" "set_cookies r1 = set_cookies r"
    and "wk_cluster w1 = None" "wk_zone w1 \<noteq> None"
  defines "attempt \<equiv> (ge_now E AtConsume, token, expires)"
  shows "zone_data w' = zone_step X attempt (zone_data w1)"
    and "set (new_cookies r r') \<subseteq> {rg_cookie g}"
    and "new_cookies r r' \<noteq> [] \<longrightarrow> zone_accepts X attempt (zone_data w1) (redemption_id X token) expires"
    and "wk_cluster w' = None \<and> wk_zone w' \<noteq> None \<and> (worker_ok w1 \<longrightarrow> worker_ok w')"
proof -
  have w': "w' = set_zone_data (zone_step X attempt (zone_data w1)) w1"
    using assms(1,3) by (simp add: redeem_def zone_step_def attempt_def case_prod_beta)
  then show "zone_data w' = zone_step X attempt (zone_data w1)"
    using assms(4) by (auto simp: zone_data_def set_zone_data_def)
  show "wk_cluster w' = None \<and> wk_zone w' \<noteq> None \<and> (worker_ok w1 \<longrightarrow> worker_ok w')"
    using assms(3,4) by (auto simp: w' set_zone_data_def worker_ok_def)
  note new = redeem_mute [OF assms(1,2)]
  then show "set (new_cookies r r') \<subseteq> {rg_cookie g}" by (auto simp: new_cookies_def)
  show "new_cookies r r' \<noteq> [] \<longrightarrow> zone_accepts X attempt (zone_data w1) (redemption_id X token) expires"
    using new by (auto simp: new_cookies_def filter_empty_conv zone_accepts_def attempt_def zone_outcome_def)
qed

text \<open>
  Every event is quiet, or redeems what it earned: it takes exactly the step of the zone for that
  attempt, and a cookie, the prepared one, goes out only if the zone accepts it.
\<close>

lemma handle_cases:
  assumes zone: "wk_cluster w = None" "wk_zone w \<noteq> None" and "zone_event ev"
    and run: "handle X ev w = (w', cookies)"
  obtains (quiet) "zone_data w' = zone_data w" "cookies = []"
      "wk_cluster w' = None \<and> wk_zone w' \<noteq> None \<and> (worker_ok w \<longrightarrow> worker_ok w')"
  | (redeemed) now token expires g where "earned X ev w token expires g"
      "zone_data w' = zone_step X (now, token, expires) (zone_data w)" "set cookies \<subseteq> {rg_cookie g}"
      "cookies \<noteq> [] \<longrightarrow> zone_accepts X (now, token, expires) (zone_data w) (redemption_id X token) expires"
      "wk_cluster w' = None \<and> wk_zone w' \<noteq> None \<and> (worker_ok w \<longrightarrow> worker_ok w')"
proof -
  obtain rr where handled: "handled X ev w = (w', rr)"
    and cookies: "cookies = (case rr of None \<Rightarrow> [] | Some (r, r') \<Rightarrow> new_cookies r r')"
    using run by (auto simp: handle_def split: prod.splits)
  from handled show thesis
  proof (cases rule: handled_cases)
    case quiet
    with that(1) zone show thesis by (simp add: cookies zone_data_def new_cookies_Nil_iff split: option.split prod.split)
  next
    case (redeemed E token expires g w1 r r1 r')
    note step = redeem_in_zone [OF redeemed(4,5)]
    have "zone_data w1 = zone_data w" using redeemed(7) by (simp add: zone_data_def)
    with that(2) [OF redeemed(1), of "ge_now E AtConsume"] step redeemed(3,6-8) zone show thesis by (simp add: cookies)
  next
    case (started main)
    with handled zone assms(3) that(1) cookies show thesis
      by (auto simp: init_process_def redemption_activate_def zone_data_def worker_ok_def new_worker_def Let_def
          split: option.splits)
  qed
qed

subsection \<open>A run of the site\<close>

lemma enter_zone:
  assumes "zone_mode s"
  shows "wk_cluster (enter s k) = None" "wk_zone (enter s k) \<noteq> None" "zone_data (enter s k) = st_zone s"
    "worker_ok (enter s k) = worker_ok (st_worker s k)"
proof -
  obtain data where "wk_cluster (st_worker s k) = None" "wk_zone (st_worker s k) = Some data"
    using assms unfolding zone_mode_def by blast
  then show "wk_cluster (enter s k) = None" "wk_zone (enter s k) \<noteq> None" "zone_data (enter s k) = st_zone s"
    "worker_ok (enter s k) = worker_ok (st_worker s k)"
    by (simp_all add: enter_def set_zone_data_def zone_data_def worker_ok_def)
qed

lemma site_step_cases:
  assumes "zone_mode s" "zone_event (snd ev)"
  obtains (quiet) "st_zone (site_step X ev s) = st_zone s" "site_cookies X ev s = []"
  | (redeemed) now token expires g where "earned X (snd ev) (enter s (fst ev)) token expires g"
      "st_zone (site_step X ev s) = zone_step X (now, token, expires) (st_zone s)"
      "set (site_cookies X ev s) \<subseteq> {rg_cookie g}"
      "site_cookies X ev s \<noteq> [] \<longrightarrow> zone_accepts X (now, token, expires) (st_zone s) (redemption_id X token) expires"
proof -
  obtain w' cookies where run: "handle X (snd ev) (enter s (fst ev)) = (w', cookies)" by fastforce
  note zone = enter_zone [OF assms(1)]
  from zone(1,2) assms(2) run show thesis
    by (cases rule: handle_cases) (use that run zone(3) in \<open>simp_all add: site_step_def site_cookies_def\<close>)
qed

lemma zone_mode_step:
  assumes "zone_mode s" "zone_event (snd ev)"
  shows "zone_mode (site_step X ev s)"
    and "(\<forall>k. worker_ok (st_worker s k)) \<Longrightarrow> worker_ok (st_worker (site_step X ev s) k)"
proof -
  obtain w' cookies where run: "handle X (snd ev) (enter s (fst ev)) = (w', cookies)" by fastforce
  note zone = enter_zone [OF assms(1)]
  from zone(1,2) assms(2) run
  have "wk_cluster w' = None \<and> wk_zone w' \<noteq> None \<and> (worker_ok (enter s (fst ev)) \<longrightarrow> worker_ok w')"
    by (cases rule: handle_cases) simp_all
  then show "zone_mode (site_step X ev s)"
    and "(\<forall>k. worker_ok (st_worker s k)) \<Longrightarrow> worker_ok (st_worker (site_step X ev s) k)"
    using assms(1) run zone(4) by (simp_all add: zone_mode_def site_step_def)
qed

interpretation site: ledger_client "zone_step X" "zone_accepts X" "\<lambda>z ev. True" "\<lambda>z. True" zone_settled
  "site_step X" "hands_out X" "\<lambda>s ev. zone_event (snd ev)" zone_mode st_zone for X
proof unfold_locales
  fix s and ev :: "nat \<times> worker_event"
  assume now: "zone_mode s" "zone_event (snd ev)"
  then show "st_zone (site_step X ev s) = st_zone s \<and> (\<forall>uid e. \<not> hands_out X ev s uid e) \<or>
      (\<exists>attempt. True \<and> st_zone (site_step X ev s) = zone_step X attempt (st_zone s) \<and>
         (\<forall>uid e. hands_out X ev s uid e \<longrightarrow> zone_accepts X attempt (st_zone s) uid e))"
  proof (cases rule: site_step_cases [where X = X])
    case quiet
    then show ?thesis by (simp add: hands_out_def)
  next
    case (redeemed now token expires g)
    have "zone_accepts X (now, token, expires) (st_zone s) uid e" if "hands_out X ev s uid e" for uid e
    proof -
      from that obtain token' g' where "earned X (snd ev) (enter s (fst ev)) token' e g'" "redemption_id X token' = uid"
        "site_cookies X ev s \<noteq> []" unfolding hands_out_def by fastforce
      with earned_unique [OF redeemed(1)] redeemed(4) show ?thesis by metis
    qed
    with redeemed(2) show ?thesis by blast
  qed
qed (simp_all add: zone_mode_step)

text \<open>
  C3. One challenge, one clearance. Take any sequence of events in the workers of a site that
  keeps its ledger in the shared zone: requests, submissions and captured bodies in any
  interleaving, under any clock readings, whatever the background threads find out about bots,
  and with workers that die and are started again. A clearance cookie leaves the site only for a
  token that was earned in that very event, and for each token at most once in the whole run.
\<close>

theorem one_clearance_per_token:
  assumes "zone_mode s" "list_all (zone_event \<circ> snd) evs"
  shows "acceptances (site_step X) (hands_out X) evs s uid expires \<le> 1 \<and>
    list_all (\<lambda>(ev, s'). site_cookies X ev s' = [] \<or> (\<exists>u e. hands_out X ev s' u e)) (trace (site_step X) evs s)"
proof
  have run: "admitted (site_step X) (\<lambda>s ev. zone_event (snd ev)) evs s"
    using assms(2) by (induction evs arbitrary: s) (auto simp: admitted_def)
  then show "acceptances (site_step X) (hands_out X) evs s uid expires \<le> 1"
    by (rule site.client.at_most_once [OF assms(1)])
  have backed: "site_cookies X ev s' = [] \<or> (\<exists>u e. hands_out X ev s' u e)" if "zone_mode s'" "zone_event (snd ev)" for ev s'
    using that
  proof (cases rule: site_step_cases [where X = X])
    case (redeemed now token expires g)
    then have "hands_out X ev s' (redemption_id X token) expires" if "site_cookies X ev s' \<noteq> []"
      using that by (cases "site_cookies X ev s'") (auto simp: hands_out_def)
    then show ?thesis by blast
  qed simp
  show "list_all (\<lambda>(ev, s'). site_cookies X ev s' = [] \<or> (\<exists>u e. hands_out X ev s' u e)) (trace (site_step X) evs s)"
    unfolding list_all_iff
  proof
    fix p assume "p \<in> set (trace (site_step X) evs s)"
    with site.client.trace_inv [OF assms(1) run, of "fst p" "snd p"] backed [of "snd p" "fst p"]
    show "case p of (ev, s') \<Rightarrow> site_cookies X ev s' = [] \<or> (\<exists>u e. hands_out X ev s' u e)" by (simp add: split_beta)
  qed
qed

subsection \<open>What a run keeps\<close>

lemma zone_step_issuer: "zone_issuer (zone_step X ev z) = zone_issuer z"
  by (simp add: zone_step_def zone_consume_def zone_issuer_def Let_def case_prod_beta split: option.split)

lemma site_step_issuer:
  assumes "zone_mode s" "zone_event (snd ev)"
  shows "zone_issuer (st_zone (site_step X ev s)) = zone_issuer (st_zone s)"
  using assms by (cases rule: site_step_cases [where X = X]) (simp_all add: zone_step_issuer)

lemma site_run_keeps:
  fixes X
  assumes "zone_mode s" "\<forall>k. worker_ok (st_worker s k)" "list_all (zone_event \<circ> snd) evs"
  defines "s' \<equiv> fold (site_step X) evs s"
  shows "zone_mode s'" "\<forall>k. worker_ok (st_worker s' k)" "zone_issuer (st_zone s') = zone_issuer (st_zone s)"
proof -
  have "zone_mode (fold (site_step X) evs s) \<and> (\<forall>k. worker_ok (st_worker (fold (site_step X) evs s) k)) \<and>
      zone_issuer (st_zone (fold (site_step X) evs s)) = zone_issuer (st_zone s)"
    using assms(1-3)
  proof (induction evs arbitrary: s)
    case (Cons ev evs)
    then have ev: "zone_mode s" "zone_event (snd ev)" by simp_all
    note kept = zone_mode_step [OF ev] site_step_issuer [OF ev]
    from Cons.IH [of "site_step X ev s"] Cons.prems(2,3) kept show ?case by simp
  qed simp
  then show "zone_mode s'" "\<forall>k. worker_ok (st_worker s' k)" "zone_issuer (st_zone s') = zone_issuer (st_zone s)"
    by (simp_all add: s'_def)
qed

lemma issuer_enter: "zone_mode s \<Longrightarrow> issuer (enter s k) = zone_issuer (st_zone s)"
  by (simp add: issuer_def enter_zone)

text \<open>
  C5. Solving the challenge opens the site. Take a submission that passes every check, in a worker
  of a site whose zone accepts its redemption. The response carries the clearance cookie; and
  after whatever happens at the site in between, every worker that has the location configured
  alike lets the same client (address, host and User-Agent) through when it comes back with the
  cookie while it lasts, for a page outside the internal endpoint, under a policy the earned
  difficulty satisfies, where no request proof is demanded.
\<close>

theorem earned_clearance_passes:
  assumes laws: "base64_laws X" "digest_laws X" "serde_laws X"
    and site: "zone_mode s" "\<forall>k. worker_ok (st_worker s k)" "list_all (zone_event \<circ> snd) evs"
      "s' = fold (site_step X) ((k, Submits E lc r) # evs) s"
    and submit: "resolve_worker X E lc (enter s k) = (c, w1)" "pow_earned X E lc c w1 r token expires g"
      "zone_outcome X E token expires (enter s k) = Accepted" "healthy (ge_nginx E)" "set_cookies r = []"
    and clock: "in_i64 (ge_now E AtVerify)" "in_i64 (ge_now E AtVerify + cf_clearance_ttl c)" "in_i64 (cf_clearance_ttl c)"
      "in_i64 (ge_now F AtClearance)" "ge_now E AtVerify \<le> ge_now F AtClearance"
      "ge_now F AtClearance < ge_now E AtVerify + cf_clearance_ttl c"
    and again: "rg_cookie g = build_set_cookie v (cf_cookie c)" "length v \<le> 4096"
      "cookie (cc_name (cf_cookie c)) q = Some v" "rq_sockaddr q = rq_sockaddr r" "rq_server q = rq_server r"
      "header ''user-agent'' q = header ''user-agent'' r" "header ''x-pow-proof'' q = None"
      "\<not> (cf_require_proof c \<and> can_carry_proof q)"
      "\<not> (cf_endpoint c \<noteq> [] \<and> starts_with (rq_uri q) (cf_endpoint c))"
    and policy: "lc_enabled lc \<noteq> 0" "resolve_worker X F lc (enter s' k') = (c, w2)"
      "decision = parse (eval_complex_value (ge_nginx F) (lc_decision lc) q)"
      "decision \<noteq> Deny" "satisfies (Pow (rg_difficulty g)) (assurance_for decision c)"
  shows "rg_cookie g \<in> set (site_cookies X (k, Submits E lc r) s) \<and>
    fst (pow_gate_access X F (Some lc) (enter s' k') q) = NGX_DECLINED"
proof
  note here = enter_zone [OF site(1)]
  have "worker_ok (enter s k)" using here(4) site(2) by simp
  from resolve_worker_ok(1) [OF this, of X E lc] have ok: "cfg_ok c" by (simp add: submit(1))
  have w1: "wk_cluster w1 = None" "zone_outcome X E token expires w1 = Accepted" "issuer w1 = issuer (enter s k)"
    using resolve_worker_fields(1) [of X E lc "enter s k"] resolve_worker_store(2,4) [where X = X and E = E and lc = lc and w = "enter s k"]
      submit(3) here(1) by (simp_all add: submit(1))
  define r1 where "r1 = record_outcome (ge_nginx E) ''rejected'' ''invalid_submission'' (cf_difficulty c) r"
  have run: "verify_body X E (Some lc) (enter s k) r = snd (redeem X E token expires g w1 r1)"
    using verify_body_earned [OF submit(1,2)] by (simp add: r1_def)
  show "rg_cookie g \<in> set (site_cookies X (k, Submits E lc r) s)"
    using redeem_accepted [OF submit(4) w1(1,2), of g r1] submit(5)
    by (simp add: site_cookies_def handle_def run case_prod_beta new_cookies_def)
  have events: "list_all (zone_event \<circ> snd) ((k, Submits E lc r) # evs)" using site(3) by simp
  note kept = site_run_keeps [OF site(1,2) events, of X, folded site(4)]
  have "issuer (enter s' k') = issuer w1" using kept(3) by (simp add: w1(3) issuer_enter kept(1) site(1))
  from earned_is_cleared [OF laws ok submit(2) clock again(1-8) policy(5) this]
  show "fst (pow_gate_access X F (Some lc) (enter s' k') q) = NGX_DECLINED"
    by (rule access_lets_cleared [OF laws ok clock(4,3) policy(1,2) again(9) policy(3,4)])
qed

end
