(* ===== verification/Connection.thy ===== *)
theory Connection
  imports Cluster
begin

text \<open>
  One connection of the Redis client, byte by byte. The server may send its replies in any pieces;
  what a job has kept of them (\<open>jb_input\<close>, \<open>jb_auth\<close>) is determined by the bytes received so
  far, and the client takes a redemption for accepted only if the server's reply to the
  transaction was the integer 1.
\<close>

subsection \<open>What the server may send\<close>

text \<open>
  A line of the protocol ends with CR LF and has no CR before. On a connection that authenticates
  the first line answers \<open>AUTH\<close>, with whatever text; the next answers the transaction. \<open>rep\<close> is
  what the transaction returned, \<open>None\<close> if it has not run and \<open>Some None\<close> if the script failed:
  then there is no reply or an error.
\<close>

definition authenticates :: "cluster_config \<Rightarrow> bool" where
  "authenticates config \<longleftrightarrow> rc_password config \<noteq> []"

definition eval_line :: "int option option \<Rightarrow> bytes \<Rightarrow> bool" where
  "eval_line rep bs \<longleftrightarrow>
     (case rep of
        Some (Some n) \<Rightarrow> in_i64 n \<and> bs = as_bytes ('':'' @ int_str n)
      | _ \<Rightarrow> 13 \<notin> set bs \<and> take 1 bs = as_bytes ''-'')"

definition may_send :: "cluster_config \<Rightarrow> int option option \<Rightarrow> bytes \<Rightarrow> bool" where
  "may_send config rep bs \<longleftrightarrow>
     (\<exists>auth answer. (if authenticates config then \<exists>line. 13 \<notin> set line \<and> auth = line @ CRLF else auth = []) \<and>
        eval_line rep answer \<and> starts_with (auth @ answer @ CRLF) bs)"

text \<open>The bytes that the calls of \<open>recv\<close> in one event deliver.\<close>

fun received :: "recv list \<Rightarrow> bytes" where
  "received (RecvBytes bs # rest) = bs @ received rest"
| "received _ = []"

text \<open>What has arrived on each connection of a client, after an event.\<close>

fun hears :: "cluster \<Rightarrow> cluster_event \<Rightarrow> (nat \<Rightarrow> bytes) \<Rightarrow> nat \<Rightarrow> bytes" where
  "hears c (Reads j rearm recvs) m = (if ct_jobs c j = None then m else m(j := m j @ received recvs))"
| "hears c _ m = m"

text \<open>A job that has received the bytes \<open>G\<close>.\<close>

definition has_heard :: "cluster_config \<Rightarrow> bytes \<Rightarrow> cluster_job \<Rightarrow> bool" where
  "has_heard config G job \<longleftrightarrow>
     (if authenticates config \<and> \<not> jb_auth job then G = as_bytes ''+OK'' @ CRLF @ jb_input job else G = jb_input job) \<and>
     (jb_auth job \<longrightarrow> authenticates config)"

subsection \<open>Reading a line\<close>

lemma find_CRLF: "13 \<notin> set line \<Longrightarrow> find_sub (line @ CRLF @ rest) CRLF = Some (length line)"
  by (induction line) (auto simp: CRLF_def starts_with_def)

lemma find_sub_here: "find_sub xs p = Some e \<Longrightarrow> xs = take e xs @ p @ drop (e + length p) xs"
proof (induction xs arbitrary: e)
  case (Cons x xs)
  show ?case
  proof (cases "starts_with (x # xs) p")
    case True
    with Cons.prems show ?thesis by (auto simp: starts_with_iff)
  next
    case False
    with Cons.prems obtain m where "find_sub xs p = Some m" "e = Suc m" by auto
    with Cons.IH [of m] show ?thesis by simp
  qed
qed (auto split: if_splits)

lemma first_line:
  assumes "starts_with (line @ CRLF @ rest) bs" "13 \<notin> set line" "find_sub bs CRLF = Some e"
  shows "e = length line \<and> (\<exists>more. bs = line @ CRLF @ more \<and> starts_with rest more)"
proof -
  from assms(1) obtain zs where zs: "line @ CRLF @ rest = bs @ zs" by (auto simp: starts_with_iff)
  from find_sub_append [OF assms(3), of zs] find_CRLF [OF assms(2), of rest] have e: "e = length line" by (simp add: zs)
  note here = find_sub_here [OF assms(3)]
  have "take e (line @ CRLF @ rest) = take e bs" using find_sub_bound [OF assms(3)] by (simp add: zs)
  then have bs: "bs = line @ CRLF @ drop (e + length CRLF) bs" using here e by simp
  moreover from this zs have "rest = drop (e + length CRLF) bs @ zs" by (metis append_assoc same_append_eq)
  ultimately show ?thesis using e by (auto simp: starts_with_iff)
qed

lemma read_reply_OkD:
  assumes "read_reply input = Inr (Some (ReplyOk, used))"
  shows "input = as_bytes ''+OK'' @ CRLF @ drop used input"
proof -
  from assms obtain e where "find_sub input CRLF = Some e" "take e input = as_bytes ''+OK''" "used = e + 2"
    by (auto simp: read_reply_def Let_def split: if_splits option.splits)
  with find_sub_here [of input CRLF e] show ?thesis by (simp add: CRLF_def)
qed

lemma read_reply_IntegerD:
  "read_reply input = Inr (Some (Integer n, used)) \<Longrightarrow>
   \<exists>e. find_sub input CRLF = Some e \<and> take 1 (take e input) = as_bytes '':'' \<and> parse_i64 (str_of_bytes (drop 1 (take e input))) = Some n"
  by (auto simp: read_reply_def from_utf8_def Let_def split: if_splits option.splits)

lemma int_line_free: "13 \<notin> set (as_bytes ('':'' @ int_str n))"
proof -
  have "\<not> is_ascii_digit (char_of (13 :: nat))" by code_simp
  then have "char_of (13 :: nat) \<notin> set (nat_str m)" for m using nat_str_digits by blast
  moreover have "char_of (13 :: nat) \<in> set t" if "13 \<in> set (as_bytes t)" for t
    using imageI [OF that, of "\<lambda>b. char_of (unat b)"] arg_cong [OF str_of_bytes_as_bytes [of t], of set]
    by (simp add: str_of_bytes_def)
  ultimately show ?thesis by (auto simp: int_str_def as_bytes_Cons)
qed

text \<open>A line read as the integer 1 is the answer of a transaction that returned 1.\<close>

lemma eval_line_one:
  assumes "starts_with (answer @ CRLF) input" "eval_line rep answer" "read_reply input = Inr (Some (Integer 1, used))"
  shows "rep = Some (Some 1)"
proof -
  from read_reply_IntegerD [OF assms(3)] obtain e where e: "find_sub input CRLF = Some e"
    "take 1 (take e input) = as_bytes '':''" "parse_i64 (str_of_bytes (drop 1 (take e input))) = Some 1" by blast
  have free: "13 \<notin> set answer" using assms(2) int_line_free
    by (auto simp: eval_line_def split: option.splits)
  from first_line [OF _ free e(1), of "[]"] assms(1) have line: "take e input = answer" by auto
  show ?thesis
    using assms(2) e(2,3) by (auto simp: line eval_line_def as_bytes_Cons split: option.splits)
qed

subsection \<open>Reading a connection\<close>

lemma read_replies_waits:
  "read_replies job = Inl job' \<Longrightarrow> has_heard config G job \<Longrightarrow> has_heard config G job'"
proof (induction job rule: read_replies.induct)
  case (1 job)
  consider "read_reply (jb_input job) = Inr None"
    | used where "read_reply (jb_input job) = Inr (Some (ReplyOk, used))" "jb_auth job"
    using "1.prems"(1) by (subst (asm) read_replies.simps) (auto simp: Let_def split: sum.splits option.splits if_splits)
  then show ?case
  proof cases
    case 1
    with "1.prems" show ?thesis by (subst (asm) read_replies.simps) simp
  next
    case 2
    let ?job = "job\<lparr>jb_input := drop used (jb_input job), jb_auth := False\<rparr>"
    have "read_replies ?job = Inl job'" using "1.prems"(1) 2 by (subst (asm) read_replies.simps) simp
    moreover have "has_heard config G ?job"
      using "1.prems"(2) 2(2) read_reply_OkD [OF 2(1)] by (simp add: has_heard_def)
    ultimately show ?thesis using "1.IH" 2 by simp
  qed
qed

lemma read_replies_accepted:
  "read_replies job = Inr (Accepted, f) \<Longrightarrow> has_heard config G job \<Longrightarrow> may_send config rep G \<Longrightarrow> rep = Some (Some 1)"
proof (induction job rule: read_replies.induct)
  case (1 job)
  from "1.prems"(1) obtain reply used where rr: "read_reply (jb_input job) = Inr (Some (reply, used))"
    "jb_auth job \<longrightarrow> reply = ReplyOk"
    "read_replies job = (if jb_auth job then read_replies (job\<lparr>jb_input := drop used (jb_input job), jb_auth := False\<rparr>)
       else Inr (reply_outcome reply))"
    by (auto simp: read_replies.simps [of job] Let_def split: sum.splits option.splits if_splits)
  show ?case
  proof (cases "jb_auth job")
    case True
    let ?job = "job\<lparr>jb_input := drop used (jb_input job), jb_auth := False\<rparr>"
    have "has_heard config G ?job"
      using "1.prems"(2) True read_reply_OkD [of "jb_input job" used] rr(1,2) by (simp add: has_heard_def)
    with "1.IH" rr True "1.prems"(1,3) show ?thesis by simp
  next
    case False
    then have one: "reply = Integer 1" using rr(3) "1.prems"(1) by (auto simp: reply_outcome_def split: reply.splits if_splits)
    from "1.prems"(3) obtain auth answer where send: "eval_line rep answer" "starts_with (auth @ answer @ CRLF) G"
      "if authenticates config then \<exists>line. 13 \<notin> set line \<and> auth = line @ CRLF else auth = []"
      unfolding may_send_def by blast
    have "starts_with (answer @ CRLF) (jb_input job)"
    proof (cases "authenticates config")
      case True
      with send(3) obtain line where line: "13 \<notin> set line" "auth = line @ CRLF" by auto
      have G: "G = as_bytes ''+OK'' @ CRLF @ jb_input job" using "1.prems"(2) True False by (simp add: has_heard_def)
      have ok: "13 \<notin> set (as_bytes ''+OK'')" by code_simp
      have "starts_with (line @ CRLF @ answer @ CRLF) (as_bytes ''+OK'' @ CRLF @ jb_input job)"
        using send(2) by (simp add: line(2) G)
      from first_line [OF this line(1) find_CRLF [OF ok]] show ?thesis by auto
    next
      case no: False
      then show ?thesis using "1.prems"(2) send(2,3) by (simp add: has_heard_def)
    qed
    from eval_line_one [OF this send(1)] rr(1) one show ?thesis by simp
  qed
qed

text \<open>An acceptance read from a connection is the server's.\<close>

lemma read_result_accepted:
  assumes "read_result recvs job = Some (Accepted, f)" "has_heard config G job" "may_send config rep (G @ received recvs)"
  shows "rep = Some (Some 1)"
  using assms
proof (induction recvs job arbitrary: G rule: read_result.induct)
  case (4 bs rest job)
  let ?job = "job\<lparr>jb_input := jb_input job @ bs\<rparr>"
  have heard: "has_heard config (G @ bs) ?job" using "4.prems"(2) by (auto simp: has_heard_def)
  show ?case
  proof (cases "read_replies ?job")
    case (Inl job')
    with "4.IH" [OF _ Inl _ read_replies_waits [OF Inl heard]] "4.prems"(1,3) show ?thesis by (auto split: if_splits)
  next
    case (Inr res)
    have "may_send config rep (G @ bs)"
      using "4.prems"(3) unfolding may_send_def starts_with_iff by (metis append_assoc received.simps(1))
    moreover have "res = (Accepted, f)" using "4.prems"(1) Inr by (auto split: if_splits)
    ultimately show ?thesis using read_replies_accepted heard Inr by blast
  qed
qed auto

subsection \<open>What an event does to the input of a job\<close>

definition same_input :: "cluster_job \<Rightarrow> cluster_job \<Rightarrow> bool" where
  "same_input a b \<longleftrightarrow> jb_input b = jb_input a \<and> jb_auth b = jb_auth a"

text \<open>The input of a job is kept by every event but a read on its own connection; a new job starts without any.\<close>

definition input_from :: "cluster \<Rightarrow> nat \<Rightarrow> cluster_job \<Rightarrow> bool" where
  "input_from c0 j job \<longleftrightarrow>
     (\<exists>job0. ct_jobs c0 j = Some job0 \<and> same_input job0 job) \<or>
     j = ct_next c0 \<and> jb_input job = [] \<and> jb_auth job = authenticates (ct_config c0)"

fun reads_on :: "cluster_event \<Rightarrow> nat \<Rightarrow> bool" where
  "reads_on (Reads i _ _) j \<longleftrightarrow> i = j"
| "reads_on _ j \<longleftrightarrow> False"

definition inputs_from :: "cluster_event \<Rightarrow> cluster \<Rightarrow> nat list \<Rightarrow> cluster \<Rightarrow> bool" where
  "inputs_from ev c0 ow c \<longleftrightarrow> (\<forall>j job. ct_jobs c j = Some job \<and> \<not> reads_on ev j \<longrightarrow> input_from c0 j job)"

lemma input_from_same: "input_from c0 j a \<Longrightarrow> same_input a b \<Longrightarrow> input_from c0 j b"
  unfolding input_from_def same_input_def by metis

interpretation inputs: runtime_moves "inputs_from ev c0" "\<lambda>_ _. True"
  "\<lambda>j a b. same_duties a b \<and> (reads_on ev j \<or> same_input a b)" "reads_on ev" for ev c0
proof (unfold_locales, goal_cases)
  case (1 ow c j f)
  then show ?case unfolding inputs_from_def update_job_def by (auto split: if_splits intro: input_from_same)
qed (auto simp: inputs_from_def same_input_def release_jobs split: if_splits intro: heard_duties)

lemma cluster_step_inputs: "inputs_from ev c [] (cluster_step X E ev c)"
proof (rule inputs.I_cluster_step)
  have old: "ct_jobs c j = Some job \<Longrightarrow> input_from c j job" for j job
    by (auto simp: input_from_def same_input_def)
  then show "inputs_from ev c [] c" by (auto simp: inputs_from_def)
  show "inputs_from ev c [] (update_job j (\<lambda>job. job\<lparr>jb_request := None, jb_cleanup := False\<rparr>) c)" for j
    using old by (auto simp: inputs_from_def update_job_def input_from_def same_input_def split: if_splits)
  fix job :: cluster_job assume "jb_input job = []" "jb_auth job = (rc_password (ct_config c) \<noteq> [])"
  then have new: "input_from c (ct_next c) job" by (simp add: input_from_def authenticates_def)
  with old show "inputs_from ev c [] (spawn job (c\<lparr>ct_health_busy := True\<rparr>))"
    by (auto simp: inputs_from_def spawn_def)
  show "inputs_from ev c [] (c\<lparr>ct_finished := ct_finished c @ [(req, Full, g)]\<rparr>) \<and>
      (length (ct_active c) < rc_connections (ct_config c) \<longrightarrow>
         inputs_from ev c [] ((spawn job c)\<lparr>ct_active := ct_active c @ [ct_next c]\<rparr>)) \<and>
      (rc_connections (ct_config c) \<le> length (ct_active c) \<and> length (ct_pending c) < rc_queue (ct_config c) \<longrightarrow>
         inputs_from ev c [] ((spawn job c)\<lparr>ct_pending := ct_pending c @ [ct_next c]\<rparr>))" for req g
    using old new by (auto simp: inputs_from_def spawn_def)
qed simp_all

text \<open>A freed job does not come back.\<close>

interpretation gone: runtime_moves "\<lambda>ow c. ct_jobs c j = None" "\<lambda>_ _. True" "\<lambda>_. same_duties" "\<lambda>_. True" for j
  by unfold_locales (auto simp: update_job_def release_jobs finish_call_def split: option.splits intro: heard_duties)

lemma complete_frees: "ct_jobs (complete E j out f c) j = None"
proof (cases "ct_jobs c j")
  case (Some job)
  let ?c = "snd (release E j job out f c)"
  have "ct_jobs ?c j = None" by (simp add: release_jobs)
  moreover from this have "ct_jobs (pump E (?c\<lparr>ct_pumping := True\<rparr>)) j = None" by (intro gone.I_pump) simp
  ultimately show ?thesis using Some
    by (simp add: complete_def case_prod_beta Let_def finish_call_def split: option.splits)
qed (simp add: complete_def)

lemma read_frees:
  assumes "ct_jobs c j = Some job" "read_result recvs job = Some (out, f)"
  shows "ct_jobs (read_event E j rearm recvs c) j = None"
  using read_loop_result [OF assms, of E rearm] by (auto simp: read_event_def assms(1) complete_frees)

text \<open>A read on a job's own connection adds what was received.\<close>

lemma read_loop_input:
  assumes "ct_jobs c j = Some job" "has_heard config G job"
    and "ct_jobs (read_loop E j rearm recvs job c) j = Some job'"
  shows "has_heard config (G @ received recvs) job'"
  using assms
proof (induction E j rearm recvs job c arbitrary: G rule: read_loop.induct)
  case (4 E j rearm bs rest job c)
  let ?job = "job\<lparr>jb_input := jb_input job @ bs\<rparr>"
  have heard: "has_heard config (G @ bs) ?job" using "4.prems"(2) by (auto simp: has_heard_def)
  have fits: "\<not> (bs = [] \<or> length (jb_input job) + length bs > 1024)"
    using "4.prems"(3) by (auto simp: complete_frees split: if_splits)
  show ?case
  proof (cases "read_replies ?job")
    case (Inl job1)
    have "ct_jobs (update_job j (\<lambda>_. job1) c) j = Some job1" using "4.prems"(1) by (simp add: update_job_def)
    from "4.IH" [OF fits Inl this read_replies_waits [OF Inl heard]] "4.prems"(3) fits Inl show ?thesis by simp
  next
    case (Inr res)
    with "4.prems"(3) fits show ?thesis by (cases res) (simp add: complete_frees)
  qed
qed (auto simp: complete_frees split: if_splits)

text \<open>Altogether: what a job holds is what arrived on its connection, before and after every event.\<close>

lemma hears_other: "\<not> reads_on ev j \<Longrightarrow> hears c ev m j = m j"
  by (cases ev) auto

lemma heard_step:
  assumes heard: "\<And>j job. ct_jobs c j = Some job \<Longrightarrow> has_heard (ct_config c) (m j) job" and new: "m (ct_next c) = []"
    and job: "ct_jobs (cluster_step X E ev c) j = Some job"
  shows "has_heard (ct_config c) (hears c ev m j) job"
proof (cases "reads_on ev j")
  case True
  then obtain rearm recvs where ev: "ev = Reads j rearm recvs" by (cases ev) auto
  with job obtain job0 where "ct_jobs c j = Some job0" by (auto simp: read_event_def split: option.splits)
  with read_loop_input [OF this heard [OF this]] job show ?thesis by (simp add: ev read_event_def)
next
  case False
  then have "input_from c j job" using cluster_step_inputs job unfolding inputs_from_def by blast
  with heard new show ?thesis
    by (auto simp: input_from_def hears_other [OF False] has_heard_def same_input_def)
qed

lemma hears_live: "hears c ev m j \<noteq> m j \<Longrightarrow> ct_jobs c j \<noteq> None"
  by (cases ev) (auto split: if_splits)

end
