(* ===== verification/Fleet.thy ===== *)
theory Fleet
  imports Connection
begin

text \<open>
  The redemption clients of all nodes together with the Redis server they share. The clients are
  the state machines of \<open>Cluster\<close>, the server runs the transactions of \<open>Redis\<close>; between them are
  the connections, one per job. Four things are remembered beside the states of the parts: what a
  handler asked to have redeemed for a request, the bytes a job has to send, the result of a job's
  transaction, and the bytes that have arrived on its connection. What is assumed of the network
  is that a connection belongs to one job: the server runs the transaction that its bytes carry at
  most once, and what arrives is a part of what the server may send (\<open>may_send\<close>). Replies may be
  lost, late, cut into pieces or run into timeouts, and a transaction may be run for a client that
  has given up.
\<close>

record 'r fleet =
  fl_client :: "nat \<Rightarrow> cluster"
  fl_server :: "'r ledger_state"
  fl_asked :: "nat \<times> nat \<Rightarrow> (string \<times> i64 \<times> redeem_grant) option"
  fl_wire :: "nat \<times> nat \<Rightarrow> bytes option"
  fl_reply :: "nat \<times> nat \<Rightarrow> int option option"
  fl_got :: "nat \<Rightarrow> nat \<Rightarrow> bytes"

datatype fleet_event =
    Node nat cluster_env cluster_event
  | Serve nat nat string i64 i64
  | Clock int

fun asks :: "nat \<Rightarrow> cluster_event \<Rightarrow> (nat \<times> nat \<Rightarrow> (string \<times> i64 \<times> redeem_grant) option) \<Rightarrow>
    nat \<times> nat \<Rightarrow> (string \<times> i64 \<times> redeem_grant) option" where
  "asks k (Redeems req token expires g) m = m((k, req) \<mapsto> (token, expires, g))"
| "asks k _ m = m"

definition wires :: "nat \<Rightarrow> cluster \<Rightarrow> (nat \<times> nat \<Rightarrow> bytes option) \<Rightarrow> nat \<times> nat \<Rightarrow> bytes option" where
  "wires k c m = (\<lambda>(i, j). if i = k then (case ct_jobs c j of Some job \<Rightarrow> Some (jb_output job) | None \<Rightarrow> m (k, j)) else m (i, j))"

abbreviation ledger_step :: "'r redis_api \<Rightarrow> externals \<Rightarrow> cluster_config \<Rightarrow> redis_event \<Rightarrow> 'r ledger_state \<Rightarrow> 'r ledger_state" where
  "ledger_step R X config \<equiv> redis_step R X (rc_namespace config) (rc_epoch config) (rc_skew config)"

fun fleet_step :: "'r redis_api \<Rightarrow> externals \<Rightarrow> cluster_config \<Rightarrow> fleet_event \<Rightarrow> 'r fleet \<Rightarrow> 'r fleet" where
  "fleet_step R X config (Node k E ev) s =
     (let c = cluster_step X E ev (fl_client s k)
      in s\<lparr>fl_client := (fl_client s)(k := c), fl_asked := asks k ev (fl_asked s), fl_wire := wires k c (fl_wire s),
            fl_got := (fl_got s)(k := hears (fl_client s k) ev (fl_got s k))\<rparr>)"
| "fleet_step R X config (Serve k j token expires client_now) s =
     s\<lparr>fl_server := ledger_step R X config (Redeem token expires client_now) (fl_server s),
       fl_reply := (fl_reply s)((k, j) \<mapsto> fst (redis_run R X (rc_namespace config) (rc_epoch config) (rc_skew config)
         token expires client_now (fst (fl_server s))))\<rparr>"
| "fleet_step R X config (Clock t) s = s\<lparr>fl_server := ledger_step R X config (ClockMoves t) (fl_server s)\<rparr>"

text \<open>
  Which events can happen: a request asks once; what is read on the connection of a redemption is
  what the server may send there; the server runs what a connection carries, once; the server's clock stays within \<open>S\<close> seconds
  of its highest reading.
\<close>

fun fleet_ok :: "externals \<Rightarrow> cluster_config \<Rightarrow> int \<Rightarrow> 'r fleet \<Rightarrow> fleet_event \<Rightarrow> bool" where
  "fleet_ok X config S s (Node k E (Redeems req token expires g)) \<longleftrightarrow>
     fresh_event (Redeems req token expires g) (fl_client s k) \<and> fl_asked s (k, req) = None"
| "fleet_ok X config S s (Node k E (Reads j rearm recvs)) \<longleftrightarrow>
     (\<forall>job. ct_jobs (fl_client s k) j = Some job \<and> \<not> jb_health job \<longrightarrow>
        may_send config (fl_reply s (k, j)) (fl_got s k j @ received recvs))"
| "fleet_ok X config S s (Node k E ev) \<longleftrightarrow> True"
| "fleet_ok X config S s (Serve k j token expires client_now) \<longleftrightarrow>
     fl_wire s (k, j) = Some (job_output X config token expires False client_now) \<and> fl_reply s (k, j) = None"
| "fleet_ok X config S s (Clock t) \<longleftrightarrow> clock_ok S (fl_server s) (ClockMoves t)"

text \<open>An acceptance is handed to a request that asked for the token with this identity and expiry.\<close>

fun grants_now :: "externals \<Rightarrow> fleet_event \<Rightarrow> 'r fleet \<Rightarrow> (nat \<times> nat \<times> redeem_grant) set" where
  "grants_now X (Node k E ev) s =
     {(k, req, g) | req g. (req, Accepted, g) \<in> set (ct_finished (cluster_step X E ev (fl_client s k))) \<and>
        (req, Accepted, g) \<notin> set (ct_finished (fl_client s k))}"
| "grants_now X _ s = {}"

definition delivers :: "externals \<Rightarrow> fleet_event \<Rightarrow> 'r fleet \<Rightarrow> bytes \<Rightarrow> i64 \<Rightarrow> bool" where
  "delivers X ev s uid expires \<longleftrightarrow>
     (\<exists>k req g token. (k, req, g) \<in> grants_now X ev s \<and> fl_asked s (k, req) = Some (token, expires, g) \<and>
        redemption_id X token = uid)"

definition fleet_start :: "cluster_config \<Rightarrow> 'r ledger_state \<Rightarrow> 'r fleet" where
  "fleet_start config server =
     \<lparr>fl_client = (\<lambda>_. cluster_activate config), fl_server = server, fl_asked = (\<lambda>_. None),
      fl_wire = (\<lambda>_. None), fl_reply = (\<lambda>_. None), fl_got = (\<lambda>_ _. [])\<rparr>"

subsection \<open>What a client does to its jobs\<close>

text \<open>Where the jobs after an event come from.\<close>

definition same_ask :: "cluster_job \<Rightarrow> cluster_job \<Rightarrow> bool" where
  "same_ask a b \<longleftrightarrow> jb_output b = jb_output a \<and> jb_grant b = jb_grant a \<and> jb_health b = jb_health a \<and>
     (jb_request b = jb_request a \<or> jb_request b = None)"

fun new_job :: "externals \<Rightarrow> cluster_env \<Rightarrow> cluster_config \<Rightarrow> cluster_event \<Rightarrow> cluster_job \<Rightarrow> bool" where
  "new_job X E config (Redeems req token expires g) job \<longleftrightarrow>
     jb_output job = job_output X config token expires False (ce_now E) \<and> jb_request job = Some req \<and>
     jb_grant job = Some g \<and> \<not> jb_health job"
| "new_job X E config (Polls _) job \<longleftrightarrow> jb_health job"
| "new_job X E config _ job \<longleftrightarrow> False"

definition job_from :: "externals \<Rightarrow> cluster_env \<Rightarrow> cluster_event \<Rightarrow> cluster \<Rightarrow> nat \<Rightarrow> cluster_job \<Rightarrow> bool" where
  "job_from X E ev c0 j job \<longleftrightarrow>
     (\<exists>job0. ct_jobs c0 j = Some job0 \<and> same_ask job0 job) \<or> j = ct_next c0 \<and> new_job X E (ct_config c0) ev job"

definition jobs_from :: "externals \<Rightarrow> cluster_env \<Rightarrow> cluster_event \<Rightarrow> cluster \<Rightarrow> nat list \<Rightarrow> cluster \<Rightarrow> bool" where
  "jobs_from X E ev c0 ow c \<longleftrightarrow>
     ct_next c0 \<le> ct_next c \<and> (\<forall>j job. ct_jobs c j = Some job \<longrightarrow> job_from X E ev c0 j job)"

lemma new_job_duties: "new_job X E config ev a \<Longrightarrow> same_duties a b \<Longrightarrow> new_job X E config ev b"
  by (cases "(X, E, config, ev, a)" rule: new_job.cases) (auto simp: same_duties_def)

lemma same_ask_duties: "same_ask a b \<Longrightarrow> same_duties b d \<Longrightarrow> same_ask a d"
  by (auto simp: same_ask_def same_duties_def)

lemma job_from_duties: "job_from X E ev c0 j a \<Longrightarrow> same_duties a b \<Longrightarrow> job_from X E ev c0 j b"
  unfolding job_from_def using same_ask_duties new_job_duties by blast

interpretation jobs: runtime_moves "jobs_from X E ev c0" "\<lambda>_ _. True" "\<lambda>_. same_duties" "\<lambda>_. True" for X E ev c0
proof (unfold_locales, goal_cases)
  case (1 ow c j f)
  then show ?case by (auto simp: jobs_from_def update_job_def split: if_splits intro: job_from_duties)
qed (auto simp: jobs_from_def release_jobs release_def finish_call_def Let_def split: option.splits if_splits intro: heard_duties)

lemma cluster_step_jobs: "jobs_from X E ev c [] (cluster_step X E ev c)"
proof (rule jobs.I_cluster_step)
  have old: "ct_jobs c j = Some job \<Longrightarrow> job_from X E ev c j job" for j job
    by (auto simp: job_from_def same_ask_def)
  then show "jobs_from X E ev c [] c" by (auto simp: jobs_from_def)
  show "jobs_from X E ev c [] (spawn job (c\<lparr>ct_health_busy := True\<rparr>))" if "ev = Polls False" "jb_health job" for job
    using that old by (auto simp: jobs_from_def job_from_def spawn_def)
  show "jobs_from X E ev c [] (update_job j (\<lambda>job. job\<lparr>jb_request := None, jb_cleanup := False\<rparr>) c)" for j
    using old by (auto simp: jobs_from_def job_from_def update_job_def same_ask_def split: if_splits)
  show "jobs_from X E ev c [] (c\<lparr>ct_finished := ct_finished c @ [(req, Full, g)]\<rparr>) \<and>
      (length (ct_active c) < rc_connections (ct_config c) \<longrightarrow>
         jobs_from X E ev c [] ((spawn job c)\<lparr>ct_active := ct_active c @ [ct_next c]\<rparr>)) \<and>
      (rc_connections (ct_config c) \<le> length (ct_active c) \<and> length (ct_pending c) < rc_queue (ct_config c) \<longrightarrow>
         jobs_from X E ev c [] ((spawn job c)\<lparr>ct_pending := ct_pending c @ [ct_next c]\<rparr>))"
    if "ev = Redeems req token expires g" "jb_output job = job_output X (ct_config c) token expires False (ce_now E)"
      "jb_request job = Some req" "jb_grant job = Some g" "\<not> jb_health job" for req token expires g job
  proof -
    have "job_from X E ev c (ct_next c) job" using that by (simp add: job_from_def)
    with old show ?thesis by (auto simp: jobs_from_def spawn_def)
  qed
qed simp_all

subsection \<open>The transactions on the wire\<close>

lemma job_output_inject:
  assumes "job_output X config token expires False now = job_output X config token' expires' False now'"
  shows "redemption_id X token = redemption_id X token' \<and> expires = expires'"
proof -
  let ?parts = "\<lambda>token expires now. case redis_keys X (rc_namespace config) (rc_epoch config) token of (key0, key1, key2) \<Rightarrow>
    [as_bytes ''EVAL'', as_bytes CONSUME_SOURCE, as_bytes ''3'', as_bytes key0, as_bytes key1, as_bytes key2,
     as_bytes (rc_epoch config), as_bytes (int_str expires), as_bytes (int_str (rc_skew config)), as_bytes (int_str now)]"
  have "command (?parts token expires now) @ [] = command (?parts token' expires' now') @ []"
    using assms by (simp add: job_output_def Let_def case_prod_beta)
  from conjunct1 [OF command_prefix_free [OF this]] show ?thesis
    by (simp add: redis_keys_def Let_def hex_inject)
qed

definition carries :: "externals \<Rightarrow> cluster_config \<Rightarrow> 'r fleet \<Rightarrow> nat \<times> nat \<Rightarrow> bytes \<Rightarrow> i64 \<Rightarrow> bool" where
  "carries X config s kj uid expires \<longleftrightarrow>
     (\<exists>token now. fl_wire s kj = Some (job_output X config token expires False now) \<and> redemption_id X token = uid)"

definition accepted_on :: "externals \<Rightarrow> cluster_config \<Rightarrow> 'r fleet \<Rightarrow> nat \<times> nat \<Rightarrow> bytes \<Rightarrow> i64 \<Rightarrow> bool" where
  "accepted_on X config s kj uid expires \<longleftrightarrow> fl_reply s kj = Some (Some 1) \<and> carries X config s kj uid expires"

definition asked_for :: "externals \<Rightarrow> cluster_config \<Rightarrow> 'r fleet \<Rightarrow> nat \<Rightarrow> cluster_job \<Rightarrow> bool" where
  "asked_for X config s k job \<longleftrightarrow>
     (\<exists>token expires now g. jb_output job = job_output X config token expires False now \<and> jb_grant job = Some g \<and>
        (\<forall>req. jb_request job = Some req \<longrightarrow> fl_asked s (k, req) = Some (token, expires, g)))"

definition clients_inv :: "externals \<Rightarrow> cluster_config \<Rightarrow> 'r fleet \<Rightarrow> bool" where
  "clients_inv X config s \<longleftrightarrow>
     (\<forall>k. cluster_reach X config (fl_client s k)) \<and>
     (\<forall>k j job. ct_jobs (fl_client s k) j = Some job \<longrightarrow> fl_wire s (k, j) = Some (jb_output job)) \<and>
     (\<forall>k j. fl_wire s (k, j) \<noteq> None \<longrightarrow> j < ct_next (fl_client s k)) \<and>
     (\<forall>k j job. ct_jobs (fl_client s k) j = Some job \<and> \<not> jb_health job \<longrightarrow> asked_for X config s k job) \<and>
     (\<forall>kj. fl_reply s kj \<noteq> None \<longrightarrow> fl_wire s kj \<noteq> None) \<and>
     (\<forall>k j job. ct_jobs (fl_client s k) j = Some job \<longrightarrow> has_heard config (fl_got s k j) job) \<and>
     (\<forall>k j. ct_next (fl_client s k) \<le> j \<longrightarrow> fl_got s k j = [])"

abbreviation spent_at :: "'r redis_api \<Rightarrow> cluster_config \<Rightarrow> int \<Rightarrow> 'r ledger_state \<Rightarrow> bytes \<Rightarrow> i64 \<Rightarrow> bool" where
  "spent_at R config S \<equiv> redis_settled R (rc_namespace config) (rc_epoch config) S"

definition fleet_inv :: "'r redis_api \<Rightarrow> externals \<Rightarrow> cluster_config \<Rightarrow> int \<Rightarrow> 'r fleet \<Rightarrow> bool" where
  "fleet_inv R X config S s \<longleftrightarrow>
     clients_inv X config s \<and> redis_inv R (rc_namespace config) (rc_skew config) S (fl_server s) \<and>
     (\<forall>kj uid e. accepted_on X config s kj uid e \<longrightarrow> spent_at R config S (fl_server s) uid e) \<and>
     (\<forall>kj kj' uid e. accepted_on X config s kj uid e \<and> accepted_on X config s kj' uid e \<longrightarrow> kj = kj')"

definition fleet_settled :: "externals \<Rightarrow> cluster_config \<Rightarrow> 'r fleet \<Rightarrow> bytes \<Rightarrow> i64 \<Rightarrow> bool" where
  "fleet_settled X config s uid e \<longleftrightarrow>
     (\<exists>k j. accepted_on X config s (k, j) uid e \<and> ct_jobs (fl_client s k) j = None)"

lemma clients_invD:
  assumes "clients_inv X config s"
  shows "cluster_reach X config (fl_client s k)"
    and "ct_jobs (fl_client s k) j = Some job \<Longrightarrow> fl_wire s (k, j) = Some (jb_output job)"
    and "fl_wire s (k, j) = Some out \<Longrightarrow> j < ct_next (fl_client s k)"
    and "ct_jobs (fl_client s k) j = Some job \<Longrightarrow> \<not> jb_health job \<Longrightarrow> asked_for X config s k job"
    and "fl_reply s kj = Some rep \<Longrightarrow> \<exists>out. fl_wire s kj = Some out"
    and "ct_config (fl_client s k) = config" "ct_jobs (fl_client s k) (ct_next (fl_client s k)) = None"
    and "ct_jobs (fl_client s k) j = Some job \<Longrightarrow> j < ct_next (fl_client s k)"
    and "ct_jobs (fl_client s k) j = Some job \<Longrightarrow> jb_health job \<Longrightarrow> jb_request job = None"
    and "ct_jobs (fl_client s k) j = Some job \<Longrightarrow> has_heard config (fl_got s k j) job"
    and "ct_next (fl_client s k) \<le> j \<Longrightarrow> fl_got s k j = []"
proof -
  show reach: "cluster_reach X config (fl_client s k)" using assms by (simp add: clients_inv_def)
  then have q: "queue_inv config [] (fl_client s k)" using reach_inv by blast
  show "ct_config (fl_client s k) = config" using q by (simp add: queue_inv_def)
  show live: "ct_jobs (fl_client s k) j = Some job \<Longrightarrow> j < ct_next (fl_client s k)" for j job
    using q unfolding queue_inv_def by blast
  show "ct_jobs (fl_client s k) (ct_next (fl_client s k)) = None" using live by fastforce
  show "ct_jobs (fl_client s k) j = Some job \<Longrightarrow> jb_health job \<Longrightarrow> jb_request job = None"
    using q unfolding queue_inv_def by blast
qed (use assms in \<open>auto simp: clients_inv_def simp del: split_paired_All\<close>)

subsection \<open>Events of a node\<close>

lemma node_wire_kept:
  assumes "clients_inv X config s" "fl_wire s kj = Some out"
  shows "fl_wire (fleet_step R X config (Node k E ev) s) kj = Some out"
proof -
  obtain i j where kj: "kj = (i, j)" by fastforce
  let ?c = "cluster_step X E ev (fl_client s k)"
  show ?thesis
  proof (cases "i = k \<and> ct_jobs ?c j \<noteq> None")
    case True
    then obtain job where job: "ct_jobs ?c j = Some job" by blast
    have "job_from X E ev (fl_client s k) j job"
      using cluster_step_jobs [of X E ev "fl_client s k"] job unfolding jobs_from_def by blast
    moreover have "j < ct_next (fl_client s k)" using clients_invD(3) [OF assms(1)] assms(2) True kj by blast
    ultimately obtain job0 where "ct_jobs (fl_client s k) j = Some job0" "same_ask job0 job"
      by (auto simp: job_from_def)
    with clients_invD(2) [OF assms(1)] assms(2) True kj job show ?thesis
      by (auto simp: Let_def wires_def same_ask_def)
  qed (use assms(2) kj in \<open>auto simp: Let_def wires_def split: option.split\<close>)
qed

lemma node_accepted_on:
  assumes "clients_inv X config s"
  shows "accepted_on X config (fleet_step R X config (Node k E ev) s) kj uid e = accepted_on X config s kj uid e"
proof -
  let ?s = "fleet_step R X config (Node k E ev) s"
  have reply: "fl_reply ?s = fl_reply s" by (simp add: Let_def)
  have wire: "fl_wire ?s kj = fl_wire s kj" if "fl_reply s kj = Some rep" for rep
    using clients_invD(5) [OF assms that] node_wire_kept [OF assms] by fastforce
  show ?thesis
  proof (cases "fl_reply s kj = Some (Some 1)")
    case True
    show ?thesis unfolding accepted_on_def carries_def reply wire [OF True] ..
  qed (simp add: accepted_on_def reply del: fleet_step.simps)
qed

lemma node_asked_kept:
  assumes "fleet_ok X config S s (Node k E ev)" "fl_asked s key = Some ask"
  shows "fl_asked (fleet_step R X config (Node k E ev) s) key = Some ask"
  using assms by (cases ev) (auto simp: Let_def)

lemma node_asked_for:
  assumes inv: "clients_inv X config s" and ok: "fleet_ok X config S s (Node k E ev)"
    and job: "ct_jobs (cluster_step X E ev (fl_client s k)) j = Some job" "\<not> jb_health job"
  shows "asked_for X config (fleet_step R X config (Node k E ev) s) k job"
proof -
  have "job_from X E ev (fl_client s k) j job"
    using cluster_step_jobs [of X E ev "fl_client s k"] job(1) unfolding jobs_from_def by blast
  then consider (old) job0 where "ct_jobs (fl_client s k) j = Some job0" "same_ask job0 job"
    | (new) "new_job X E config ev job"
    by (auto simp: job_from_def clients_invD(6) [OF inv])
  then show ?thesis
  proof cases
    case old
    with job(2) have "asked_for X config s k job0" by (intro clients_invD(4) [OF inv]) (auto simp: same_ask_def)
    then obtain token expires now g where ask: "jb_output job0 = job_output X config token expires False now"
      "jb_grant job0 = Some g" "\<And>req. jb_request job0 = Some req \<Longrightarrow> fl_asked s (k, req) = Some (token, expires, g)"
      by (auto simp: asked_for_def)
    then have "fl_asked (fleet_step R X config (Node k E ev) s) (k, req) = Some (token, expires, g)"
      if "jb_request job = Some req" for req
      using that old(2) by (intro node_asked_kept [OF ok] ask(3)) (auto simp: same_ask_def)
    with ask(1,2) old(2) show ?thesis unfolding asked_for_def same_ask_def by metis
  next
    case new
    with job(2) show ?thesis by (cases ev) (auto simp: asked_for_def Let_def)
  qed
qed

lemma fleet_ok_fresh: "fleet_ok X config S s (Node k E ev) \<Longrightarrow> fresh_event ev (fl_client s k)"
  by (cases ev) auto

lemma node_heard:
  fixes R :: "'r redis_api" and E k ev
  assumes inv: "clients_inv X config s"
  defines "s' \<equiv> fleet_step R X config (Node k E ev) s"
  shows "ct_jobs (fl_client s' i) j = Some job \<Longrightarrow> has_heard config (fl_got s' i j) job"
    and "ct_next (fl_client s' i) \<le> j \<Longrightarrow> fl_got s' i j = []"
proof -
  let ?c = "cluster_step X E ev (fl_client s k)"
  have s': "fl_client s' = (fl_client s)(k := ?c)" "fl_got s' = (fl_got s)(k := hears (fl_client s k) ev (fl_got s k))"
    by (simp_all add: s'_def Let_def)
  have new: "fl_got s k (ct_next (fl_client s k)) = []" by (rule clients_invD(11) [OF inv]) simp
  note heard = heard_step [of "fl_client s k" "fl_got s k" X E ev j job, unfolded clients_invD(6) [OF inv],
      OF clients_invD(10) [OF inv] new]
  show "has_heard config (fl_got s' i j) job" if "ct_jobs (fl_client s' i) j = Some job"
    using that heard clients_invD(10) [OF inv] by (cases "i = k") (simp_all add: s')
  have grows: "ct_next (fl_client s k) \<le> ct_next ?c" using cluster_step_jobs unfolding jobs_from_def by blast
  show "fl_got s' i j = []" if "ct_next (fl_client s' i) \<le> j"
  proof (cases "i = k")
    case True
    with that grows have le: "ct_next (fl_client s k) \<le> j" by (simp add: s')
    then have "ct_jobs (fl_client s k) j = None"
      using clients_invD(8) [OF inv, of k j] by (cases "ct_jobs (fl_client s k) j"; simp add: leD)
    with hears_live [of "fl_client s k" ev "fl_got s k" j] clients_invD(11) [OF inv le] show ?thesis
      by (auto simp: s' True)
  qed (use that clients_invD(11) [OF inv] in \<open>simp add: s'\<close>)
qed

lemma node_clients_inv:
  assumes inv: "clients_inv X config s" and ok: "fleet_ok X config S s (Node k E ev)"
  shows "clients_inv X config (fleet_step R X config (Node k E ev) s)"
proof -
  let ?s = "fleet_step R X config (Node k E ev) s" and ?c = "cluster_step X E ev (fl_client s k)"
  have client: "fl_client ?s = (fl_client s)(k := ?c)" by (simp add: Let_def)
  have reach: "cluster_reach X config ?c" by (rule reach_step [OF clients_invD(1) [OF inv] fleet_ok_fresh [OF ok]])
  then have live: "ct_jobs ?c j = Some job \<Longrightarrow> j < ct_next ?c" for j job
    using reach_inv [OF reach] unfolding queue_inv_def by blast
  have grows: "ct_next (fl_client s k) \<le> ct_next ?c" using cluster_step_jobs unfolding jobs_from_def by blast
  have wire: "fl_wire ?s (i, j) = (if i = k then (case ct_jobs ?c j of Some job \<Rightarrow> Some (jb_output job) | None \<Rightarrow> fl_wire s (k, j))
      else fl_wire s (i, j))" for i j by (simp add: Let_def wires_def)
  have other: "asked_for X config ?s i job" if "ct_jobs (fl_client s i) j = Some job" "\<not> jb_health job" for i j job
    using clients_invD(4) [OF inv that] node_asked_kept [OF ok] unfolding asked_for_def by metis
  show ?thesis unfolding clients_inv_def
  proof (intro conjI allI impI)
    show "cluster_reach X config (fl_client ?s i)" for i using reach clients_invD(1) [OF inv] by (simp add: Let_def)
    show "fl_wire ?s (i, j) = Some (jb_output job)" if "ct_jobs (fl_client ?s i) j = Some job" for i j job
      using that clients_invD(2) [OF inv] by (auto simp: client wire simp del: fleet_step.simps split: if_splits)
    show "j < ct_next (fl_client ?s i)" if "fl_wire ?s (i, j) \<noteq> None" for i j
    proof (cases "i = k")
      case True
      with that live clients_invD(3) [OF inv, of k j] grows show ?thesis
        by (auto simp: client wire simp del: fleet_step.simps split: option.splits)
    qed (use that clients_invD(3) [OF inv] in \<open>auto simp: client wire simp del: fleet_step.simps\<close>)
    show "asked_for X config ?s i job" if "ct_jobs (fl_client ?s i) j = Some job \<and> \<not> jb_health job" for i j job
      using that other node_asked_for [OF inv ok] by (cases "i = k") (auto simp: client simp del: fleet_step.simps)
    show "fl_wire ?s kj \<noteq> None" if "fl_reply ?s kj \<noteq> None" for kj
    proof -
      from that obtain rep where "fl_reply s kj = Some rep" by (auto simp: Let_def)
      from clients_invD(5) [OF inv this] node_wire_kept [OF inv] show ?thesis by fastforce
    qed
    show "has_heard config (fl_got ?s i j) job" if "ct_jobs (fl_client ?s i) j = Some job" for i j job
      by (rule node_heard(1) [OF inv that])
    show "fl_got ?s i j = []" if "ct_next (fl_client ?s i) \<le> j" for i j by (rule node_heard(2) [OF inv that])
  qed
qed

lemma grants_accepted_on:
  assumes inv: "clients_inv X config s" and ok: "fleet_ok X config S s ev" and grant: "(k, req, g) \<in> grants_now X ev s"
  obtains j token expires where "fl_asked s (k, req) = Some (token, expires, g)"
    "accepted_on X config s (k, j) (redemption_id X token) expires" "ct_jobs (fl_client s k) j \<noteq> None"
    "ct_jobs (fl_client (fleet_step R X config ev s) k) j = None"
proof -
  from grant obtain E cev where ev: "ev = Node k E cev" by (cases "(X, ev, s)" rule: grants_now.cases) auto
  have q: "queue_inv config [] (fl_client s k)" using reach_inv [OF clients_invD(1) [OF inv]] by blast
  from accepted_on_reply [OF q, of req g X E cev] grant ev
  obtain j rearm recvs job f where job: "cev = Reads j rearm recvs" "ct_jobs (fl_client s k) j = Some job"
    "jb_request job = Some req" "jb_grant job = Some g" "read_result recvs job = Some (Accepted, f)" by auto
  then have nh: "\<not> jb_health job" using clients_invD(9) [OF inv job(2)] by auto
  from clients_invD(4) [OF inv job(2) nh] job(3,4) obtain token expires now
    where ask: "jb_output job = job_output X config token expires False now" "fl_asked s (k, req) = Some (token, expires, g)"
    by (auto simp: asked_for_def)
  have "fl_reply s (k, j) = Some (Some 1)"
    by (rule read_result_accepted [OF job(5) clients_invD(10) [OF inv job(2)]]) (use ok ev job nh in auto)
  then have "accepted_on X config s (k, j) (redemption_id X token) expires"
    using clients_invD(2) [OF inv job(2)] ask(1) unfolding accepted_on_def carries_def by auto
  moreover have "ct_jobs (fl_client (fleet_step R X config ev s) k) j = None"
    using read_frees [OF job(2,5)] by (simp add: ev job(1) Let_def)
  ultimately show thesis using that ask(2) job(2) by simp
qed

lemma node_gone_kept:
  assumes inv: "clients_inv X config s" and gone: "fl_wire s (i, j) = Some out" "ct_jobs (fl_client s i) j = None"
  shows "ct_jobs (fl_client (fleet_step R X config ev s) i) j = None"
proof (cases ev)
  case (Node k E cev)
  show ?thesis
  proof (cases "i = k \<and> ct_jobs (cluster_step X E cev (fl_client s k)) j \<noteq> None")
    case True
    then obtain job where "job_from X E cev (fl_client s k) j job"
      using cluster_step_jobs [of X E cev "fl_client s k"] unfolding jobs_from_def by blast
    with gone True clients_invD(3) [OF inv, of i j] show ?thesis by (auto simp: job_from_def)
  qed (use gone(2) Node in \<open>auto simp: Let_def\<close>)
qed (use gone(2) in simp_all)

subsection \<open>The server\<close>

lemma serve_accepts:
  assumes "fleet_ok X config S s (Serve k j token expires now)"
  shows "accepted_on X config (fleet_step R X config (Serve k j token expires now) s) kj uid e \<longleftrightarrow>
    accepted_on X config s kj uid e \<or>
    kj = (k, j) \<and> redis_accepts R X (rc_namespace config) (rc_epoch config) (rc_skew config) (Redeem token expires now) (fl_server s) uid e"
proof -
  obtain r peak where server: "fl_server s = (r, peak)" by fastforce
  have wire: "fl_wire s (k, j) = Some (job_output X config token expires False now)" using assms by simp
  have "carries X config s (k, j) uid e \<longleftrightarrow> redemption_id X token = uid \<and> expires = e"
    unfolding carries_def wire option.inject by (blast dest: job_output_inject)
  then show ?thesis using assms by (auto simp: accepted_on_def carries_def server)
qed

lemma server_clients_inv:
  assumes "clients_inv X config s" "fl_client s' = fl_client s" "fl_asked s' = fl_asked s" "fl_wire s' = fl_wire s"
    "fl_got s' = fl_got s" and "\<And>kj. fl_reply s' kj \<noteq> None \<Longrightarrow> fl_wire s kj \<noteq> None"
  shows "clients_inv X config s'"
proof -
  have asked: "asked_for X config s' = asked_for X config s" by (intro ext) (simp add: asked_for_def assms(3))
  show ?thesis using assms(1,6) unfolding clients_inv_def assms(2,4,5) asked by blast
qed

lemma clock_accepts: "accepted_on X config (fleet_step R X config (Clock t) s) = accepted_on X config s"
  by (intro ext) (simp add: accepted_on_def carries_def)

lemma fleet_accepted_kept:
  assumes "clients_inv X config s" "fleet_ok X config S s ev" "accepted_on X config s kj uid e"
  shows "accepted_on X config (fleet_step R X config ev s) kj uid e"
proof (cases ev)
  case (Node k E cev)
  with assms(3) show ?thesis by (simp add: node_accepted_on [OF assms(1)] del: fleet_step.simps)
next
  case (Serve k j token expires now)
  with assms(2) serve_accepts [of X config S s k j token expires now R kj uid e] assms(3) show ?thesis by blast
qed (use assms(3) in \<open>simp add: clock_accepts del: fleet_step.simps\<close>)

lemma fleet_inv_step:
  assumes inv: "fleet_inv R X config S s" and ok: "fleet_ok X config S s ev"
  shows "fleet_inv R X config S (fleet_step R X config ev s)"
proof -
  from inv have clients: "clients_inv X config s" and server: "redis_inv R (rc_namespace config) (rc_skew config) S (fl_server s)"
    and spent: "\<And>kj uid e. accepted_on X config s kj uid e \<Longrightarrow> spent_at R config S (fl_server s) uid e"
    and once: "\<And>kj kj' uid e. accepted_on X config s kj uid e \<Longrightarrow> accepted_on X config s kj' uid e \<Longrightarrow> kj = kj'"
    unfolding fleet_inv_def by blast+
  show ?thesis
  proof (cases ev)
    case (Node k E cev)
    have "fl_server (fleet_step R X config ev s) = fl_server s" by (simp add: Node Let_def)
    moreover have "clients_inv X config (fleet_step R X config ev s)" using node_clients_inv [OF clients] ok Node by blast
    moreover have "accepted_on X config (fleet_step R X config ev s) = accepted_on X config s"
      unfolding Node by (intro ext) (rule node_accepted_on [OF clients])
    ultimately show ?thesis using inv unfolding fleet_inv_def by simp
  next
    case (Serve k j token expires now)
    let ?ev = "Redeem token expires now"
    have step: "fl_server (fleet_step R X config ev s) = ledger_step R X config ?ev (fl_server s)" by (simp add: Serve)
    have admit: "clock_ok S (fl_server s) ?ev" by (cases "fl_server s") simp
    note acc = serve_accepts [OF ok [unfolded Serve], of R, folded Serve]
    have fresh: "fl_reply s (k, j) = None" using ok Serve by simp
    have "clients_inv X config (fleet_step R X config ev s)"
      by (rule server_clients_inv [OF clients]) (use ok clients_invD(5) [OF clients] in \<open>auto simp: Serve split: if_splits\<close>)
    moreover have "redis_inv R (rc_namespace config) (rc_skew config) S (fl_server (fleet_step R X config ev s))"
      unfolding step by (rule redis.inv_step [OF server admit])
    moreover have "spent_at R config S (fl_server (fleet_step R X config ev s)) uid e"
      if "accepted_on X config (fleet_step R X config ev s) kj uid e" for kj uid e
      using that unfolding acc step
      by (auto intro: redis.accept_settles [OF server admit] redis.settled_step [OF server admit] dest: spent)
    moreover have "kj = kj'" if "accepted_on X config (fleet_step R X config ev s) kj uid e"
      "accepted_on X config (fleet_step R X config ev s) kj' uid e" for kj kj' uid e
      using that unfolding acc by (auto dest: once spent redis.settled_blocks [OF server admit])
    ultimately show ?thesis unfolding fleet_inv_def by blast
  next
    case (Clock t)
    have admit: "clock_ok S (fl_server s) (ClockMoves t)" using ok Clock by simp
    have "clients_inv X config (fleet_step R X config ev s)"
      by (rule server_clients_inv [OF clients]) (use clients_invD(5) [OF clients] in \<open>auto simp: Clock\<close>)
    moreover have "fl_server (fleet_step R X config ev s) = ledger_step R X config (ClockMoves t) (fl_server s)" by (simp add: Clock)
    ultimately show ?thesis
      using redis.inv_step [OF server admit] redis.settled_step [OF server admit] spent once
      unfolding fleet_inv_def Clock clock_accepts by auto
  qed
qed

interpretation fleet: one_use_ledger "fleet_step R X config" "delivers X" "fleet_ok X config S" "fleet_inv R X config S"
  "fleet_settled X config" for R :: "'r redis_api" and X config S
proof
  fix s :: "'r fleet" and ev uid e
  assume inv: "fleet_inv R X config S s" and ok: "fleet_ok X config S s ev"
  then have clients: "clients_inv X config s" by (simp add: fleet_inv_def)
  show "fleet_inv R X config S (fleet_step R X config ev s)" by (rule fleet_inv_step [OF inv ok])
  show "fleet_settled X config (fleet_step R X config ev s) uid e" if "delivers X ev s uid e"
    using that unfolding delivers_def fleet_settled_def
    by (fastforce elim: grants_accepted_on [OF clients ok] intro: fleet_accepted_kept [OF clients ok])
  show "\<not> delivers X ev s uid e" if settled: "fleet_settled X config s uid e"
  proof
    assume "delivers X ev s uid e"
    then obtain k req g token where d: "(k, req, g) \<in> grants_now X ev s" "fl_asked s (k, req) = Some (token, e, g)"
      "redemption_id X token = uid" unfolding delivers_def by blast
    obtain j where j: "accepted_on X config s (k, j) uid e" "ct_jobs (fl_client s k) j \<noteq> None"
      by (rule grants_accepted_on [OF clients ok d(1)]) (use d in auto)
    from settled obtain k' j' where "accepted_on X config s (k', j') uid e" "ct_jobs (fl_client s k') j' = None"
      unfolding fleet_settled_def by blast
    moreover from this j inv have "(k', j') = (k, j)" unfolding fleet_inv_def by blast
    ultimately show False using j by simp
  qed
  show "fleet_settled X config (fleet_step R X config ev s) uid e" if settled: "fleet_settled X config s uid e"
  proof -
    from settled obtain k j where kj: "accepted_on X config s (k, j) uid e" "ct_jobs (fl_client s k) j = None"
      unfolding fleet_settled_def by blast
    then obtain out where "fl_wire s (k, j) = Some out" unfolding accepted_on_def carries_def by blast
    from node_gone_kept [OF clients this kj(2)] fleet_accepted_kept [OF clients ok kj(1)] show ?thesis
      unfolding fleet_settled_def by blast
  qed
qed

subsection \<open>Properties\<close>

lemma fleet_start_inv:
  "redis_inv R (rc_namespace config) (rc_skew config) S server \<Longrightarrow> fleet_inv R X config S (fleet_start config server)"
  by (simp add: fleet_inv_def clients_inv_def fleet_start_def accepted_on_def cluster_reach.reach_start cluster_activate_def
      reach_start [unfolded cluster_activate_def])

text \<open>
  One token, one acceptance. Any number of nodes start with the same
  configuration on a Redis server whose clock keeps within \<open>S\<close> seconds of its highest reading,
  \<open>2 S\<close> being at most the configured skew plus one; what arrives on a connection is some part of
  the bytes the server sends there. Whatever the nodes do and however replies are delayed, cut or
  lost, an acceptance is handed only to a request that asked for the token it
  was given for, and for each token with its expiry at most once in the whole cluster.
\<close>

theorem fleet_delivers_once:
  assumes "redis_inv R (rc_namespace config) (rc_skew config) S server"
    and "admitted (fleet_step R X config) (fleet_ok X config S) evs (fleet_start config server)"
  shows "acceptances (fleet_step R X config) (delivers X) evs (fleet_start config server) uid expires \<le> 1 \<and>
    (\<forall>(ev, s)\<in>set (trace (fleet_step R X config) evs (fleet_start config server)).
       \<forall>(k, req, g)\<in>grants_now X ev s.
         \<exists>token e. fl_asked s (k, req) = Some (token, e, g) \<and> delivers X ev s (redemption_id X token) e)"
proof (intro conjI ballI, goal_cases)
  note start = fleet_start_inv [OF assms(1), of X]
  case 1
  show ?case by (rule fleet.at_most_once [OF start assms(2)])
  case (2 p)
  obtain ev s where p: "p = (ev, s)" by fastforce
  note es = p 2 [unfolded p]
  have "fleet_inv R X config S s" "fleet_ok X config S s ev" using fleet.trace_inv [OF start assms(2) es(2)] by simp_all
  then have clients: "clients_inv X config s" and ok: "fleet_ok X config S s ev" by (simp_all add: fleet_inv_def)
  have "\<exists>token e. fl_asked s (k, req) = Some (token, e, g) \<and> delivers X ev s (redemption_id X token) e"
    if "(k, req, g) \<in> grants_now X ev s" for k req g
    using that by (rule grants_accepted_on [OF clients ok]) (use that in \<open>auto simp: delivers_def\<close>)
  then show ?case unfolding es(1) by blast
qed

subsection \<open>A run of the fleet\<close>

text \<open>
  The run of \<open>Cluster\<close> on one of the nodes, now with the server that runs its transaction: the
  health check succeeds, a redemption is sent, the server accepts it and the node reads the reply.
\<close>

definition small_server :: "server ledger_state" where
  "small_server =
     (\<lparr>sv_store = [''powgate:{n}:epoch'' \<mapsto> (replicate 64 (CHR ''0''), None), ''powgate:{n}:clock'' \<mapsto> (int_str 100, None)],
       sv_clock = 100000\<rparr>, 100)"

definition small_events :: "string \<Rightarrow> redeem_grant \<Rightarrow> fleet_event list" where
  "small_events t g =
     [Node 0 calm (Polls False), Node 0 calm (Reads 0 True accept_reply),
      Node 0 calm (Redeems 7 t 160 g), Serve 0 1 t 160 100, Node 0 calm (Reads 1 True accept_reply)]"

lemma small_server_inv: "redis_inv server_api (rc_namespace small_config) (rc_skew small_config) 3 small_server"
  using server_laws
  by (simp add: redis_inv_def small_server_def small_config_def redis_time_def server_api_def clock_key_def high_water_def)

lemma small_reply:
  "fst (redis_run server_api sample (rc_namespace small_config) (rc_epoch small_config) (rc_skew small_config)
     t 160 100 (fst small_server)) = Some 1"
  by (simp add: redis_run_def CONSUME_def redis_keys_eq server_api_def small_server_def small_config_def redis_time_def
      spent_key_def clock_key_def high_water_def Let_def)

definition small_fleet :: "string \<Rightarrow> redeem_grant \<Rightarrow> nat \<Rightarrow> server fleet" where
  "small_fleet t g n = fold (fleet_step server_api sample small_config) (take n (small_events t g)) (fleet_start small_config small_server)"

lemma small_fleet_step:
  "small_fleet t g 0 = fleet_start small_config small_server"
  "small_fleet t g 1 = fleet_step server_api sample small_config (Node 0 calm (Polls False)) (small_fleet t g 0)"
  "small_fleet t g 2 = fleet_step server_api sample small_config (Node 0 calm (Reads 0 True accept_reply)) (small_fleet t g 1)"
  "small_fleet t g 3 = fleet_step server_api sample small_config (Node 0 calm (Redeems 7 t 160 g)) (small_fleet t g 2)"
  "small_fleet t g 4 = fleet_step server_api sample small_config (Serve 0 1 t 160 100) (small_fleet t g 3)"
  by (simp_all add: small_fleet_def small_events_def numeral_eq_Suc del: fleet_step.simps)

lemma small_fleet_client:
  "fl_client (small_fleet t g 0) 0 = cluster_activate small_config" "fl_client (small_fleet t g 1) 0 = run1"
  "fl_client (small_fleet t g 2) 0 = run2" "fl_client (small_fleet t g 3) 0 = run3 t g" "fl_client (small_fleet t g 4) 0 = run3 t g"
  by (simp_all add: small_fleet_step fleet_start_def Let_def run1_def run2_def run3_def del: cluster_step.simps One_nat_def)

lemma small_fleet_parts:
  "fl_server (small_fleet t g 3) = small_server" "fl_reply (small_fleet t g 3) = (\<lambda>_. None)"
  "fl_asked (small_fleet t g 2) = (\<lambda>_. None)" "fl_asked (small_fleet t g 4) (0, 7) = Some (t, 160, g)"
  "fl_got (small_fleet t g 4) 0 1 = []"
  by (simp_all add: small_fleet_step fleet_start_def Let_def del: cluster_step.simps One_nat_def)

lemma small_fleet_wire:
  "fl_wire (small_fleet t g 3) (0, 1) = Some (job_output sample small_config t 160 False 100)"
  "fl_reply (small_fleet t g 4) (0, 1) = Some (Some 1)"
proof -
  have "fl_wire (small_fleet t g 3) = wires 0 (run3 t g) (fl_wire (small_fleet t g 2))"
    by (simp add: small_fleet_step(4) small_fleet_client Let_def run3_def del: cluster_step.simps)
  then show "fl_wire (small_fleet t g 3) (0, 1) = Some (job_output sample small_config t 160 False 100)"
    by (simp add: wires_def run3_eq)
  show "fl_reply (small_fleet t g 4) (0, 1) = Some (Some 1)"
    by (simp add: small_fleet_step(5) small_fleet_parts small_reply)
qed

lemma small_fleet_delivers: "delivers sample (Node 0 calm (Reads 1 True accept_reply)) (small_fleet t g 4) (redemption_id sample t) 160"
  unfolding delivers_def
  by (intro exI [of _ 0] exI [of _ 7] exI [of _ g] exI [of _ t])
    (use run_accepts in \<open>simp add: small_fleet_client small_fleet_parts del: cluster_step.simps\<close>)

lemma accept_reply_sent: "may_send small_config (Some (Some 1)) (received accept_reply)"
proof -
  have "int_str 1 = ''1''" by code_simp
  then show ?thesis
    by (simp add: may_send_def authenticates_def small_config_def eval_line_def accept_reply_def starts_with_def
        in_i64_def i64_min_def i64_max_def)
qed

lemma small_fleet_ok:
  "fleet_ok sample small_config 3 (small_fleet t g 0) (Node 0 calm (Polls False))"
  "fleet_ok sample small_config 3 (small_fleet t g 1) (Node 0 calm (Reads 0 True accept_reply))"
  "fleet_ok sample small_config 3 (small_fleet t g 2) (Node 0 calm (Redeems 7 t 160 g))"
  "fleet_ok sample small_config 3 (small_fleet t g 3) (Serve 0 1 t 160 100)"
  "fleet_ok sample small_config 3 (small_fleet t g 4) (Node 0 calm (Reads 1 True accept_reply))"
proof -
  show "fleet_ok sample small_config 3 (small_fleet t g 0) (Node 0 calm (Polls False))" by simp
  show "fleet_ok sample small_config 3 (small_fleet t g 1) (Node 0 calm (Reads 0 True accept_reply))"
    by (simp add: small_fleet_client run1_eq del: One_nat_def)
  show "fleet_ok sample small_config 3 (small_fleet t g 2) (Node 0 calm (Redeems 7 t 160 g))"
    by (simp add: small_fleet_client small_fleet_parts run2_eq cluster_activate_def waiting_def answered_def)
  show "fleet_ok sample small_config 3 (small_fleet t g 3) (Serve 0 1 t 160 100)"
    using small_fleet_wire(1) by (simp add: small_fleet_parts)
  show "fleet_ok sample small_config 3 (small_fleet t g 4) (Node 0 calm (Reads 1 True accept_reply))"
    using small_fleet_wire(2) accept_reply_sent by (simp add: small_fleet_parts del: One_nat_def)
qed

lemma small_fleet_admitted:
  "admitted (fleet_step server_api sample small_config) (fleet_ok sample small_config 3) (small_events t g) (small_fleet t g 0)"
  using small_fleet_ok unfolding small_events_def
  by (simp add: small_fleet_step(2-5) [symmetric] admitted_def del: fleet_step.simps fleet_ok.simps One_nat_def)

theorem fleet_delivers_once_witness:
  "acceptances (fleet_step server_api sample small_config) (delivers sample) (small_events ''t'' one_grant)
     (fleet_start small_config small_server) (redemption_id sample ''t'') 160 = 1"
proof (rule antisym)
  note start = small_fleet_step(1) [where t = "''t''" and g = one_grant]
  show "acceptances (fleet_step server_api sample small_config) (delivers sample) (small_events ''t'' one_grant)
     (fleet_start small_config small_server) (redemption_id sample ''t'') 160 \<le> 1"
    using fleet_delivers_once [OF small_server_inv small_fleet_admitted [unfolded small_fleet_step(1)]] by blast
  show "1 \<le> acceptances (fleet_step server_api sample small_config) (delivers sample) (small_events ''t'' one_grant)
     (fleet_start small_config small_server) (redemption_id sample ''t'') 160"
    using small_fleet_delivers [where t = "''t''" and g = one_grant] unfolding small_events_def start [symmetric]
    by (simp add: small_fleet_step(2-5) [symmetric] del: fleet_step.simps One_nat_def)
qed


end
