(* ===== verification/Cluster_Site.thy ===== *)
theory Cluster_Site
  imports Site Fleet
begin

text \<open>
  A site in cluster mode: the workers of all machines with their handlers (\<open>Site\<close>), the
  redemption clients inside them with the Redis server (\<open>Fleet\<close>), and the requests whose
  answer is left to a reply. A handler that earns a clearance asks the client of its worker for
  the redemption and leaves the request parked; a later event on a connection brings the answer
  and \<open>finish\<close> turns it into the response. A worker that is started again begins with nothing: it
  is one of the workers that have done nothing so far.
\<close>

record 'r cluster_site =
  cs_worker :: "nat \<Rightarrow> worker"
  cs_fleet :: "'r fleet"
  cs_parked :: "nat \<times> nat \<Rightarrow> request option"

text \<open>
  A handler runs in a worker; the event says which redemption it asks for, if any. An event of
  the client reaches a worker: a poll, a connection, a deadline, a request that goes away. The
  server runs a transaction, or its clock moves.
\<close>

datatype cluster_site_event =
    Handles nat worker_event "(string \<times> i64 \<times> redeem_grant) option"
  | Network nat nginx cluster_env cluster_event
  | Serves nat nat string i64 i64
  | Ticks int

text \<open>The calls of \<open>finish\<close> an event made, and what they do to the parked requests of the worker.\<close>

definition new_calls :: "cluster option \<Rightarrow> cluster option \<Rightarrow> (nat \<times> outcome \<times> redeem_grant) list" where
  "new_calls c c' =
     (case (c, c') of
        (Some c, Some c') \<Rightarrow> drop (length (ct_finished c)) (ct_finished c')
      | _ \<Rightarrow> [])"

definition answer ::
  "nginx \<Rightarrow> nat \<Rightarrow> (nat \<times> outcome \<times> redeem_grant) list \<Rightarrow> (nat \<times> nat \<Rightarrow> request option) \<Rightarrow> nat \<times> nat \<Rightarrow> request option" where
  "answer N k calls m = (\<lambda>(i, req). if i = k then map_option (deliver N req calls) (m (i, req)) else m (i, req))"

text \<open>The request a handler runs for, before and after.\<close>

definition own_request :: "externals \<Rightarrow> nat \<Rightarrow> worker_event \<Rightarrow> worker \<Rightarrow> (gate_env \<times> (nat \<times> nat) \<times> request \<times> request) option" where
  "own_request X k ev w =
     (case (event_env ev, snd (handled X ev w)) of
        (Some E, Some (r, r')) \<Rightarrow> Some (E, (k, ge_request E), r, r')
      | _ \<Rightarrow> None)"

text \<open>The fleet's view of an event.\<close>

fun fleet_event_of :: "cluster_site_event \<Rightarrow> fleet_event option" where
  "fleet_event_of (Handles k ev ask) =
     (case (event_env ev, ask) of
        (Some E, Some (token, expires, g)) \<Rightarrow> Some (Node k (ge_cluster E) (Redeems (ge_request E) token expires g))
      | _ \<Rightarrow> None)"
| "fleet_event_of (Network k N E ev) = Some (Node k E ev)"
| "fleet_event_of (Serves k j token expires now) = Some (Serve k j token expires now)"
| "fleet_event_of (Ticks t) = Some (Clock t)"

fun worker_after :: "externals \<Rightarrow> cluster_site_event \<Rightarrow> (nat \<Rightarrow> worker) \<Rightarrow> nat \<Rightarrow> worker" where
  "worker_after X (Handles k ev ask) ws = ws(k := fst (handled X ev (ws k)))"
| "worker_after X (Network k N E ev) ws = ws(k := (ws k)\<lparr>wk_cluster := map_option (cluster_step X E ev) (wk_cluster (ws k))\<rparr>)"
| "worker_after X _ ws = ws"

text \<open>Which requests there are when the calls of \<open>finish\<close> are made, and after them.\<close>

fun parked_before :: "externals \<Rightarrow> cluster_site_event \<Rightarrow> 'r cluster_site \<Rightarrow> nat \<times> nat \<Rightarrow> request option" where
  "parked_before X (Handles k ev ask) s =
     (case own_request X k ev (cs_worker s k) of None \<Rightarrow> cs_parked s | Some (E, own, r, r') \<Rightarrow> (cs_parked s)(own \<mapsto> r))"
| "parked_before X _ s = cs_parked s"

fun parked_after :: "externals \<Rightarrow> cluster_site_event \<Rightarrow> 'r cluster_site \<Rightarrow> nat \<times> nat \<Rightarrow> request option" where
  "parked_after X (Handles k ev ask) s =
     (case own_request X k ev (cs_worker s k) of
        None \<Rightarrow> cs_parked s
      | Some (E, own, r, r') \<Rightarrow>
          (answer (ge_nginx E) k (new_calls (wk_cluster (cs_worker s k)) (wk_cluster (fst (handled X ev (cs_worker s k)))))
             (cs_parked s))(own \<mapsto> r'))"
| "parked_after X (Network k N E ev) s =
     answer N k (new_calls (wk_cluster (cs_worker s k)) (map_option (cluster_step X E ev) (wk_cluster (cs_worker s k)))) (cs_parked s)"
| "parked_after X _ s = cs_parked s"

definition cluster_site_step ::
  "'r redis_api \<Rightarrow> externals \<Rightarrow> cluster_config \<Rightarrow> cluster_site_event \<Rightarrow> 'r cluster_site \<Rightarrow> 'r cluster_site" where
  "cluster_site_step R X config ev s =
     \<lparr>cs_worker = worker_after X ev (cs_worker s),
      cs_fleet = (case fleet_event_of ev of None \<Rightarrow> cs_fleet s | Some fev \<Rightarrow> fleet_step R X config fev (cs_fleet s)),
      cs_parked = parked_after X ev s\<rparr>"

text \<open>The cookies that leave the site for a request during an event.\<close>

definition sent :: "externals \<Rightarrow> cluster_site_event \<Rightarrow> 'r cluster_site \<Rightarrow> nat \<times> nat \<Rightarrow> string list" where
  "sent X ev s kr =
     (case (parked_before X ev s kr, parked_after X ev s kr) of
        (Some r, Some r') \<Rightarrow> new_cookies r r'
      | _ \<Rightarrow> [])"

text \<open>
  The redemption a handler asks for: none, and then it leaves the client alone; or what it has
  earned, and then the client's own \<open>redeem\<close> is called for it. Exactly one of these descriptions fits
  a handler (\<open>handler_asks\<close> below).
\<close>

definition asks_for :: "externals \<Rightarrow> worker_event \<Rightarrow> worker \<Rightarrow> (string \<times> i64 \<times> redeem_grant) option \<Rightarrow> bool" where
  "asks_for X ev w ask \<longleftrightarrow>
     (case ask of
        None \<Rightarrow> wk_cluster (fst (handled X ev w)) = wk_cluster w
      | Some (token, expires, g) \<Rightarrow>
          (case event_env ev of
             None \<Rightarrow> False
           | Some E \<Rightarrow>
               earned X ev w token expires g \<and>
               wk_cluster (fst (handled X ev w)) =
                 map_option (cluster_redeem X (ge_cluster E) (ge_request E) token expires g) (wk_cluster w)))"

text \<open>
  Which events can happen: a request asks once, only a handler asks, and the network and the
  server's clock are those of the fleet.
\<close>

fun cluster_site_ok :: "externals \<Rightarrow> cluster_config \<Rightarrow> int \<Rightarrow> 'r cluster_site \<Rightarrow> cluster_site_event \<Rightarrow> bool" where
  "cluster_site_ok X config S s (Handles k ev ask) \<longleftrightarrow>
     (\<forall>main. ev \<noteq> Respawns main) \<and> asks_for X ev (cs_worker s k) ask \<and>
     (\<forall>fev. fleet_event_of (Handles k ev ask) = Some fev \<longrightarrow> fleet_ok X config S (cs_fleet s) fev)"
| "cluster_site_ok X config S s (Network k N E ev) \<longleftrightarrow>
     (\<forall>req token expires g. ev \<noteq> Redeems req token expires g) \<and> fleet_ok X config S (cs_fleet s) (Node k E ev)"
| "cluster_site_ok X config S s (Serves k j token expires now) \<longleftrightarrow> fleet_ok X config S (cs_fleet s) (Serve k j token expires now)"
| "cluster_site_ok X config S s (Ticks t) \<longleftrightarrow> fleet_ok X config S (cs_fleet s) (Clock t)"

definition gives :: "externals \<Rightarrow> cluster_site_event \<Rightarrow> 'r cluster_site \<Rightarrow> bytes \<Rightarrow> i64 \<Rightarrow> bool" where
  "gives X ev s uid expires \<longleftrightarrow>
     (\<exists>kr token g. fl_asked (cs_fleet s) kr = Some (token, expires, g) \<and> redemption_id X token = uid \<and>
        rg_cookie g \<in> set (sent X ev s kr))"

definition cluster_site_start :: "main_conf \<Rightarrow> cluster_config \<Rightarrow> 'r ledger_state \<Rightarrow> 'r cluster_site" where
  "cluster_site_start main config server =
     \<lparr>cs_worker = (\<lambda>_. snd (init_process (Some (main\<lparr>mc_cluster := Some config\<rparr>)) new_worker)),
      cs_fleet = fleet_start config server, cs_parked = (\<lambda>_. None)\<rparr>"

subsection \<open>The clients of the workers are those of the fleet\<close>

definition in_step :: "'r cluster_site \<Rightarrow> bool" where
  "in_step s \<longleftrightarrow> (\<forall>k. wk_cluster (cs_worker s k) = Some (fl_client (cs_fleet s) k) \<and> worker_ok (cs_worker s k))"

lemma in_stepD: "in_step s \<Longrightarrow> wk_cluster (cs_worker s k) = Some (fl_client (cs_fleet s) k)" "in_step s \<Longrightarrow> worker_ok (cs_worker s k)"
  by (simp_all add: in_step_def)

lemma redeem_in_cluster:
  assumes "(w', r') = snd (redeem X E token expires g w1 r1)" "wk_cluster w1 = Some c"
  shows "wk_cluster w' = Some (cluster_redeem X (ge_cluster E) (ge_request E) token expires g c)"
    and "worker_ok w1 \<longrightarrow> worker_ok w'"
  using assms by (simp_all add: redeem_def Let_def worker_ok_def)

text \<open>Calls of \<open>finish\<close> are only added, and a redemption always leaves a trace: a job or a call.\<close>

definition grown_inv :: "(nat \<times> outcome \<times> redeem_grant) list \<Rightarrow> nat \<Rightarrow> nat list \<Rightarrow> cluster \<Rightarrow> bool" where
  "grown_inv calls n ow c \<longleftrightarrow> (\<exists>more. ct_finished c = calls @ more) \<and> n \<le> ct_next c + length (ct_finished c)"

interpretation grown: runtime_moves "grown_inv calls n" "\<lambda>_ _. True" "\<lambda>_. same_duties" "\<lambda>_. True"
  by unfold_locales
    (auto simp: grown_inv_def update_job_def release_def finish_call_def Let_def split: option.splits intro: heard_duties)

lemma cluster_step_grows: "\<exists>calls. ct_finished (cluster_step X E ev c) = ct_finished c @ calls"
proof -
  have "grown_inv (ct_finished c) 0 [] (cluster_step X E ev c)"
    by (rule grown.I_cluster_step) (auto simp: grown_inv_def spawn_def update_job_def)
  then show ?thesis by (simp add: grown_inv_def)
qed

lemma cluster_redeem_moves: "cluster_redeem X E req token expires g c \<noteq> c"
proof -
  have "grown_inv (ct_finished c) (Suc (ct_next c + length (ct_finished c))) [] (cluster_step X E (Redeems req token expires g) c)"
    by (rule grown.I_cluster_step) (auto simp: grown_inv_def spawn_def)
  then show ?thesis by (auto simp: grown_inv_def)
qed

text \<open>A handler in cluster mode sends no cookie itself, and exactly one description of what it asks for fits it.\<close>

lemma handled_in_cluster:
  assumes "wk_cluster w = Some c" "\<And>main. ev \<noteq> Respawns main" and run: "handled X ev w = (w', rr)"
  shows "\<exists>!ask. asks_for X ev w ask" "\<And>r r'. rr = Some (r, r') \<Longrightarrow> mute r r'" "worker_ok w \<longrightarrow> worker_ok w'"
proof -
  have "(\<exists>!ask. asks_for X ev w ask) \<and> (\<forall>r r'. rr = Some (r, r') \<longrightarrow> mute r r') \<and> (worker_ok w \<longrightarrow> worker_ok w')"
    using run
  proof (cases rule: handled_cases)
    case quiet
    then have "asks_for X ev w None" by (simp add: asks_for_def run)
    moreover have "ask = None" if "asks_for X ev w ask" for ask
      using that quiet(1) assms(1) cluster_redeem_moves [symmetric] by (auto simp: asks_for_def run split: option.splits)
    ultimately show ?thesis using quiet by blast
  next
    case (redeemed E token expires g w1 r r1 r')
    have c: "wk_cluster w1 = Some c" using redeemed(6) assms(1) by simp
    note step = redeem_in_cluster [OF redeemed(4) c]
    have "asks_for X ev w (Some (token, expires, g))" using step(1) redeemed(1,2) by (simp add: asks_for_def run assms(1))
    moreover have "ask = Some (token, expires, g)" if "asks_for X ev w ask" for ask
      using that step(1) assms(1) cluster_redeem_moves earned_unique [OF redeemed(1)]
      by (auto simp: asks_for_def run split: option.splits)
    moreover have "mute r r'" using redeem_mute [OF redeemed(4,5)] c by (auto simp: mute_def)
    ultimately show ?thesis using step(2) redeemed(3,8) by blast
  next
    case (started main)
    with assms(2) show ?thesis by blast
  qed
  then show "\<exists>!ask. asks_for X ev w ask" "\<And>r r'. rr = Some (r, r') \<Longrightarrow> mute r r'" "worker_ok w \<longrightarrow> worker_ok w'" by blast+
qed

lemma handler_asks:
  "in_step s \<Longrightarrow> (\<And>main. ev \<noteq> Respawns main) \<Longrightarrow> \<exists>!ask. asks_for X ev (cs_worker s k) ask"
  using handled_in_cluster(1) [OF in_stepD(1)] by (metis prod.collapse)

lemma submit_asks:
  assumes "wk_cluster w = Some c" "earned X (Submits E lc r) w token expires g"
  shows "asks_for X (Submits E lc r) w (Some (token, expires, g))"
proof -
  obtain cfg w1 where res: "resolve_worker X E lc w = (cfg, w1)" by fastforce
  with assms(2) have "pow_earned X E lc cfg w1 r token expires g" by simp
  note run = verify_body_earned [OF res this]
  have "wk_cluster w1 = Some c" using resolve_worker_fields(1) [of X E lc w] res assms(1) by simp
  from redeem_in_cluster(1) [OF prod.collapse this] assms(2) show ?thesis
    by (simp add: asks_for_def assms(1) run case_prod_beta)
qed

lemma in_step_step:
  assumes "in_step s" "cluster_site_ok X config S s ev"
  shows "in_step (cluster_site_step R X config ev s)"
proof (cases ev)
  case (Handles k wev ask)
  then have ok: "\<And>main. wev \<noteq> Respawns main" "asks_for X wev (cs_worker s k) ask" using assms(2) by simp_all
  let ?w = "fst (handled X wev (cs_worker s k))"
  have "worker_ok ?w"
    using handled_in_cluster(3) [OF in_stepD(1) [OF assms(1)] ok(1)] in_stepD(2) [OF assms(1)] by (metis prod.collapse)
  moreover have "wk_cluster ?w = Some (fl_client (cs_fleet (cluster_site_step R X config ev s)) k)"
    using ok(2) in_stepD(1) [OF assms(1)]
    by (auto simp: Handles cluster_site_step_def asks_for_def Let_def split: option.splits)
  moreover have "fl_client (cs_fleet (cluster_site_step R X config ev s)) i = fl_client (cs_fleet s) i" if "i \<noteq> k" for i
    using that by (simp add: Handles cluster_site_step_def Let_def split: option.split)
  ultimately show ?thesis using assms(1) unfolding in_step_def by (simp add: cluster_site_step_def Handles)
next
  case (Network k N E cev)
  then show ?thesis using assms(1) by (simp add: cluster_site_step_def in_step_def Let_def worker_ok_def)
qed (use assms(1) in \<open>simp_all add: cluster_site_step_def in_step_def\<close>)

subsection \<open>Which cookies leave\<close>

lemma deliver_cookies:
  assumes "v \<in> set (set_cookies (deliver N req calls r))"
  shows "v \<in> set (set_cookies r) \<or> (\<exists>g. (req, Accepted, g) \<in> set calls \<and> v = rg_cookie g)"
  using assms unfolding deliver_def
proof (induction calls arbitrary: r)
  case (Cons call calls)
  obtain req' out g where call: "call = (req', out, g)" by (cases call) auto
  show ?case
  proof (cases "req' = req")
    case True
    with Cons.IH [of "snd (finish N out g r)"] Cons.prems show ?thesis
      by (cases "out = Accepted")
        (auto simp: call dest!: subsetD [OF set_cookies_finish_accepted] subsetD [OF set_cookies_finish_rejected])
  qed (use Cons.IH [of r] Cons.prems in \<open>auto simp: call\<close>)
qed simp

lemma answer_sends:
  assumes "answer N k calls m (i, req) = Some r'" "m (i, req) = Some r" "v \<in> set (new_cookies r r')"
  obtains g where "i = k" "(req, Accepted, g) \<in> set calls" "v = rg_cookie g"
  using assms deliver_cookies [of v N req calls r] by (auto simp: answer_def new_cookies_def split: if_splits)

lemma new_calls_handled:
  assumes "wk_cluster w = Some c" "asks_for X ev w ask"
  shows "(req, Accepted, g) \<notin> set (new_calls (wk_cluster w) (wk_cluster (fst (handled X ev w))))"
  using assms cluster_redeem_refuses by (fastforce simp: asks_for_def new_calls_def split: option.splits)

lemma handler_sends_nothing:
  assumes "in_step s" "cluster_site_ok X config S s (Handles k wev ask)"
  shows "sent X (Handles k wev ask) s kr = []"
proof (cases "own_request X k wev (cs_worker s k)")
  case None
  then show ?thesis by (auto simp: sent_def new_cookies_def split: option.splits)
next
  case (Some x)
  then obtain E r r' where h: "snd (handled X wev (cs_worker s k)) = Some (r, r')" and x: "x = (E, (k, ge_request E), r, r')"
    by (auto simp: own_request_def split: option.splits prod.splits)
  have mute: "mute r r'"
    using handled_in_cluster(2) [OF in_stepD(1) [OF assms(1)], of wev X k] assms(2) h by (metis cluster_site_ok.simps(1) prod.collapse)
  show ?thesis
  proof (cases "kr = (k, ge_request E)")
    case True
    with mute Some x show ?thesis by (simp add: sent_def new_cookies_Nil_iff)
  next
    case False
    obtain i req where kr: "kr = (i, req)" by fastforce
    have "new_cookies q q' = []" if "cs_parked s kr = Some q"
      "answer (ge_nginx E) k (new_calls (wk_cluster (cs_worker s k)) (wk_cluster (fst (handled X wev (cs_worker s k)))))
        (cs_parked s) kr = Some q'" for q q'
    proof (rule ccontr)
      assume "new_cookies q q' \<noteq> []"
      then obtain v where "v \<in> set (new_cookies q q')" by (cases "new_cookies q q'") auto
      from answer_sends [OF that(2) [unfolded kr] that(1) [unfolded kr] this]
      show False using new_calls_handled [OF in_stepD(1) [OF assms(1)]] assms(2) by (metis cluster_site_ok.simps(1))
    qed
    with False Some x show ?thesis by (auto simp: sent_def split: option.split)
  qed
qed

text \<open>An answer that is new in the list of calls was not given before.\<close>

lemma new_call_fresh:
  assumes "cluster_reach X config c" "fresh_event ev c"
    and "(req, out, g) \<in> set (new_calls (Some c) (Some (cluster_step X E ev c)))"
  shows "(req, out, g) \<in> set (ct_finished (cluster_step X E ev c))" "(req, out, g) \<notin> set (ct_finished c)"
proof -
  obtain calls where calls: "ct_finished (cluster_step X E ev c) = ct_finished c @ calls" using cluster_step_grows by blast
  then have new: "(req, out, g) \<in> set calls" using assms(3) by (simp add: new_calls_def)
  have "distinct (answered (cluster_step X E ev c))"
    using reach_inv [OF reach_step [OF assms(1,2), of E]] by (simp add: req_inv_def)
  then have "distinct (map fst (ct_finished c) @ map fst calls)" by (simp add: answered_def calls)
  with new show "(req, out, g) \<notin> set (ct_finished c)" by (auto simp: image_iff)
  show "(req, out, g) \<in> set (ct_finished (cluster_step X E ev c))" using new by (simp add: calls)
qed

lemma sentE:
  assumes "v \<in> set (sent X ev s kr)"
  obtains r r' where "parked_before X ev s kr = Some r" "parked_after X ev s kr = Some r'" "v \<in> set (new_cookies r r')"
  using assms unfolding sent_def by (cases "parked_before X ev s kr"; cases "parked_after X ev s kr") auto

lemma sent_granted:
  assumes "clients_inv X config (cs_fleet s)" "in_step s" "cluster_site_ok X config S s ev" "v \<in> set (sent X ev s (i, req))"
  obtains fev g where "fleet_event_of ev = Some fev" "fleet_ok X config S (cs_fleet s) fev"
    "(i, req, g) \<in> grants_now X fev (cs_fleet s)" "v = rg_cookie g"
proof (cases ev)
  case (Handles k wev ask)
  with handler_sends_nothing [OF assms(2)] assms(3,4) show thesis by fastforce
next
  case (Network k N E cev)
  let ?c = "fl_client (cs_fleet s) k"
  let ?calls = "new_calls (Some ?c) (Some (cluster_step X E cev ?c))"
  have ok: "fleet_ok X config S (cs_fleet s) (Node k E cev)" using assms(3) by (simp add: Network)
  obtain r r' where "cs_parked s (i, req) = Some r" "answer N k ?calls (cs_parked s) (i, req) = Some r'" "v \<in> set (new_cookies r r')"
    using assms(4) in_stepD(1) [OF assms(2), of k] by (auto simp: Network elim: sentE)
  then obtain g where g: "i = k" "(req, Accepted, g) \<in> set ?calls" "v = rg_cookie g" by (metis answer_sends)
  from new_call_fresh [OF clients_invD(1) [OF assms(1)] fleet_ok_fresh [OF ok] g(2)] g(1)
  have "(i, req, g) \<in> grants_now X (Node k E cev) (cs_fleet s)" by simp
  with that [OF _ ok _ g(3)] show thesis by (simp add: Network)
qed (use assms(4) in \<open>auto simp: new_cookies_def elim: sentE\<close>)

text \<open>What the requests asked for is what their handlers had earned.\<close>

definition earned_before ::
  "externals \<Rightarrow> (cluster_site_event \<times> 'r cluster_site) list \<Rightarrow> nat \<Rightarrow> nat \<Rightarrow> string \<Rightarrow> i64 \<Rightarrow> redeem_grant \<Rightarrow> bool" where
  "earned_before X past k req token expires g \<longleftrightarrow>
     (\<exists>wev E s. (Handles k wev (Some (token, expires, g)), s) \<in> set past \<and> event_env wev = Some E \<and>
        ge_request E = req \<and> earned X wev (cs_worker s k) token expires g)"

lemma asked_now:
  assumes "cluster_site_ok X config S s ev"
    and "fl_asked (cs_fleet (cluster_site_step R X config ev s)) (k, req) = Some (token, expires, g)"
  shows "fl_asked (cs_fleet s) (k, req) = Some (token, expires, g) \<or> earned_before X [(ev, s)] k req token expires g"
proof (cases ev)
  case (Handles i wev ask)
  with assms show ?thesis
    by (auto simp: cluster_site_step_def earned_before_def asks_for_def Let_def split: option.splits if_splits)
next
  case (Network i N E cev)
  with assms show ?thesis by (cases cev) (auto simp: cluster_site_step_def Let_def)
qed (use assms in \<open>auto simp: cluster_site_step_def\<close>)

lemma asked_was_earned:
  assumes "admitted (cluster_site_step R X config) (cluster_site_ok X config S) evs s"
    and "fl_asked (cs_fleet (fold (cluster_site_step R X config) evs s)) (k, req) = Some (token, expires, g)"
  shows "fl_asked (cs_fleet s) (k, req) = Some (token, expires, g) \<or>
    earned_before X (trace (cluster_site_step R X config) evs s) k req token expires g"
  using assms
proof (induction evs arbitrary: s)
  case (Cons ev evs)
  from Cons.IH [of "cluster_site_step R X config ev s"] Cons.prems
  consider (later) "earned_before X (trace (cluster_site_step R X config) evs (cluster_site_step R X config ev s)) k req token expires g"
    | (now) "fl_asked (cs_fleet (cluster_site_step R X config ev s)) (k, req) = Some (token, expires, g)" by auto
  then show ?case
  proof cases
    case later
    then show ?thesis unfolding earned_before_def by auto
  next
    case now
    from asked_now [OF _ this] Cons.prems(1) show ?thesis unfolding earned_before_def by auto
  qed
qed simp

subsection \<open>The site as a client of the fleet\<close>

definition cluster_site_inv :: "'r redis_api \<Rightarrow> externals \<Rightarrow> cluster_config \<Rightarrow> int \<Rightarrow> 'r cluster_site \<Rightarrow> bool" where
  "cluster_site_inv R X config S s \<longleftrightarrow> fleet_inv R X config S (cs_fleet s) \<and> in_step s"

lemma fleet_event_ok:
  "cluster_site_ok X config S s ev \<Longrightarrow> fleet_event_of ev = Some fev \<Longrightarrow> fleet_ok X config S (cs_fleet s) fev"
  by (cases ev) (auto split: option.splits)

lemma sent_delivers:
  assumes "clients_inv X config (cs_fleet s)" "in_step s" "cluster_site_ok X config S s ev" "v \<in> set (sent X ev s (k, req))"
  obtains fev token expires g where "fleet_event_of ev = Some fev" "v = rg_cookie g"
    "fl_asked (cs_fleet s) (k, req) = Some (token, expires, g)" "delivers X fev (cs_fleet s) (redemption_id X token) expires"
proof -
  obtain fev g where f: "fleet_event_of ev = Some fev" "fleet_ok X config S (cs_fleet s) fev"
    "(k, req, g) \<in> grants_now X fev (cs_fleet s)" "v = rg_cookie g" by (rule sent_granted [OF assms])
  from f(3) obtain token expires where a: "fl_asked (cs_fleet s) (k, req) = Some (token, expires, g)"
    by (rule grants_accepted_on [OF assms(1) f(2)]) blast
  with f(3) have "delivers X fev (cs_fleet s) (redemption_id X token) expires" unfolding delivers_def by blast
  with that [OF f(1,4) a] show thesis by blast
qed

interpretation cluster_site: ledger_client "fleet_step R X config" "delivers X" "fleet_ok X config S" "fleet_inv R X config S"
  "fleet_settled X config" "cluster_site_step R X config" "gives X" "cluster_site_ok X config S" "cluster_site_inv R X config S" cs_fleet
  for R :: "'r redis_api" and X config S
proof unfold_locales
  fix s :: "'r cluster_site" and ev
  show "fleet_inv R X config S (cs_fleet s)" if "cluster_site_inv R X config S s" using that by (simp add: cluster_site_inv_def)
  assume now: "cluster_site_inv R X config S s" "cluster_site_ok X config S s ev"
  then have inv: "fleet_inv R X config S (cs_fleet s)" "in_step s" "clients_inv X config (cs_fleet s)"
    by (simp_all add: cluster_site_inv_def fleet_inv_def)
  let ?s = "cluster_site_step R X config ev s"
  show "cluster_site_inv R X config S ?s"
    using fleet_inv_step [OF inv(1) fleet_event_ok [OF now(2)]] inv in_step_step [OF inv(2) now(2), of R]
    by (auto simp: cluster_site_inv_def, simp add: cluster_site_step_def split: option.split)
  have accepts: "\<exists>fev. fleet_event_of ev = Some fev \<and> delivers X fev (cs_fleet s) uid e" if "gives X ev s uid e" for uid e
    using that unfolding gives_def by (auto elim!: sent_delivers [OF inv(3,2) now(2)])
  show "cs_fleet ?s = cs_fleet s \<and> (\<forall>uid e. \<not> gives X ev s uid e) \<or>
      (\<exists>fev. fleet_ok X config S (cs_fleet s) fev \<and> cs_fleet ?s = fleet_step R X config fev (cs_fleet s) \<and>
         (\<forall>uid e. gives X ev s uid e \<longrightarrow> delivers X fev (cs_fleet s) uid e))"
  proof (cases "fleet_event_of ev")
    case None
    with accepts show ?thesis by (auto simp: cluster_site_step_def)
  next
    case (Some fev)
    with accepts fleet_event_ok [OF now(2) Some] show ?thesis
      by (intro disjI2 exI [of _ fev]) (auto simp: cluster_site_step_def)
  qed
qed

lemma cs_fleet_step:
  "fleet_event_of ev = Some fev \<Longrightarrow> cs_fleet (cluster_site_step R X config ev s) = fleet_step R X config fev (cs_fleet s)"
  by (simp add: cluster_site_step_def)

lemma cs_fleet_run:
  "cs_fleet (fold (cluster_site_step R X config) evs s) =
     fold (fleet_step R X config) (List.map_filter fleet_event_of evs) (cs_fleet s)"
  by (induction evs arbitrary: s) (simp_all add: cluster_site_step_def map_filter_def del: fleet_step.simps split: option.split)

subsection \<open>Properties\<close>

lemma cluster_site_start_inv:
  assumes "redis_inv R (rc_namespace config) (rc_skew config) S server"
  shows "cluster_site_inv R X config S (cluster_site_start main config server)"
  using fleet_start_inv [OF assms]
  by (simp add: cluster_site_inv_def cluster_site_start_def in_step_def fleet_start_def init_process_def
      redemption_activate_def Let_def worker_ok_def new_worker_def)

text \<open>
  C4. One challenge, one clearance, in a cluster. Any number of workers on any number of machines
  start with the same configuration on a Redis server whose clock keeps within \<open>S\<close> seconds of its
  highest reading, \<open>2 S\<close> being at most the configured skew plus one; what arrives on a connection is
  some part of the bytes the server sends there. Whatever requests come, however handlers, timers
  and replies interleave and whatever is delayed, cut or lost: a clearance cookie leaves the site
  only as the answer to a request whose own handler earned it before, and for each token with its
  expiry at most once in the whole cluster.
\<close>

theorem one_clearance_per_token_cluster:
  assumes "redis_inv R (rc_namespace config) (rc_skew config) S server"
    and "s = cluster_site_start main config server"
    and "admitted (cluster_site_step R X config) (cluster_site_ok X config S) evs s"
  shows "acceptances (cluster_site_step R X config) (gives X) evs s uid expires \<le> 1 \<and>
    (\<forall>past ev rest k req v. evs = past @ ev # rest \<and>
       v \<in> set (sent X ev (fold (cluster_site_step R X config) past s) (k, req)) \<longrightarrow>
       (\<exists>token e g. v = rg_cookie g \<and>
          earned_before X (trace (cluster_site_step R X config) past s) k req token e g \<and>
          gives X ev (fold (cluster_site_step R X config) past s) (redemption_id X token) e))"
proof (intro conjI allI impI, goal_cases)
  let ?step = "cluster_site_step R X config"
  note start = cluster_site_start_inv [OF assms(1), of X main, folded assms(2)]
  case 1
  show ?case by (rule cluster_site.client.at_most_once [OF start assms(3)])
  case (2 past ev rest k req v)
  let ?s = "fold ?step past s"
  have split: "trace ?step evs s = trace ?step past s @ (ev, ?s) # trace ?step rest (?step ev ?s)"
    using 2 by (simp add: trace_append)
  have past: "admitted ?step (cluster_site_ok X config S) past s" using assms(3) unfolding admitted_def split by simp
  have "(ev, ?s) \<in> set (trace ?step evs s)" by (simp add: split)
  from cluster_site.client.trace_inv [OF start assms(3) this]
  have inv: "clients_inv X config (cs_fleet ?s)" "in_step ?s" "cluster_site_ok X config S ?s ev"
    by (simp_all add: cluster_site_inv_def fleet_inv_def)
  from 2 have "v \<in> set (sent X ev ?s (k, req))" by simp
  then obtain token e g where g: "v = rg_cookie g" "fl_asked (cs_fleet ?s) (k, req) = Some (token, e, g)"
    by (rule sent_delivers [OF inv]) blast
  have "fl_asked (cs_fleet s) (k, req) = None" by (simp add: assms(2) cluster_site_start_def fleet_start_def)
  with asked_was_earned [OF past g(2)] have "earned_before X (trace ?step past s) k req token e g" by simp
  moreover have "gives X ev ?s (redemption_id X token) e" unfolding gives_def using g 2 by blast
  ultimately show ?case using g(1) by blast
qed

subsection \<open>A clearance that was accepted\<close>

text \<open>What a run keeps: what was asked for, and the requests that are parked.\<close>

lemma cluster_site_keeps:
  assumes "cluster_site_ok X config S s ev"
  shows "fl_asked (cs_fleet s) kr = Some ask \<Longrightarrow> fl_asked (cs_fleet (cluster_site_step R X config ev s)) kr = Some ask"
    and "cs_parked s kr \<noteq> None \<Longrightarrow> cs_parked (cluster_site_step R X config ev s) kr \<noteq> None"
proof -
  have fleet: "fl_asked (fleet_step R X config fev (cs_fleet s)) kr = Some ask"
    if "fleet_ok X config S (cs_fleet s) fev" "fl_asked (cs_fleet s) kr = Some ask" for fev
    using that by (cases fev) (auto intro: node_asked_kept simp del: fleet_step.simps(1))
  then show "fl_asked (cs_fleet (cluster_site_step R X config ev s)) kr = Some ask" if "fl_asked (cs_fleet s) kr = Some ask"
    using that fleet_event_ok [OF assms] by (simp add: cluster_site_step_def split: option.split)
  show "cs_parked (cluster_site_step R X config ev s) kr \<noteq> None" if "cs_parked s kr \<noteq> None"
    using that by (cases ev) (auto simp: cluster_site_step_def answer_def split: option.split prod.split)
qed

lemma cluster_site_run:
  fixes R :: "'r redis_api"
  assumes "cluster_site_inv R X config S s" "admitted (cluster_site_step R X config) (cluster_site_ok X config S) evs s"
  defines "s' \<equiv> fold (cluster_site_step R X config) evs s"
  shows "cluster_site_inv R X config S s'"
    and "fl_asked (cs_fleet s) kr = Some ask \<Longrightarrow> fl_asked (cs_fleet s') kr = Some ask"
    and "cs_parked s kr \<noteq> None \<Longrightarrow> cs_parked s' kr \<noteq> None"
proof -
  have "cluster_site_inv R X config S (fold (cluster_site_step R X config) evs s) \<and>
    (fl_asked (cs_fleet s) kr = Some ask \<longrightarrow> fl_asked (cs_fleet (fold (cluster_site_step R X config) evs s)) kr = Some ask) \<and>
    (cs_parked s kr \<noteq> None \<longrightarrow> cs_parked (fold (cluster_site_step R X config) evs s) kr \<noteq> None)"
    using assms(1,2)
  proof (induction evs arbitrary: s)
    case (Cons ev evs)
    then have ok: "cluster_site_ok X config S s ev" by simp
    from Cons.IH [of "cluster_site_step R X config ev s"] Cons.prems cluster_site.client.inv_step [OF Cons.prems(1) ok]
      cluster_site_keeps [OF ok, where R = R]
    show ?case by simp
  qed simp
  then show "cluster_site_inv R X config S s'" "fl_asked (cs_fleet s) kr = Some ask \<Longrightarrow> fl_asked (cs_fleet s') kr = Some ask"
    "cs_parked s kr \<noteq> None \<Longrightarrow> cs_parked s' kr \<noteq> None" by (simp_all add: s'_def)
qed

text \<open>A reply that accepts answers the request of its job with the grant, and the response carries the cookie.\<close>

lemma read_accepts:
  assumes job: "ct_jobs c j = Some job" "jb_request job = Some req" "jb_grant job = Some g" "\<not> jb_health job"
    and "read_result recvs job = Some (Accepted, f)" "ce_done E j < jb_expires job"
  shows "(req, Accepted, g) \<in> set (ct_finished (cluster_step X E (Reads j rearm recvs) c))"
proof -
  from read_loop_result [OF job(1) assms(5), of E rearm] obtain c' job'
    where run: "read_loop E j rearm recvs job c = complete E j Accepted f c'" "ct_jobs c' j = Some job'" "same_duties job job'" by blast
  then have same: "Accepted = settle E j job' Accepted" "jb_request job' = Some req" "jb_grant job' = Some g"
    using assms by (auto simp: same_duties_def settle_def)
  show ?thesis
    using same(1) by (auto simp: read_event_def job(1) run complete_def case_prod_beta Let_def finish_call_def same(2,3))
qed

lemma deliver_accepted:
  assumes "healthy N" "(req, Accepted, g) \<in> set calls" "distinct (map fst calls)"
  shows "rg_cookie g \<in> set (set_cookies (deliver N req calls r))"
proof -
  obtain pre post where calls: "calls = pre @ (req, Accepted, g) # post" using assms(2) by (auto dest: split_list)
  with assms(3) have "filter (\<lambda>call. fst call = req) pre = []" "filter (\<lambda>call. fst call = req) post = []"
    by (auto simp: filter_empty_conv)
  then have "deliver N req calls r = snd (finish N Accepted g r)" by (simp add: deliver_def calls)
  then show ?thesis using set_cookies_finish_healthy [OF assms(1)] by simp
qed

lemma reply_answers:
  assumes inv: "cluster_site_inv R X config S s" "cluster_site_ok X config S s (Network k N F (Reads j rearm recvs))"
    and parked: "cs_parked s (k, req) \<noteq> None" "fl_asked (cs_fleet s) (k, req) = Some (token, expires, g)"
    and job: "ct_jobs (fl_client (cs_fleet s) k) j = Some job" "jb_request job = Some req"
      "read_result recvs job = Some (Accepted, f)" "ce_done F j < jb_expires job" and "healthy N"
  shows "\<exists>q. cs_parked (cluster_site_step R X config (Network k N F (Reads j rearm recvs)) s) (k, req) = Some q \<and>
    rg_cookie g \<in> set (set_cookies q)"
proof -
  let ?c = "fl_client (cs_fleet s) k" and ?ev = "Reads j rearm recvs"
  let ?calls = "new_calls (Some ?c) (Some (cluster_step X F ?ev ?c))"
  have clients: "clients_inv X config (cs_fleet s)" and step: "in_step s"
    using inv(1) by (simp_all add: cluster_site_inv_def fleet_inv_def)
  have nh: "\<not> jb_health job" using clients_invD(9) [OF clients job(1)] job(2) by auto
  with clients_invD(4) [OF clients job(1)] job(2) parked(2) have g: "jb_grant job = Some g" by (auto simp: asked_for_def)
  obtain calls where calls: "ct_finished (cluster_step X F ?ev ?c) = ct_finished ?c @ calls" using cluster_step_grows by blast
  have reach: "cluster_reach X config ?c" by (rule clients_invD(1) [OF clients])
  have "req_inv [] ?c" "req_inv [] (cluster_step X F ?ev ?c)"
    using reach_inv [OF reach] reach_inv [OF reach_step [OF reach, of ?ev F]] by auto
  moreover have "req \<in> waiting ?c" using job(1,2) unfolding waiting_def by blast
  ultimately have "req \<notin> set (answered ?c)" and distinct: "distinct (map fst ?calls)"
    unfolding req_inv_def by (auto simp: answered_def calls new_calls_def simp del: cluster_step.simps)
  then have "(req, Accepted, g) \<in> set ?calls"
    using read_accepts [OF job(1,2) g nh job(3,4), of X rearm]
    by (force simp: new_calls_def calls answered_def simp del: cluster_step.simps)
  with deliver_accepted [OF assms(9) _ distinct] parked(1) in_stepD(1) [OF step, of k] show ?thesis
    by (auto simp: cluster_site_step_def answer_def simp del: cluster_step.simps)
qed

lemma submit_parks:
  fixes R :: "'r redis_api"
  assumes "cluster_site_ok X config S s (Handles k (Submits E lc r) (Some (token, expires, g)))"
  defines "s' \<equiv> cluster_site_step R X config (Handles k (Submits E lc r) (Some (token, expires, g))) s"
  shows "cs_parked s' (k, ge_request E) \<noteq> None" "fl_asked (cs_fleet s') (k, ge_request E) = Some (token, expires, g)"
    and "earned X (Submits E lc r) (cs_worker s k) token expires g"
  using assms(1)
  by (simp_all add: s'_def cluster_site_step_def own_request_def case_prod_beta Let_def asks_for_def split: option.split)

lemma cluster_site_issuer:
  assumes "cluster_site_inv R X config S s"
  shows "issuer (cs_worker s k) = (if ct_fenced (fl_client (cs_fleet s) k) then None else Some (rc_issuer config))"
proof -
  have "clients_inv X config (cs_fleet s)" "in_step s" using assms by (simp_all add: cluster_site_inv_def fleet_inv_def)
  then show ?thesis using in_stepD(1) [of s k] clients_invD(6) [of X config "cs_fleet s" k]
    by (simp add: issuer_def cluster_issuer_def)
qed

text \<open>
  C6. Solving the challenge opens the cluster. Take a submission that passes every check in some
  worker, and later a reply on the connection of that request's redemption that accepts it before
  the token expires. The response to the request carries the clearance cookie; and after whatever
  happens in the cluster in between and after, every worker anywhere whose client is not fenced and
  that has the location configured alike lets the same client (address, host and User-Agent)
  through when it comes back with the cookie while it lasts, for a page outside the internal
  endpoint, under a policy the earned difficulty satisfies, where no request proof is demanded.
\<close>

theorem earned_clearance_passes_cluster:
  assumes laws: "base64_laws X" "digest_laws X" "serde_laws X"
    and cluster: "redis_inv R (rc_namespace config) (rc_skew config) S server" "s = cluster_site_start main config server"
      "submit = Handles k (Submits E lc r) (Some (token, expires, g))" "reply = Network k N F (Reads j rearm recvs)"
      "admitted (cluster_site_step R X config) (cluster_site_ok X config S) (evs @ submit # evs' @ reply # evs'') s"
    and submitted: "su = fold (cluster_site_step R X config) evs s" "resolve_worker X E lc (cs_worker su k) = (c, w1)"
    and replied: "sr = fold (cluster_site_step R X config) (evs @ submit # evs') s"
      "ct_jobs (fl_client (cs_fleet sr) k) j = Some job" "jb_request job = Some (ge_request E)"
      "read_result recvs job = Some (Accepted, f)" "ce_done F j < jb_expires job" "healthy N"
    and clock: "in_i64 (ge_now E AtVerify)" "in_i64 (ge_now E AtVerify + cf_clearance_ttl c)" "in_i64 (cf_clearance_ttl c)"
      "in_i64 (ge_now G AtClearance)" "ge_now E AtVerify \<le> ge_now G AtClearance"
      "ge_now G AtClearance < ge_now E AtVerify + cf_clearance_ttl c"
    and again: "rg_cookie g = build_set_cookie v (cf_cookie c)" "length v \<le> 4096"
      "cookie (cc_name (cf_cookie c)) q = Some v" "rq_sockaddr q = rq_sockaddr r" "rq_server q = rq_server r"
      "header ''user-agent'' q = header ''user-agent'' r" "header ''x-pow-proof'' q = None"
      "\<not> (cf_require_proof c \<and> can_carry_proof q)"
      "\<not> (cf_endpoint c \<noteq> [] \<and> starts_with (rq_uri q) (cf_endpoint c))"
    and policy: "sl = fold (cluster_site_step R X config) (reply # evs'') sr" "\<not> ct_fenced (fl_client (cs_fleet sl) k')"
      "lc_enabled lc \<noteq> 0" "resolve_worker X G lc (cs_worker sl k') = (c, w2)"
      "decision = parse (eval_complex_value (ge_nginx G) (lc_decision lc) q)"
      "decision \<noteq> Deny" "satisfies (Pow (rg_difficulty g)) (assurance_for decision c)"
  shows "(\<exists>p. cs_parked (cluster_site_step R X config reply sr) (k, ge_request E) = Some p \<and> rg_cookie g \<in> set (set_cookies p)) \<and>
    fst (pow_gate_access X G (Some lc) (cs_worker sl k') q) = NGX_DECLINED"
proof
  let ?step = "cluster_site_step R X config" and ?ok = "cluster_site_ok X config S" and ?inv = "cluster_site_inv R X config S"
  have start: "?inv s" unfolding cluster(2) by (rule cluster_site_start_inv [OF cluster(1)])
  have sr: "sr = fold ?step evs' (?step submit su)" by (simp add: replied(1) submitted(1))
  have run: "admitted ?step ?ok evs s" "?ok su submit" "admitted ?step ?ok evs' (?step submit su)" "admitted ?step ?ok (reply # evs'') sr"
    using cluster(5) unfolding sr submitted(1) by (simp_all add: admitted_append)
  have inv0: "?inv su" unfolding submitted(1) by (rule cluster_site_run(1) [OF start run(1)])
  note inv0' = cluster_site.client.inv_step [OF inv0 run(2)]
  have inv1: "?inv sr" unfolding sr by (rule cluster_site_run(1) [OF inv0' run(3)])
  have inv2: "?inv sl" unfolding policy(1) by (rule cluster_site_run(1) [OF inv1 run(4)])
  note parks = submit_parks(1,2) [OF run(2) [unfolded cluster(3)], where R = R, folded cluster(3)]
    submit_parks(3) [OF run(2) [unfolded cluster(3)]]
  have "cs_parked sr (k, ge_request E) \<noteq> None" "fl_asked (cs_fleet sr) (k, ge_request E) = Some (token, expires, g)"
    using cluster_site_run(2,3) [OF inv0' run(3)] parks(1,2) unfolding sr by blast+
  from reply_answers [OF inv1 _ this replied(2-6)] run(4)
  show "\<exists>p. cs_parked (?step reply sr) (k, ge_request E) = Some p \<and> rg_cookie g \<in> set (set_cookies p)"
    by (simp add: cluster(4))
  have earned: "pow_earned X E lc c w1 r token expires g" using parks(3) by (simp add: submitted(2))
  have ok: "cfg_ok c" using resolve_worker_ok(1) [of "cs_worker su k" X E lc] inv0 by (simp add: submitted(2) cluster_site_inv_def in_step_def)
  have "issuer w1 = issuer (cs_worker su k)" using resolve_worker_store(2) [of X E lc "cs_worker su k"] by (simp add: submitted(2))
  moreover have "issuer w1 \<noteq> None" using earned by (auto simp: pow_earned_def client_context_def split: option.splits)
  ultimately have "issuer (cs_worker sl k') = issuer w1"
    using cluster_site_issuer [OF inv0, of k] cluster_site_issuer [OF inv2, of k'] policy(2) by (simp split: if_splits)
  from earned_is_cleared [OF laws ok earned clock again(1-8) policy(7) this]
  show "fst (pow_gate_access X G (Some lc) (cs_worker sl k') q) = NGX_DECLINED"
    by (rule access_lets_cleared [OF laws ok clock(4,3) policy(3,4) again(9) policy(5,6)])
qed

end
