(* ===== verification/Cookie.thy ===== *)
theory Cookie
  imports Codec
begin

text \<open>\<open>pow-gate-core/src/cookie.rs\<close>: the cookie name derived from a policy scope.\<close>

text \<open>The hash is fed its domain tag and then, for every field, the length and the bytes.\<close>

definition scope_absorb :: "string list \<Rightarrow> bytes" where
  "scope_absorb flds =
     fold (\<lambda>field h. (h @ to_be_bytes (of_nat (length field))) @ as_bytes field) flds
       (as_bytes ''pow-gate-cookie-scope-v2'')"

definition scoped_name :: "externals \<Rightarrow> string \<Rightarrow> string list \<Rightarrow> string" where
  "scoped_name X base flds =
     (let digest = sha256 X (scope_absorb (base # flds));
          suffix = hex (take 12 digest)
      in base @ ''_'' @ suffix)"

lemma scope_absorb_eq:
  "scope_absorb flds = as_bytes ''pow-gate-cookie-scope-v2'' @ frames (map as_bytes flds)"
proof -
  have "fold (\<lambda>field h. (h @ to_be_bytes (of_nat (length field))) @ as_bytes field) flds h
          = h @ frames (map as_bytes flds)" for h
    by (induction flds arbitrary: h) (simp_all add: frames_def frame_def)
  then show ?thesis by (simp add: scope_absorb_def)
qed

lemma scope_absorb_inject:
  assumes "\<forall>s\<in>set a. length s < 2 ^ 64" "\<forall>s\<in>set b. length s < 2 ^ 64"
  shows "scope_absorb a = scope_absorb b \<longleftrightarrow> a = b"
proof
  assume "scope_absorb a = scope_absorb b"
  then have "frames (map as_bytes a) = frames (map as_bytes b)" by (simp add: scope_absorb_eq)
  moreover have "\<forall>f\<in>set (map as_bytes a). length f < 2 ^ 64" "\<forall>f\<in>set (map as_bytes b). length f < 2 ^ 64"
    using assms by auto
  ultimately have "map as_bytes a = map as_bytes b" by (rule frames_inject [rotated 2])
  moreover have "inj as_bytes" by (simp add: inj_def)
  ultimately show "a = b" by (simp only: inj_map_eq_map)
qed simp

lemma length_scoped_name:
  "digest_laws X \<Longrightarrow> length (scoped_name X base flds) = length base + 25"
  by (simp add: scoped_name_def Let_def)

lemma scoped_name_sameD:
  assumes "digest_laws X" "scoped_name X a fs = scoped_name X b gs"
  shows "a = b \<and> take 12 (sha256 X (scope_absorb (a # fs))) = take 12 (sha256 X (scope_absorb (b # gs)))"
proof -
  have len: "length a = length b"
    using assms(2) length_scoped_name [OF assms(1), of a fs] length_scoped_name [OF assms(1), of b gs]
    by simp
  with assms(2) show ?thesis by (auto simp: scoped_name_def Let_def hex_inject)
qed

subsection \<open>Properties\<close>

text \<open>
  Two scopes that share a cookie name have the same base and the same fields, or they are a
  collision of the first 96 bits of SHA-256 on two different encodings; the encoding itself never
  confuses scopes. The name is the base with a suffix of 25 characters.
\<close>

theorem scoped_name_separates_scopes:
  assumes "digest_laws X"
    and "\<forall>s\<in>set (base # flds). length s < 2 ^ 64" "\<forall>s\<in>set (base' # flds'). length s < 2 ^ 64"
    and "scoped_name X base flds = scoped_name X base' flds'"
  shows "base = base' \<and> length (scoped_name X base flds) = length base + 25 \<and>
         (flds = flds' \<or>
          scope_absorb (base # flds) \<noteq> scope_absorb (base' # flds') \<and>
          take 12 (sha256 X (scope_absorb (base # flds))) =
            take 12 (sha256 X (scope_absorb (base' # flds'))))"
  using scoped_name_sameD [OF assms(1,4)] scope_absorb_inject [OF assms(2,3)]
    length_scoped_name [OF assms(1)] by auto

theorem scoped_name_separates_scopes_witness:
  "length (scoped_name sample ''gate'' [''h'']) = 29"
  using scoped_name_separates_scopes [OF sample_digest_laws,
      of "''gate''" "[''h'']" "''gate''" "[''h'']"]
  by simp

end
