(* ===== verification/Config.thy ===== *)
theory Config
  imports Access Cookie
begin

text \<open>
  \<open>ngx-http-pow-gate/src/config.rs\<close>: the directives, the creation of a location's configuration and
  its merge with the enclosing one. Reading a directive's argument into its slot is nginx's own
  code; what is modelled is the table that drives it, the unset markers it relies on and the merge.
\<close>

subsection \<open>The command table\<close>

datatype conf_field =
    F_enabled
  | F_trusted
  | F_decision
  | F_page_path
  | F_nojs_page_path
  | F_difficulty
  | F_hmac_key_file
  | F_clearance_ttl
  | F_proof_skew
  | F_require_proof
  | F_ipv4_prefix
  | F_ipv6_prefix
  | F_policy
  | F_endpoint
  | F_replay
  | F_replay_max_body
  | F_cookie_name
  | F_cookie_scope_suffix
  | F_cookie_domain
  | F_cookie_path
  | F_cookie_samesite
  | F_cookie_secure
  | F_cookie_httponly

datatype conf_place = MAIN_CONF | SRV_CONF | LOC_CONF

datatype conf_args = FLAG | TAKE1 | BLOCK_TAKE1 | BLOCK_NOARGS

datatype conf_setter =
    SetFlag | SetComplex | SetStr | SetNum | SetSec | SetSize | SetVerifier | SetRedis

text \<open>A command: name, places, arguments, setter, and the field of the location's configuration it
  sets; the block directives work on the main configuration.\<close>

type_synonym ngx_command = "string \<times> conf_place list \<times> conf_args \<times> conf_setter \<times> conf_field option"

definition HTTP_SERVER_LOCATION :: "conf_place list" where
  "HTTP_SERVER_LOCATION = [MAIN_CONF, SRV_CONF, LOC_CONF]"

definition SERVER_LOCATION :: "conf_place list" where
  "SERVER_LOCATION = [SRV_CONF, LOC_CONF]"

definition GATE_COMMANDS :: "ngx_command list" where
  "GATE_COMMANDS =
     [(''pow_gate'', HTTP_SERVER_LOCATION, FLAG, SetFlag, Some F_enabled),
      (''pow_gate_trusted'', SERVER_LOCATION, TAKE1, SetComplex, Some F_trusted),
      (''pow_gate_decision'', SERVER_LOCATION, TAKE1, SetComplex, Some F_decision),
      (''pow_gate_page'', HTTP_SERVER_LOCATION, TAKE1, SetStr, Some F_page_path),
      (''pow_gate_nojs_page'', HTTP_SERVER_LOCATION, TAKE1, SetStr, Some F_nojs_page_path),
      (''pow_gate_difficulty'', HTTP_SERVER_LOCATION, TAKE1, SetNum, Some F_difficulty),
      (''pow_gate_hmac_key_file'', HTTP_SERVER_LOCATION, TAKE1, SetStr, Some F_hmac_key_file),
      (''pow_gate_clearance_ttl'', HTTP_SERVER_LOCATION, TAKE1, SetSec, Some F_clearance_ttl),
      (''pow_gate_proof_skew'', HTTP_SERVER_LOCATION, TAKE1, SetSec, Some F_proof_skew),
      (''pow_gate_require_proof'', HTTP_SERVER_LOCATION, FLAG, SetFlag, Some F_require_proof),
      (''pow_gate_ipv4_prefix'', HTTP_SERVER_LOCATION, TAKE1, SetNum, Some F_ipv4_prefix),
      (''pow_gate_ipv6_prefix'', HTTP_SERVER_LOCATION, TAKE1, SetNum, Some F_ipv6_prefix),
      (''pow_gate_policy'', HTTP_SERVER_LOCATION, TAKE1, SetStr, Some F_policy),
      (''pow_gate_endpoint'', HTTP_SERVER_LOCATION, TAKE1, SetStr, Some F_endpoint),
      (''pow_gate_replay'', HTTP_SERVER_LOCATION, FLAG, SetFlag, Some F_replay),
      (''pow_gate_replay_max_body'', HTTP_SERVER_LOCATION, TAKE1, SetSize, Some F_replay_max_body)]"

definition COOKIE_COMMANDS :: "ngx_command list" where
  "COOKIE_COMMANDS =
     [(''pow_gate_cookie_name'', HTTP_SERVER_LOCATION, TAKE1, SetStr, Some F_cookie_name),
      (''pow_gate_cookie_scope_suffix'', HTTP_SERVER_LOCATION, FLAG, SetFlag, Some F_cookie_scope_suffix),
      (''pow_gate_cookie_domain'', HTTP_SERVER_LOCATION, TAKE1, SetStr, Some F_cookie_domain),
      (''pow_gate_cookie_path'', HTTP_SERVER_LOCATION, TAKE1, SetStr, Some F_cookie_path),
      (''pow_gate_cookie_samesite'', HTTP_SERVER_LOCATION, TAKE1, SetStr, Some F_cookie_samesite),
      (''pow_gate_cookie_secure'', HTTP_SERVER_LOCATION, FLAG, SetFlag, Some F_cookie_secure),
      (''pow_gate_cookie_httponly'', HTTP_SERVER_LOCATION, FLAG, SetFlag, Some F_cookie_httponly)]"

definition MAIN_COMMANDS :: "ngx_command list" where
  "MAIN_COMMANDS =
     [(''pow_gate_verifier'', [MAIN_CONF], BLOCK_TAKE1, SetVerifier, None),
      (''pow_gate_redis'', [MAIN_CONF], BLOCK_NOARGS, SetRedis, None)]"

definition NGX_HTTP_POW_GATE_COMMANDS :: "ngx_command list" where
  "NGX_HTTP_POW_GATE_COMMANDS = GATE_COMMANDS @ COOKIE_COMMANDS @ MAIN_COMMANDS"

subsection \<open>Creation\<close>

definition NGX_CONF_UNSET :: int where "NGX_CONF_UNSET = - 1"
definition UNSET_UINT :: u64 where "UNSET_UINT = - 1"
definition UNSET_SIZE :: usize where "UNSET_SIZE = 2 ^ 64 - 1"

fun unset :: "conf_field \<Rightarrow> location_conf \<Rightarrow> bool" where
  "unset F_enabled c \<longleftrightarrow> lc_enabled c = NGX_CONF_UNSET"
| "unset F_trusted c \<longleftrightarrow> lc_trusted c = None"
| "unset F_decision c \<longleftrightarrow> lc_decision c = None"
| "unset F_page_path c \<longleftrightarrow> lc_page_path c = []"
| "unset F_nojs_page_path c \<longleftrightarrow> lc_nojs_page_path c = []"
| "unset F_difficulty c \<longleftrightarrow> lc_difficulty c = UNSET_UINT"
| "unset F_hmac_key_file c \<longleftrightarrow> lc_hmac_key_file c = []"
| "unset F_clearance_ttl c \<longleftrightarrow> lc_clearance_ttl c = NGX_CONF_UNSET"
| "unset F_proof_skew c \<longleftrightarrow> lc_proof_skew c = NGX_CONF_UNSET"
| "unset F_require_proof c \<longleftrightarrow> lc_require_proof c = NGX_CONF_UNSET"
| "unset F_ipv4_prefix c \<longleftrightarrow> lc_ipv4_prefix c = UNSET_UINT"
| "unset F_ipv6_prefix c \<longleftrightarrow> lc_ipv6_prefix c = UNSET_UINT"
| "unset F_policy c \<longleftrightarrow> lc_policy c = []"
| "unset F_endpoint c \<longleftrightarrow> lc_endpoint c = []"
| "unset F_replay c \<longleftrightarrow> lc_replay c = NGX_CONF_UNSET"
| "unset F_replay_max_body c \<longleftrightarrow> lc_replay_max_body c = UNSET_SIZE"
| "unset F_cookie_name c \<longleftrightarrow> lc_cookie_name c = []"
| "unset F_cookie_scope_suffix c \<longleftrightarrow> lc_cookie_scope_suffix c = NGX_CONF_UNSET"
| "unset F_cookie_domain c \<longleftrightarrow> lc_cookie_domain c = []"
| "unset F_cookie_path c \<longleftrightarrow> lc_cookie_path c = []"
| "unset F_cookie_samesite c \<longleftrightarrow> lc_cookie_samesite c = []"
| "unset F_cookie_secure c \<longleftrightarrow> lc_cookie_secure c = NGX_CONF_UNSET"
| "unset F_cookie_httponly c \<longleftrightarrow> lc_cookie_httponly c = NGX_CONF_UNSET"

text \<open>\<open>cell\<close> is the address of the new \<open>OnceLock\<close>; \<open>None\<close> when an allocation failed.\<close>

definition create_location_conf :: "bool \<Rightarrow> bool \<Rightarrow> nat \<Rightarrow> location_conf option" where
  "create_location_conf alloc cleanup cell =
     (if \<not> alloc then None
      else if \<not> cleanup then None
      else Some
        \<lparr>lc_resolved = cell, lc_enabled = NGX_CONF_UNSET, lc_trusted = None, lc_decision = None,
         lc_page_path = [], lc_page_cache = [], lc_nojs_page_path = [], lc_nojs_page_cache = [],
         lc_difficulty = UNSET_UINT, lc_hmac_key_file = [], lc_clearance_ttl = NGX_CONF_UNSET,
         lc_proof_skew = NGX_CONF_UNSET, lc_require_proof = NGX_CONF_UNSET, lc_ipv4_prefix = UNSET_UINT,
         lc_ipv6_prefix = UNSET_UINT, lc_policy = [], lc_endpoint = [], lc_replay = NGX_CONF_UNSET,
         lc_replay_max_body = UNSET_SIZE, lc_cookie_name = [], lc_cookie_effective_name = [],
         lc_cookie_scope_suffix = NGX_CONF_UNSET, lc_cookie_domain = [], lc_cookie_path = [],
         lc_cookie_samesite = [], lc_cookie_secure = NGX_CONF_UNSET, lc_cookie_httponly = NGX_CONF_UNSET\<rparr>)"

definition create_main_conf :: "bool \<Rightarrow> main_conf option" where
  "create_main_conf alloc =
     (if alloc then Some \<lparr>mc_verifiers = None, mc_cluster = None, mc_zone = None\<rparr> else None)"

subsection \<open>Merging\<close>

definition merge_flag :: "int \<Rightarrow> int \<Rightarrow> int \<Rightarrow> int" where
  "merge_flag conf prev dflt =
     (if conf = NGX_CONF_UNSET then if prev = NGX_CONF_UNSET then dflt else prev else conf)"

definition merge_uint :: "u64 \<Rightarrow> u64 \<Rightarrow> u64 \<Rightarrow> u64" where
  "merge_uint conf prev dflt =
     (if conf = UNSET_UINT then if prev = UNSET_UINT then dflt else prev else conf)"

definition merge_size :: "usize \<Rightarrow> usize \<Rightarrow> usize \<Rightarrow> usize" where
  "merge_size conf prev dflt =
     (if conf = UNSET_SIZE then if prev = UNSET_SIZE then dflt else prev else conf)"

definition merge_sec :: "i64 \<Rightarrow> i64 \<Rightarrow> i64 \<Rightarrow> i64" where
  "merge_sec conf prev dflt =
     (if conf = NGX_CONF_UNSET then if prev = NGX_CONF_UNSET then dflt else prev else conf)"

definition merge_ptr :: "'a option \<Rightarrow> 'a option \<Rightarrow> 'a option" where
  "merge_ptr conf prev = (case conf of None \<Rightarrow> prev | Some _ \<Rightarrow> conf)"

definition merge_str :: "string \<Rightarrow> string \<Rightarrow> string \<Rightarrow> string" where
  "merge_str conf prev dflt = (if conf = [] then if prev \<noteq> [] then prev else dflt else conf)"

definition effective_cookie_name :: "externals \<Rightarrow> location_conf \<Rightarrow> string" where
  "effective_cookie_name X conf =
     (let base = lc_cookie_name conf in
      if lc_cookie_scope_suffix conf \<noteq> 0 then
        (let domain = to_ascii_lowercase (trim_start_matches (CHR ''.'') (lc_cookie_domain conf));
             same_site = to_ascii_lowercase (lc_cookie_samesite conf)
         in scoped_name X base
              [domain, lc_cookie_path conf, same_site,
               if lc_cookie_secure conf \<noteq> 0 \<or> same_site = ''none'' then ''secure'' else ''http'',
               if lc_cookie_httponly conf \<noteq> 0 then ''httponly'' else ''readable'',
               lc_endpoint conf, lc_policy conf,
               nat_str (unat (lc_ipv4_prefix conf)), nat_str (unat (lc_ipv6_prefix conf))])
      else base)"

text \<open>The part of the merge that no error can follow once the prefixes are in range.\<close>

definition inherit :: "location_conf \<Rightarrow> location_conf \<Rightarrow> location_conf" where
  "inherit prev conf =
     conf\<lparr>lc_enabled := merge_flag (lc_enabled conf) (lc_enabled prev) 0,
          lc_trusted := merge_ptr (lc_trusted conf) (lc_trusted prev),
          lc_decision := merge_ptr (lc_decision conf) (lc_decision prev),
          lc_page_path := merge_str (lc_page_path conf) (lc_page_path prev) [],
          lc_nojs_page_path := merge_str (lc_nojs_page_path conf) (lc_nojs_page_path prev) [],
          lc_difficulty := merge_uint (lc_difficulty conf) (lc_difficulty prev) 50000,
          lc_ipv4_prefix := merge_uint (lc_ipv4_prefix conf) (lc_ipv4_prefix prev) 32,
          lc_ipv6_prefix := merge_uint (lc_ipv6_prefix conf) (lc_ipv6_prefix prev) 128,
          lc_policy := merge_str (lc_policy conf) (lc_policy prev) ''default'',
          lc_hmac_key_file := merge_str (lc_hmac_key_file conf) (lc_hmac_key_file prev) [],
          lc_clearance_ttl := merge_sec (lc_clearance_ttl conf) (lc_clearance_ttl prev) 43200,
          lc_proof_skew := merge_sec (lc_proof_skew conf) (lc_proof_skew prev) 5,
          lc_require_proof := merge_flag (lc_require_proof conf) (lc_require_proof prev) 0,
          lc_endpoint := merge_str (lc_endpoint conf) (lc_endpoint prev) ''/.pow/'',
          lc_replay := merge_flag (lc_replay conf) (lc_replay prev) 1,
          lc_replay_max_body := merge_size (lc_replay_max_body conf) (lc_replay_max_body prev) (1024 * 1024),
          lc_cookie_name := merge_str (lc_cookie_name conf) (lc_cookie_name prev) ''pow_clearance'',
          lc_cookie_scope_suffix := merge_flag (lc_cookie_scope_suffix conf) (lc_cookie_scope_suffix prev) 1,
          lc_cookie_domain := merge_str (lc_cookie_domain conf) (lc_cookie_domain prev) [],
          lc_cookie_path := merge_str (lc_cookie_path conf) (lc_cookie_path prev) ''/'',
          lc_cookie_samesite := merge_str (lc_cookie_samesite conf) (lc_cookie_samesite prev) ''Lax'',
          lc_cookie_secure := merge_flag (lc_cookie_secure conf) (lc_cookie_secure prev) 1,
          lc_cookie_httponly := merge_flag (lc_cookie_httponly conf) (lc_cookie_httponly prev) 1\<rparr>"

text \<open>\<open>alloc\<close> says whether the configuration pool can hold that many bytes, \<open>fs\<close> is the file system
  while the configuration is read.\<close>

definition merge_location_conf ::
  "externals \<Rightarrow> assets \<Rightarrow> (string \<Rightarrow> bytes option) \<Rightarrow> (usize \<Rightarrow> bool) \<Rightarrow> location_conf \<Rightarrow> location_conf \<Rightarrow>
   location_conf option" where
  "merge_location_conf X A fs alloc prev conf =
     (let conf = inherit prev conf in
      if \<not> (1 \<le> lc_ipv4_prefix conf \<and> lc_ipv4_prefix conf \<le> 32)
         \<or> \<not> (1 \<le> lc_ipv6_prefix conf \<and> lc_ipv6_prefix conf \<le> 128) then None
      else
        (let name = effective_cookie_name X conf in
         if \<not> alloc (length name) then None
         else
           (let conf = conf\<lparr>lc_cookie_effective_name := name\<rparr> in
            if lc_enabled conf = 0 then Some conf
            else if lc_difficulty conf = 0 \<or> lc_clearance_ttl conf \<le> 0 then None
            else if \<not> (case fs (lc_hmac_key_file conf) of
                          Some key \<Rightarrow> length key \<ge> MIN_HMAC_KEY_LEN | None \<Rightarrow> False) then None
            else
              (case load_page X A fs alloc (lc_page_path conf) (lc_difficulty conf) (lc_endpoint conf) of
                 None \<Rightarrow> None
               | Some page \<Rightarrow>
                   (case load_nojs_page A fs alloc (lc_nojs_page_path conf) of
                      None \<Rightarrow> None
                    | Some nojs \<Rightarrow> Some (conf\<lparr>lc_page_cache := page, lc_nojs_page_cache := nojs\<rparr>))))))"

subsection \<open>Properties\<close>

definition command_fields :: "conf_field list" where
  "command_fields = List.map_filter (\<lambda>(_, _, _, _, f). f) NGX_HTTP_POW_GATE_COMMANDS"

lemmas command_tables = NGX_HTTP_POW_GATE_COMMANDS_def GATE_COMMANDS_def COOKIE_COMMANDS_def MAIN_COMMANDS_def
  HTTP_SERVER_LOCATION_def SERVER_LOCATION_def

lemma command_fields_eq:
  "command_fields =
     [F_enabled, F_trusted, F_decision, F_page_path, F_nojs_page_path, F_difficulty, F_hmac_key_file,
      F_clearance_ttl, F_proof_skew, F_require_proof, F_ipv4_prefix, F_ipv6_prefix, F_policy, F_endpoint,
      F_replay, F_replay_max_body, F_cookie_name, F_cookie_scope_suffix, F_cookie_domain, F_cookie_path,
      F_cookie_samesite, F_cookie_secure, F_cookie_httponly]"
  by (simp add: command_fields_def command_tables List.map_filter_def)

text \<open>No two directives write the same field, and every configurable field has its directive.\<close>

lemma commands_cover_fields: "distinct command_fields" "f \<in> set command_fields"
  by (simp add: command_fields_eq) (cases f; simp add: command_fields_eq)

lemma merge_inherits:
  assumes "merge_location_conf X A fs alloc prev conf = Some lc"
  defines "c \<equiv> inherit prev conf"
  shows "\<exists>page nojs. lc = c\<lparr>lc_cookie_effective_name := effective_cookie_name X c,
      lc_page_cache := page, lc_nojs_page_cache := nojs\<rparr>"
proof (cases "lc_enabled c = 0")
  case True
  then have "lc = c\<lparr>lc_cookie_effective_name := effective_cookie_name X c, lc_page_cache := lc_page_cache c,
      lc_nojs_page_cache := lc_nojs_page_cache c\<rparr>"
    using assms(1) by (simp add: merge_location_conf_def Let_def c_def [symmetric] split: if_splits)
  then show ?thesis by blast
next
  case False
  then show ?thesis using assms(1)
    by (auto simp: merge_location_conf_def Let_def c_def [symmetric] split: if_splits option.splits)
qed

lemma merge_enabled:
  assumes "merge_location_conf X A fs alloc prev conf = Some lc" "lc_enabled lc \<noteq> 0"
  shows "1 \<le> lc_ipv4_prefix lc" "lc_ipv4_prefix lc \<le> 32" "1 \<le> lc_ipv6_prefix lc" "lc_ipv6_prefix lc \<le> 128"
    "lc_difficulty lc \<noteq> 0" "0 < lc_clearance_ttl lc"
    "\<exists>key. fs (lc_hmac_key_file lc) = Some key \<and> MIN_HMAC_KEY_LEN \<le> length key"
    "load_page X A fs alloc (lc_page_path lc) (lc_difficulty lc) (lc_endpoint lc) = Some (lc_page_cache lc)"
    "load_nojs_page A fs alloc (lc_nojs_page_path lc) = Some (lc_nojs_page_cache lc)"
  using assms by (auto simp: merge_location_conf_def Let_def split: if_splits option.splits)

lemma merged_name:
  assumes "merge_location_conf X A fs alloc prev conf = Some lc"
  shows "lc_cookie_effective_name lc = effective_cookie_name X lc \<and> lc_cookie_effective_name lc \<noteq> []"
proof -
  obtain page nojs where lc: "lc = (inherit prev conf)\<lparr>lc_cookie_effective_name := effective_cookie_name X (inherit prev conf),
      lc_page_cache := page, lc_nojs_page_cache := nojs\<rparr>" using merge_inherits [OF assms] by blast
  have "lc_cookie_name (inherit prev conf) \<noteq> []" by (simp add: inherit_def merge_str_def)
  then show ?thesis by (simp add: lc effective_cookie_name_def scoped_name_def Let_def)
qed

lemma small_ucast: "a \<le> (200 :: u64) \<Longrightarrow> unat (ucast a :: u8) = unat a"
  by (simp add: unsigned_ucast_eq word_le_nat_alt take_bit_nat_eq_self)

text \<open>
  C24. A gate that is allowed to start can do its work. When a location is merged successfully and
  its gate is on, then, as long as the key file is what it was when the configuration was read, a
  worker resolves it to a configuration with a usable key, prefixes that every address can be cut
  to, a positive difficulty and a positive lifetime, under the merged cookie name, and the pages it
  serves are the rendered ones.
\<close>

theorem merged_gate_is_usable:
  assumes "merge_location_conf X A fs alloc prev conf = Some lc" "lc_enabled lc \<noteq> 0"
    and "fst (build_cfg X fs lc []) = c"
  shows "cf_key_ok c \<and> Some (cf_key c) = fs (lc_hmac_key_file lc) \<and> policy_valid (cf_address c) \<and>
    0 < cf_difficulty c \<and> 0 < cf_clearance_ttl c \<and>
    cc_name (cf_cookie c) = effective_cookie_name X lc \<and>
    load_page X A fs alloc (lc_page_path lc) (lc_difficulty lc) (lc_endpoint lc) = Some (lc_page_cache lc) \<and>
    load_nojs_page A fs alloc (lc_nojs_page_path lc) = Some (lc_nojs_page_cache lc)"
proof -
  note ok = merge_enabled [OF assms(1,2)]
  obtain key where key: "fs (lc_hmac_key_file lc) = Some key" "MIN_HMAC_KEY_LEN \<le> length key" using ok(7) by blast
  have c: "cf_key c = key" "cf_key_ok c" "cf_difficulty c = lc_difficulty lc" "cf_clearance_ttl c = lc_clearance_ttl lc"
    "cf_address c = \<lparr>ipv4_prefix = ucast (lc_ipv4_prefix lc), ipv6_prefix = ucast (lc_ipv6_prefix lc)\<rparr>"
    "cc_name (cf_cookie c) = nonempty (lc_cookie_effective_name lc) ''pow_clearance''"
    using key assms(3) by (auto simp: build_cfg_def load_key_def Let_def)
  have "policy_valid (cf_address c)"
    using ok(1-4) small_ucast [of "lc_ipv4_prefix lc"] small_ucast [of "lc_ipv6_prefix lc"]
    by (auto simp: c policy_valid_def word_le_nat_alt)
  with merged_name [OF assms(1)] ok(5,6,8,9) key show ?thesis by (auto simp: c nonempty_def word_neq_0_conv)
qed

definition first_set :: "'a \<Rightarrow> 'a \<Rightarrow> 'a list \<Rightarrow> 'a" where
  "first_set none dflt vs = (case find (\<lambda>v. v \<noteq> none) vs of Some v \<Rightarrow> v | None \<Rightarrow> dflt)"

lemma merge_chain:
  "merge_flag a (merge_flag b c d) d = first_set NGX_CONF_UNSET d [a, b, c]"
  "merge_uint e (merge_uint f g h) h = first_set UNSET_UINT h [e, f, g]"
  "merge_size i (merge_size j k l) l = first_set UNSET_SIZE l [i, j, k]"
  "merge_sec a (merge_sec b c d) d = first_set NGX_CONF_UNSET d [a, b, c]"
  "merge_ptr m (merge_ptr n p) = first_set None None [m, n, p]"
  "merge_str q (merge_str r s t) t = first_set [] t [q, r, s]"
  by (auto simp: merge_flag_def merge_uint_def merge_size_def merge_sec_def merge_ptr_def merge_str_def first_set_def
      split: option.splits)

text \<open>
  C25. Directives are inherited. After merging the \<open>http\<close> level into a server and the server into a
  location, the location holds for every directive the value set innermost, and the documented
  default where no level sets it.
\<close>

theorem directives_are_inherited:
  assumes "merge_location_conf X A fs alloc http srv = Some srv'" "merge_location_conf X A fs alloc srv' loc = Some lc"
  shows "lc_enabled lc = first_set NGX_CONF_UNSET 0 [lc_enabled loc, lc_enabled srv, lc_enabled http] \<and>
    lc_trusted lc = first_set None None [lc_trusted loc, lc_trusted srv, lc_trusted http] \<and>
    lc_decision lc = first_set None None [lc_decision loc, lc_decision srv, lc_decision http] \<and>
    lc_page_path lc = first_set [] [] [lc_page_path loc, lc_page_path srv, lc_page_path http] \<and>
    lc_nojs_page_path lc = first_set [] [] [lc_nojs_page_path loc, lc_nojs_page_path srv, lc_nojs_page_path http] \<and>
    lc_difficulty lc = first_set UNSET_UINT 50000 [lc_difficulty loc, lc_difficulty srv, lc_difficulty http] \<and>
    lc_ipv4_prefix lc = first_set UNSET_UINT 32 [lc_ipv4_prefix loc, lc_ipv4_prefix srv, lc_ipv4_prefix http] \<and>
    lc_ipv6_prefix lc = first_set UNSET_UINT 128 [lc_ipv6_prefix loc, lc_ipv6_prefix srv, lc_ipv6_prefix http] \<and>
    lc_policy lc = first_set [] ''default'' [lc_policy loc, lc_policy srv, lc_policy http] \<and>
    lc_hmac_key_file lc = first_set [] [] [lc_hmac_key_file loc, lc_hmac_key_file srv, lc_hmac_key_file http] \<and>
    lc_clearance_ttl lc = first_set NGX_CONF_UNSET 43200 [lc_clearance_ttl loc, lc_clearance_ttl srv, lc_clearance_ttl http] \<and>
    lc_proof_skew lc = first_set NGX_CONF_UNSET 5 [lc_proof_skew loc, lc_proof_skew srv, lc_proof_skew http] \<and>
    lc_require_proof lc = first_set NGX_CONF_UNSET 0 [lc_require_proof loc, lc_require_proof srv, lc_require_proof http] \<and>
    lc_endpoint lc = first_set [] ''/.pow/'' [lc_endpoint loc, lc_endpoint srv, lc_endpoint http] \<and>
    lc_replay lc = first_set NGX_CONF_UNSET 1 [lc_replay loc, lc_replay srv, lc_replay http] \<and>
    lc_replay_max_body lc = first_set UNSET_SIZE (1024 * 1024) [lc_replay_max_body loc, lc_replay_max_body srv, lc_replay_max_body http] \<and>
    lc_cookie_name lc = first_set [] ''pow_clearance'' [lc_cookie_name loc, lc_cookie_name srv, lc_cookie_name http] \<and>
    lc_cookie_scope_suffix lc = first_set NGX_CONF_UNSET 1 [lc_cookie_scope_suffix loc, lc_cookie_scope_suffix srv, lc_cookie_scope_suffix http] \<and>
    lc_cookie_domain lc = first_set [] [] [lc_cookie_domain loc, lc_cookie_domain srv, lc_cookie_domain http] \<and>
    lc_cookie_path lc = first_set [] ''/'' [lc_cookie_path loc, lc_cookie_path srv, lc_cookie_path http] \<and>
    lc_cookie_samesite lc = first_set [] ''Lax'' [lc_cookie_samesite loc, lc_cookie_samesite srv, lc_cookie_samesite http] \<and>
    lc_cookie_secure lc = first_set NGX_CONF_UNSET 1 [lc_cookie_secure loc, lc_cookie_secure srv, lc_cookie_secure http] \<and>
    lc_cookie_httponly lc = first_set NGX_CONF_UNSET 1 [lc_cookie_httponly loc, lc_cookie_httponly srv, lc_cookie_httponly http]"
proof -
  obtain p n where srv': "srv' = (inherit http srv)\<lparr>lc_cookie_effective_name := effective_cookie_name X (inherit http srv),
      lc_page_cache := p, lc_nojs_page_cache := n\<rparr>" using merge_inherits [OF assms(1)] by blast
  obtain q m where lc: "lc = (inherit srv' loc)\<lparr>lc_cookie_effective_name := effective_cookie_name X (inherit srv' loc),
      lc_page_cache := q, lc_nojs_page_cache := m\<rparr>" using merge_inherits [OF assms(2)] by blast
  show ?thesis unfolding lc srv' by (simp add: inherit_def merge_chain)
qed

subsection \<open>Examples\<close>

definition fresh_conf :: location_conf where
  "fresh_conf = the (create_location_conf True True 0)"

text \<open>\<open>pow_gate on\<close> in the server with a key file and no suffix on the cookie name, and a stricter
  location.\<close>

definition server_conf :: location_conf where
  "server_conf = fresh_conf\<lparr>lc_enabled := 1, lc_hmac_key_file := ''k'', lc_cookie_scope_suffix := 0\<rparr>"

definition strict_conf :: location_conf where
  "strict_conf = fresh_conf\<lparr>lc_difficulty := 200000\<rparr>"

definition empty_assets :: assets where
  "empty_assets = \<lparr>as_page = [], as_nojs_page = [], as_solver = [], as_version = []\<rparr>"

definition key_fs :: "string \<Rightarrow> bytes option" where
  "key_fs path = (if path = ''k'' then Some (replicate 16 7) else None)"

lemma empty_page: "load_page X empty_assets key_fs (\<lambda>_. True) [] d e = Some []"
  by (simp add: load_page_def empty_assets_def replace_all_def replace_loop.simps [of _ _ "[]"] Let_def)

lemma empty_nojs_page: "load_nojs_page empty_assets key_fs (\<lambda>_. True) [] = Some []"
  by (simp add: load_nojs_page_def empty_assets_def)

lemma merge_examples:
  "\<exists>srv' lc. merge_location_conf sample empty_assets key_fs (\<lambda>_. True) fresh_conf server_conf = Some srv' \<and>
     merge_location_conf sample empty_assets key_fs (\<lambda>_. True) srv' strict_conf = Some lc \<and>
     lc_enabled lc = 1 \<and> lc_difficulty lc = 200000"
proof -
  note unfold = merge_location_conf_def inherit_def server_conf_def strict_conf_def fresh_conf_def create_location_conf_def
    merge_flag_def merge_uint_def merge_size_def merge_sec_def merge_ptr_def merge_str_def NGX_CONF_UNSET_def UNSET_UINT_def
    UNSET_SIZE_def effective_cookie_name_def key_fs_def MIN_HMAC_KEY_LEN_def
  obtain srv' where srv': "merge_location_conf sample empty_assets key_fs (\<lambda>_. True) fresh_conf server_conf = Some srv'"
    "lc_enabled srv' = 1" "lc_page_path srv' = []" "lc_nojs_page_path srv' = []" "lc_hmac_key_file srv' = ''k''"
    "lc_clearance_ttl srv' = 43200" "lc_ipv4_prefix srv' = 32" "lc_ipv6_prefix srv' = 128" "lc_cookie_scope_suffix srv' = 0"
    by (simp add: unfold Let_def empty_page empty_nojs_page)
  then show ?thesis by (simp add: unfold Let_def empty_page empty_nojs_page)
qed

theorem merged_gate_is_usable_witness:
  "\<exists>lc. lc_difficulty lc = 200000 \<and> cf_key_ok (fst (build_cfg sample key_fs lc [])) \<and>
     policy_valid (cf_address (fst (build_cfg sample key_fs lc [])))"
proof -
  obtain srv' lc where ex: "merge_location_conf sample empty_assets key_fs (\<lambda>_. True) srv' strict_conf = Some lc"
    "lc_enabled lc = 1" "lc_difficulty lc = 200000" using merge_examples by blast
  have "lc_enabled lc \<noteq> 0" by (simp add: ex(2))
  from merged_gate_is_usable [OF ex(1) this refl] ex(3) show ?thesis by blast
qed

theorem directives_are_inherited_witness:
  "\<exists>lc :: location_conf. lc_enabled lc = first_set NGX_CONF_UNSET 0 [lc_enabled strict_conf, lc_enabled server_conf, lc_enabled fresh_conf] \<and>
     lc_enabled lc = 1"
proof -
  obtain srv' lc where ex: "merge_location_conf sample empty_assets key_fs (\<lambda>_. True) fresh_conf server_conf = Some srv'"
    "merge_location_conf sample empty_assets key_fs (\<lambda>_. True) srv' strict_conf = Some lc" "lc_enabled lc = 1"
    using merge_examples by blast
  show ?thesis by (rule exI [of _ lc], rule conjI, rule conjunct1 [OF directives_are_inherited [OF ex(1,2)]], rule ex(3))
qed

end
