(* ===== verification/Registration.thy ===== *)
theory Registration
  imports Cluster_Site Config
begin

text \<open>
  How nginx comes to call the module: the variables of \<open>observability.rs\<close> (\<open>register\<close>), the body
  filter (\<open>body_limit.rs\<close>, \<open>install\<close>), the access handler (\<open>install_access_handler\<close> of
  \<open>access.rs\<close>), \<open>postconfiguration\<close> of \<open>lib.rs\<close>, which runs them once the configuration is read, and
  the two descriptors through which nginx finds all these functions.
  The state is the part of nginx's tables these functions write; the handlers of other modules
  are numbered.
\<close>

datatype phase_handler = PowGateAccess | OtherHandler nat

datatype filter_handler = PowGateFilter | OtherFilter nat

record hooks =
  hk_access_phase :: "phase_handler list"
  hk_top_body_filter :: "filter_handler option"
  hk_next_body_filter :: "filter_handler option"
  hk_variables :: "(string \<times> nat) list"

text \<open>\<open>added\<close> says for which names \<open>ngx_http_add_variable\<close> gives a variable.\<close>

fun register_loop :: "(string \<Rightarrow> bool) \<Rightarrow> (nat \<times> string) list \<Rightarrow> hooks \<Rightarrow> int \<times> hooks" where
  "register_loop added [] h = (NGX_OK, h)"
| "register_loop added ((data, name) # rest) h =
     (if \<not> added name then (NGX_ERROR, h)
      else register_loop added rest (h\<lparr>hk_variables := hk_variables h @ [(name, data)]\<rparr>))"

definition register_variables :: "(string \<Rightarrow> bool) \<Rightarrow> hooks \<Rightarrow> int \<times> hooks" where
  "register_variables added h = register_loop added (enumerate 0 VARIABLES) h"

definition install_body_filter :: "hooks \<Rightarrow> hooks" where
  "install_body_filter h =
     h\<lparr>hk_next_body_filter := hk_top_body_filter h, hk_top_body_filter := Some PowGateFilter\<rparr>"

text \<open>\<open>core\<close>: the configuration of nginx's core module was found; \<open>pushed\<close>: the array had room.\<close>

definition install_access_handler :: "bool \<Rightarrow> bool \<Rightarrow> hooks \<Rightarrow> int \<times> hooks" where
  "install_access_handler core pushed h =
     (if \<not> core then (NGX_ERROR, h)
      else if \<not> pushed then (NGX_ERROR, h)
      else (NGX_OK, h\<lparr>hk_access_phase := hk_access_phase h @ [PowGateAccess]\<rparr>))"

definition postconfiguration ::
  "bool \<Rightarrow> bool \<Rightarrow> bool \<Rightarrow> main_conf \<Rightarrow> hooks \<Rightarrow> int \<times> main_conf \<times> hooks" where
  "postconfiguration shm core pushed main h =
     (let (rc, main) = redemption_configure shm main in
      if rc \<noteq> NGX_OK then (rc, main, h)
      else let (rc, h) = install_access_handler core pushed (install_body_filter h) in (rc, main, h))"

subsection \<open>The module's descriptors\<close>

text \<open>
  A field that the module leaves empty has type \<open>unit option\<close>; the reserved words, the version and
  the signature, which nginx only compares, are left out.
\<close>

record http_module =
  hm_preconfiguration :: "((string \<Rightarrow> bool) \<Rightarrow> hooks \<Rightarrow> int \<times> hooks) option"
  hm_postconfiguration :: "(bool \<Rightarrow> bool \<Rightarrow> bool \<Rightarrow> main_conf \<Rightarrow> hooks \<Rightarrow> int \<times> main_conf \<times> hooks) option"
  hm_create_main_conf :: "(bool \<Rightarrow> main_conf option) option"
  hm_init_main_conf :: "unit option"
  hm_create_srv_conf :: "unit option"
  hm_merge_srv_conf :: "unit option"
  hm_create_loc_conf :: "(bool \<Rightarrow> bool \<Rightarrow> nat \<Rightarrow> location_conf option) option"
  hm_merge_loc_conf :: "(externals \<Rightarrow> assets \<Rightarrow> (string \<Rightarrow> bytes option) \<Rightarrow> (usize \<Rightarrow> bool) \<Rightarrow> location_conf \<Rightarrow> location_conf \<Rightarrow>
    location_conf option) option"

record ngx_module =
  nm_ctx :: http_module
  nm_commands :: "ngx_command list"
  nm_init_master :: "unit option"
  nm_init_module :: "unit option"
  nm_init_process :: "(main_conf option \<Rightarrow> worker \<Rightarrow> int \<times> worker) option"
  nm_init_thread :: "unit option"
  nm_exit_thread :: "unit option"
  nm_exit_process :: "unit option"
  nm_exit_master :: "unit option"

definition NGX_HTTP_POW_GATE_MODULE_CTX :: http_module where
  "NGX_HTTP_POW_GATE_MODULE_CTX =
     \<lparr>hm_preconfiguration = Some register_variables, hm_postconfiguration = Some postconfiguration,
      hm_create_main_conf = Some create_main_conf, hm_init_main_conf = None, hm_create_srv_conf = None,
      hm_merge_srv_conf = None, hm_create_loc_conf = Some create_location_conf,
      hm_merge_loc_conf = Some merge_location_conf\<rparr>"

definition ngx_http_pow_gate_module :: ngx_module where
  "ngx_http_pow_gate_module =
     \<lparr>nm_ctx = NGX_HTTP_POW_GATE_MODULE_CTX, nm_commands = NGX_HTTP_POW_GATE_COMMANDS,
      nm_init_master = None, nm_init_module = None, nm_init_process = Some init_process, nm_init_thread = None,
      nm_exit_thread = None, nm_exit_process = None, nm_exit_master = None\<rparr>"

subsection \<open>What a successful start has installed\<close>

text \<open>
  Each variable is registered under the number by which \<open>get_variable\<close> tells it apart; when one
  is refused, those before it stay registered and the start fails.
\<close>

lemma register_loop_registers:
  "register_loop added vs h =
     (if list_all (added \<circ> snd) vs then NGX_OK else NGX_ERROR,
      h\<lparr>hk_variables := hk_variables h @ map prod.swap (takeWhile (added \<circ> snd) vs)\<rparr>)"
  by (induction vs arbitrary: h) auto

lemma variables_registered:
  "fst (register_variables added h) = NGX_OK \<longleftrightarrow> list_all added VARIABLES"
  "list_all added VARIABLES \<Longrightarrow> hk_variables (snd (register_variables added h)) =
     hk_variables h @ [(''pow_gate_result'', 0), (''pow_gate_reason'', 1), (''pow_gate_difficulty'', 2),
       (''pow_gate_cookie_name'', 3)]"
  by (simp_all add: register_variables_def register_loop_registers VARIABLES_def)

text \<open>
  A start that succeeds has put the handler in the access phase and the filter before the one that
  was on top, and has a store: Redis, or a zone that waits for its data.
\<close>

lemma postconfiguration_installs:
  assumes "postconfiguration shm core pushed main h = (NGX_OK, main', h')"
  shows "hk_access_phase h' = hk_access_phase h @ [PowGateAccess]"
    and "hk_top_body_filter h' = Some PowGateFilter" "hk_next_body_filter h' = hk_top_body_filter h"
    and "if mc_cluster main = None then mc_zone main' = Some None else main' = main"
  using assms by (auto simp: postconfiguration_def redemption_configure_def install_access_handler_def
      install_body_filter_def Let_def split: if_splits)

text \<open>
  C23. From the configuration to the running site. When nginx calls what the module's descriptors
  name (the main configuration is created, the directives are read, postconfiguration succeeds,
  and without a Redis block the zone is initialised with data), then every worker starts, in the state
  from which the properties of the site are proved: with the shared zone, no other store and
  nothing cached, or with a Redis block as one of the workers of a cluster, with a fresh client for
  that block. The access handler and
  the body filter are in place, and a reload keeps the ledger of the cycle before it.
\<close>

theorem boot_starts_site:
  assumes "M = ngx_http_pow_gate_module"
    and created: "hm_create_main_conf (nm_ctx M) = Some create" "create alloc = Some main0"
    and directives: "mc_zone main = mc_zone main0"
    and post: "hm_postconfiguration (nm_ctx M) = Some post" "post shm core pushed main h = (NGX_OK, main', h')"
    and zone: "mc_cluster main = None \<Longrightarrow> init_zone old existing slab rng = (NGX_OK, Some data)"
      "main'' = main'\<lparr>mc_zone := map_option (\<lambda>_. Some data) (mc_zone main')\<rparr>"
    and worker: "nm_init_process M = Some start" "start (Some main'') new_worker = (rc, w)"
  shows "rc = NGX_OK \<and> worker_ok w \<and> hk_access_phase h' = hk_access_phase h @ [PowGateAccess] \<and>
    hk_top_body_filter h' = Some PowGateFilter \<and> hk_next_body_filter h' = hk_top_body_filter h \<and>
    (case mc_cluster main of
       None \<Rightarrow>
         zone_mode \<lparr>st_zone = Some data, st_worker = (\<lambda>k. w)\<rparr> \<and> enter \<lparr>st_zone = Some data, st_worker = (\<lambda>k. w)\<rparr> k = w \<and>
         (case old of Some before \<Rightarrow> data = before | None \<Rightarrow> True)
     | Some config \<Rightarrow> wk_cluster w = Some (cluster_activate config) \<and> w = cs_worker (cluster_site_start main'' config server) k)"
proof -
  have post': "postconfiguration shm core pushed main h = (NGX_OK, main', h')" and start: "start = init_process"
    using assms by (simp_all add: ngx_http_pow_gate_module_def NGX_HTTP_POW_GATE_MODULE_CTX_def)
  note installed = postconfiguration_installs [OF post']
  have fresh: "worker_ok w" using worker(2) by (auto simp: start init_process_def redemption_activate_def new_worker_def
      worker_ok_def Let_def split: option.splits if_splits)
  show ?thesis
  proof (cases "mc_cluster main")
    case None
    then have "mc_zone main' = Some None" "mc_cluster main' = None"
      using installed(4) post'
      by (auto simp: postconfiguration_def redemption_configure_def Let_def split: if_splits prod.splits)
    then have "rc = NGX_OK \<and> wk_cluster w = None \<and> wk_zone w = Some (Some data)"
      using worker(2) by (auto simp: start zone(2) init_process_def redemption_activate_def new_worker_def Let_def)
    moreover have "case old of Some before \<Rightarrow> data = before | None \<Rightarrow> True"
      using zone(1) None by (auto simp: init_zone_def split: option.splits if_splits)
    ultimately show ?thesis
      using installed(1-3) fresh None by (simp add: zone_mode_def enter_def set_zone_data_def)
  next
    case (Some config)
    then have same: "main''\<lparr>mc_cluster := Some config\<rparr> = main''" using installed(4) by (simp add: zone(2))
    then have "mc_cluster main'' = Some config" by (metis main_conf.select_convs(2) main_conf.surjective main_conf.update_convs(2))
    then have "rc = NGX_OK \<and> wk_cluster w = Some (cluster_activate config)" using worker(2) by (auto simp: start init_process_def redemption_activate_def Let_def)
    moreover have "w = cs_worker (cluster_site_start main'' config server) k"
      using worker(2) by (simp add: start cluster_site_start_def same)
    ultimately show ?thesis using installed(1-3) fresh Some by simp
  qed
qed

theorem boot_starts_site_witness:
  "\<exists>main' h' w. postconfiguration True True True \<lparr>mc_verifiers = None, mc_cluster = None, mc_zone = None\<rparr>
       \<lparr>hk_access_phase = [OtherHandler 1], hk_top_body_filter = None, hk_next_body_filter = None, hk_variables = []\<rparr> =
       (NGX_OK, main', h') \<and>
     init_process (Some (main'\<lparr>mc_zone := map_option (\<lambda>_. snd (init_zone None None True (Some [9]))) (mc_zone main')\<rparr>)) new_worker = (NGX_OK, w) \<and>
     worker_ok w \<and> hk_access_phase h' = [OtherHandler 1, PowGateAccess]"
proof -
  let ?main = "\<lparr>mc_verifiers = None, mc_cluster = None, mc_zone = None\<rparr>"
  let ?h = "\<lparr>hk_access_phase = [OtherHandler 1], hk_top_body_filter = None, hk_next_body_filter = None, hk_variables = []\<rparr>"
  obtain data where data: "init_zone None None True (Some [9]) = (NGX_OK, Some data)" by (simp add: init_zone_def)
  obtain main' h' where post: "postconfiguration True True True ?main ?h = (NGX_OK, main', h')"
    by (simp add: postconfiguration_def redemption_configure_def install_access_handler_def install_body_filter_def)
  obtain rc w where start: "init_process (Some (main'\<lparr>mc_zone := map_option (\<lambda>_. Some data) (mc_zone main')\<rparr>)) new_worker = (rc, w)"
    by fastforce
  have fields: "hm_create_main_conf (nm_ctx ngx_http_pow_gate_module) = Some create_main_conf"
    "hm_postconfiguration (nm_ctx ngx_http_pow_gate_module) = Some postconfiguration"
    "nm_init_process ngx_http_pow_gate_module = Some init_process"
    by (simp_all add: ngx_http_pow_gate_module_def NGX_HTTP_POW_GATE_MODULE_CTX_def)
  have "create_main_conf True = Some ?main" by (simp add: create_main_conf_def)
  from boot_starts_site [OF refl fields(1) this _ fields(2) post _ refl fields(3) start] post start data show ?thesis by auto
qed

end
