(* ===== verification/Float64.thy ===== *)
theory Float64
  imports Prelude "HOL-Library.Log_Nat"
begin

text \<open>
  The part of Rust's \<open>f64\<close> that the load generator and the feed refreshers compute with:
  nonnegative IEEE 754 binary64 numbers, rounded to the nearest with ties to even, with gradual
  underflow and overflow to infinity. A finite number is the rational it denotes. The order, sums and products that the
  program needs of them are here; the main fact is that rounding is monotone.
\<close>

datatype f64 = Fin rat | Inf | NaN

subsection \<open>Rounding\<close>

text \<open>The exponent of the power of two at or below a positive number.\<close>

definition binade :: "rat \<Rightarrow> int" where
  "binade x =
     (let (a, b) = quotient_of x;
          d = bitlen a - bitlen b
      in if 2 powi d \<le> x then d else d - 1)"

definition ties_to_even :: "rat \<Rightarrow> int" where
  "ties_to_even x =
     (let f = \<lfloor>x\<rfloor>;
          d = x - of_int f
      in if d < 1 / 2 \<or> d = 1 / 2 \<and> even f then f else f + 1)"

text \<open>53 significant bits, and no bit below \<open>2 powi (- 1074)\<close>.\<close>

definition last_place :: "rat \<Rightarrow> int" where
  "last_place x = max (binade x - 52) (- 1074)"

definition round_f64 :: "rat \<Rightarrow> rat" where
  "round_f64 x = (if x = 0 then 0 else of_int (ties_to_even (x / 2 powi last_place x)) * 2 powi last_place x)"

definition f64_round :: "rat \<Rightarrow> f64" where
  "f64_round x = (if round_f64 x < 2 ^ 1024 then Fin (round_f64 x) else Inf)"

subsection \<open>Operations\<close>

definition f64_of_nat :: "nat \<Rightarrow> f64" where
  "f64_of_nat n = f64_round (of_nat n)"

fun f64_add :: "f64 \<Rightarrow> f64 \<Rightarrow> f64" where
  "f64_add (Fin a) (Fin b) = f64_round (a + b)"
| "f64_add NaN _ = NaN"
| "f64_add _ NaN = NaN"
| "f64_add _ _ = Inf"

fun f64_mul :: "f64 \<Rightarrow> f64 \<Rightarrow> f64" where
  "f64_mul (Fin a) (Fin b) = f64_round (a * b)"
| "f64_mul NaN _ = NaN"
| "f64_mul _ NaN = NaN"
| "f64_mul (Fin a) Inf = (if a = 0 then NaN else Inf)"
| "f64_mul Inf (Fin b) = (if b = 0 then NaN else Inf)"
| "f64_mul Inf Inf = Inf"

fun f64_div :: "f64 \<Rightarrow> f64 \<Rightarrow> f64" where
  "f64_div (Fin a) (Fin b) = (if b = 0 then (if a = 0 then NaN else Inf) else f64_round (a / b))"
| "f64_div NaN _ = NaN"
| "f64_div _ NaN = NaN"
| "f64_div (Fin a) Inf = Fin 0"
| "f64_div Inf (Fin b) = Inf"
| "f64_div Inf Inf = NaN"

text \<open>\<open>as usize\<close> truncates, saturates and takes not-a-number to 0.\<close>

fun f64_to_usize :: "f64 \<Rightarrow> nat" where
  "f64_to_usize (Fin a) = nat (min \<lfloor>a\<rfloor> (2 ^ 64 - 1))"
| "f64_to_usize Inf = nat (2 ^ 64 - 1)"
| "f64_to_usize NaN = 0"

fun f64_le :: "f64 \<Rightarrow> f64 \<Rightarrow> bool" where
  "f64_le (Fin a) (Fin b) \<longleftrightarrow> a \<le> b"
| "f64_le (Fin a) Inf \<longleftrightarrow> True"
| "f64_le Inf Inf \<longleftrightarrow> True"
| "f64_le _ _ \<longleftrightarrow> False"

subsection \<open>Rounding is monotone\<close>

lemma ties_to_even_int [simp]: "ties_to_even (of_int n) = n"
  by (simp add: ties_to_even_def)

lemma ties_to_even_bounds: "\<lfloor>x\<rfloor> \<le> ties_to_even x \<and> ties_to_even x \<le> \<lfloor>x\<rfloor> + 1"
  by (simp add: ties_to_even_def Let_def)

lemma ties_to_even_mono: "x \<le> y \<Longrightarrow> ties_to_even x \<le> ties_to_even y"
proof -
  assume le: "x \<le> y"
  show ?thesis
  proof (cases "\<lfloor>x\<rfloor> = \<lfloor>y\<rfloor>")
    case True
    with le show ?thesis by (auto simp: ties_to_even_def Let_def)
  next
    case False
    then have "\<lfloor>x\<rfloor> + 1 \<le> \<lfloor>y\<rfloor>" using floor_mono [OF le] by simp
    with ties_to_even_bounds [of x] ties_to_even_bounds [of y] show ?thesis by simp
  qed
qed

lemma bitlen_powi:
  assumes "0 < a"
  shows "2 powi (bitlen a - 1) \<le> (of_int a :: rat) \<and> (of_int a :: rat) < 2 powi (bitlen a)"
proof -
  have pos: "0 < bitlen a" using assms bitlen_nonneg [of a] by (simp add: bitlen_eq_zero_iff order_less_le)
  have "2 powi k = (of_int (2 ^ nat k) :: rat)" if "0 \<le> k" for k using that by (simp add: power_int_def)
  with pos bitlen_bounds [OF assms] show ?thesis by (simp del: of_int_power)
qed

lemma binade_bounds:
  assumes "0 < x"
  shows "2 powi binade x \<le> x \<and> x < 2 powi (binade x + 1)"
proof -
  obtain a b where q: "quotient_of x = (a, b)" by fastforce
  have b: "0 < b" using quotient_of_denom_pos [OF q] .
  have x: "x = of_int a / of_int b" using quotient_of_div [OF q] .
  have a: "0 < a" using assms b by (simp add: x zero_less_divide_iff)
  let ?d = "bitlen a - bitlen b"
  have "x < 2 powi bitlen a / 2 powi (bitlen b - 1)"
    unfolding x using bitlen_powi [OF a] bitlen_powi [OF b] a by (intro frac_less) simp_all
  then have up: "x < 2 powi (?d + 1)" by (simp add: power_int_diff [symmetric] algebra_simps)
  have "2 powi (bitlen a - 1) / 2 powi (bitlen b) \<le> x"
    unfolding x using bitlen_powi [OF a] bitlen_powi [OF b] a b by (intro frac_le) simp_all
  then have "2 powi (?d - 1) \<le> x" by (simp add: power_int_diff [symmetric] algebra_simps)
  with up show ?thesis by (simp add: binade_def q not_le Let_def)
qed

text \<open>A power of two that is a multiple of the last place bounds the rounded number as it bounds the number.\<close>

lemma powi_quotient: "k \<le> g \<Longrightarrow> 2 powi g / 2 powi k = (of_int (2 ^ nat (g - k)) :: rat)"
proof -
  assume "k \<le> g"
  then have "(2 :: rat) powi (g - k) = of_int (2 ^ nat (g - k))" by (simp add: power_int_def)
  then show ?thesis by (simp add: power_int_diff)
qed

lemma round_f64_pos: "0 < x \<Longrightarrow> round_f64 x = of_int (ties_to_even (x / 2 powi last_place x)) * 2 powi last_place x"
  by (simp add: round_f64_def)

lemma round_f64_below:
  assumes "0 < x" "x \<le> 2 powi g" "last_place x \<le> g"
  shows "round_f64 x \<le> 2 powi g"
proof -
  have "ties_to_even (x / 2 powi last_place x) \<le> ties_to_even (2 powi g / 2 powi last_place x)"
    using assms(2) by (intro ties_to_even_mono divide_right_mono) simp_all
  then have "of_int (ties_to_even (x / 2 powi last_place x)) \<le> (2 powi g / 2 powi last_place x :: rat)"
    unfolding powi_quotient [OF assms(3)] ties_to_even_int by (simp only: of_int_le_iff)
  then show ?thesis by (simp add: round_f64_pos [OF assms(1)] field_simps)
qed

lemma round_f64_above:
  assumes "0 < x" "2 powi g \<le> x" "last_place x \<le> g"
  shows "2 powi g \<le> round_f64 x"
proof -
  have "ties_to_even (2 powi g / 2 powi last_place x) \<le> ties_to_even (x / 2 powi last_place x)"
    using assms(2) by (intro ties_to_even_mono divide_right_mono) simp_all
  then have "(2 powi g / 2 powi last_place x :: rat) \<le> of_int (ties_to_even (x / 2 powi last_place x))"
    unfolding powi_quotient [OF assms(3)] ties_to_even_int by (simp only: of_int_le_iff)
  then show ?thesis by (simp add: round_f64_pos [OF assms(1)] field_simps)
qed

lemma binade_mono:
  assumes "0 < x" "x \<le> y"
  shows "binade x \<le> binade y"
proof -
  have "2 powi binade x < (2 :: rat) powi (binade y + 1)"
    using binade_bounds [of x] binade_bounds [of y] assms by simp
  then show ?thesis using power_int_increasing [of "binade y + 1" "binade x" "2 :: rat"] by linarith
qed

lemma round_f64_mono:
  assumes "0 \<le> x" "x \<le> y"
  shows "round_f64 x \<le> round_f64 y"
proof (cases "x = 0")
  case True
  have "0 \<le> ties_to_even (y / 2 powi last_place y)"
    using ties_to_even_mono [of 0 "y / 2 powi last_place y"] ties_to_even_int [of 0] assms by simp
  then show ?thesis by (simp add: round_f64_def True)
next
  case False
  then have pos: "0 < x" "0 < y" using assms by simp_all
  show ?thesis
  proof (cases "last_place x = last_place y")
    case True
    have "ties_to_even (x / 2 powi last_place y) \<le> ties_to_even (y / 2 powi last_place y)"
      using assms(2) by (intro ties_to_even_mono divide_right_mono) simp_all
    then show ?thesis by (simp add: round_f64_pos pos True)
  next
    case False
    have g: "binade x + 1 \<le> binade y" "last_place x \<le> binade y" "last_place y \<le> binade y"
      using False binade_mono [OF pos(1) assms(2)] by (auto simp: last_place_def max_def split: if_splits)
    have "x \<le> 2 powi binade y"
      using binade_bounds [OF pos(1)] power_int_increasing [OF g(1), of "2 :: rat"] by simp
    from round_f64_below [OF pos(1) this g(2)] round_f64_above [OF pos(2) _ g(3)] binade_bounds [OF pos(2)]
    show ?thesis by simp
  qed
qed

lemma round_f64_nonneg: "0 \<le> x \<Longrightarrow> 0 \<le> round_f64 x"
  using round_f64_mono [of 0 x] by (simp add: round_f64_def)

lemma f64_round_mono: "0 \<le> x \<Longrightarrow> x \<le> y \<Longrightarrow> f64_le (f64_round x) (f64_round y)"
  using round_f64_mono [of x y] by (auto simp: f64_round_def)

lemma f64_to_usize_mono: "f64_le a b \<Longrightarrow> f64_to_usize a \<le> f64_to_usize b"
  by (cases "(a, b)" rule: f64_le.cases) (auto intro!: nat_mono min.mono floor_mono simp del: nat_mono_iff)

text \<open>A count, scaled by two fractions in order.\<close>

lemma scale_mono:
  assumes "0 \<le> p" "p \<le> q" "f64_round p = Fin p'" "f64_round q = Fin q'"
  shows "f64_to_usize (f64_mul (f64_of_nat n) (Fin p')) \<le> f64_to_usize (f64_mul (f64_of_nat n) (Fin q'))"
proof -
  have "0 \<le> p'" "p' \<le> q'" using round_f64_mono [OF assms(1,2)] round_f64_nonneg [OF assms(1)] assms(3,4)
    by (auto simp: f64_round_def split: if_splits)
  then have "f64_le (f64_mul (f64_of_nat n) (Fin p')) (f64_mul (f64_of_nat n) (Fin q'))" if "p' \<noteq> 0"
    using that round_f64_nonneg [of "of_nat n"]
    by (auto simp: f64_of_nat_def f64_round_def [of "of_nat n"] intro!: f64_round_mono mult_left_mono)
  moreover have "f64_to_usize (f64_mul (f64_of_nat n) (Fin p')) = 0" if "p' = 0"
    using that by (cases "f64_of_nat n") (auto simp: f64_round_def round_f64_def)
  ultimately show ?thesis using f64_to_usize_mono by fastforce
qed

end
