(* ===== verification/Load.thy ===== *)
theory Load
  imports Engine Float64
begin

text \<open>
  \<open>perf/src/main.rs\<close>: the load generator, which is also a client of the gate written in Rust. It
  takes a challenge, solves it, posts the solution and then sends requests of four kinds from
  several threads, with the clearance cookie and a signed proof, and reports latencies.

  The HTTP client \<open>ureq\<close>, the network behind it and the clocks are a record \<open>net\<close> over a state
  \<open>'w\<close>; the signing half of \<open>p256\<close> and the JSON of the two messages are a record \<open>key_crates\<close>.
  A panic is the left side of a sum. What is printed is returned as data.
\<close>

subsection \<open>Third-party functions\<close>

record http_request =
  hr_method :: string
  hr_url :: string
  hr_headers :: "(string \<times> string) list"
  hr_body :: bytes

record http_response =
  rs_status :: nat
  rs_header :: "string \<Rightarrow> string option"

text \<open>
  \<open>call\<close> (nothing on an error, which for \<open>ureq\<close> includes an error status); the body of a response,
  as the bytes that arrive and whether the connection breaks after them; a monotonic clock in
  nanoseconds; the Unix time in seconds.
\<close>

record 'w net =
  nt_call :: "http_request \<Rightarrow> 'w \<Rightarrow> http_response option \<times> 'w"
  nt_body :: "http_response \<Rightarrow> 'w \<Rightarrow> bytes \<times> bool \<times> 'w"
  nt_instant :: "'w \<Rightarrow> nat"
  nt_unix :: "'w \<Rightarrow> i64"

text \<open>
  The uncompressed point of the verifying key, \<open>sign\<close> with \<open>Signature::to_bytes\<close>, the challenge
  read from JSON, and the JSON object of the submission.
\<close>

record 'k key_crates =
  kc_public :: "'k \<Rightarrow> bytes"
  kc_sign :: "'k \<Rightarrow> bytes \<Rightarrow> bytes"
  kc_challenge :: "bytes \<Rightarrow> challenge option"
  kc_submission :: "submission \<Rightarrow> bytes"

subsection \<open>The handshake\<close>

text \<open>The five fields of the tool's own \<open>Challenge\<close> are those of the core library's.\<close>

type_synonym perf_challenge = challenge

record 'k identity =
  id_cookie :: string
  id_signing :: 'k

definition env_var :: "(string \<Rightarrow> string option) \<Rightarrow> string \<Rightarrow> string \<Rightarrow> string" where
  "env_var vars k dflt = (case vars k of Some v \<Rightarrow> v | None \<Rightarrow> dflt)"

text \<open>\<open>nonce += 1\<close> wraps, so that a challenge without a solution is searched for ever.\<close>

partial_function (option) search_nonce :: "externals \<Rightarrow> string \<Rightarrow> u64 \<Rightarrow> u64 \<Rightarrow> u64 option" where
  "search_nonce X salt difficulty nonce =
     (if solution_valid X salt nonce difficulty then Some nonce
      else search_nonce X salt difficulty (nonce + 1))"

definition solved :: "externals \<Rightarrow> 'k key_crates \<Rightarrow> 'k \<Rightarrow> perf_challenge \<Rightarrow> u64 \<Rightarrow> submission" where
  "solved X K sk ch nonce =
     \<lparr>sb_version = ch_version ch,
      sb_signature = b64_encode X (kc_sign K sk (as_bytes (challenge_message (ch_token ch)))),
      sb_salt = ch_salt ch, sb_exp = ch_exp ch, sb_token = ch_token ch, sb_nonce = nonce,
      sb_pubkey = b64_encode X (kc_public K sk), sb_difficulty = ch_difficulty ch\<rparr>"

definition key_request :: "externals \<Rightarrow> string \<Rightarrow> bytes \<Rightarrow> http_request" where
  "key_request X base pk =
     \<lparr>hr_method = ''GET'', hr_url = base @ ''/.pow/challenge'', hr_headers = [(''X-Pow-Key'', b64_encode X pk)], hr_body = []\<rparr>"

definition solution_request :: "'k key_crates \<Rightarrow> string \<Rightarrow> submission \<Rightarrow> http_request" where
  "solution_request K base sub =
     \<lparr>hr_method = ''POST'', hr_url = base @ ''/.pow/verify'', hr_headers = [], hr_body = kc_submission K sub\<rparr>"

text \<open>\<open>sk\<close> is the fresh signing key; \<open>None\<close> when the search does not end.\<close>

definition handshake ::
  "externals \<Rightarrow> 'k key_crates \<Rightarrow> 'w net \<Rightarrow> string \<Rightarrow> 'k \<Rightarrow> 'w \<Rightarrow> ((string + 'k identity) \<times> 'w) option" where
  "handshake X K T base sk w =
     (let pk = kc_public K sk;
          (res, w) = nt_call T (key_request X base pk) w
      in case res of
           None \<Rightarrow> Some (Inl ''challenge'', w)
         | Some response \<Rightarrow>
             (case nt_body T response w of (body, broken, w) \<Rightarrow>
              (case (if broken then None else kc_challenge K body) of
                 None \<Rightarrow> Some (Inl ''challenge json'', w)
               | Some ch \<Rightarrow>
                   (case search_nonce X (ch_salt ch) (ch_difficulty ch) 0 of
                      None \<Rightarrow> None
                    | Some nonce \<Rightarrow>
                        (let (res, w) = nt_call T (solution_request K base (solved X K sk ch nonce)) w
                         in case res of
                              None \<Rightarrow> Some (Inl ''verify'', w)
                            | Some response \<Rightarrow>
                                (case rs_header response ''set-cookie'' of
                                   None \<Rightarrow> Some (Inl ''set-cookie'', w)
                                 | Some set_cookie \<Rightarrow>
                                     (let cookie = (case split_on (CHR '';'') set_cookie of [] \<Rightarrow> [] | first # _ \<Rightarrow> first)
                                      in Some (Inr \<lparr>id_cookie = cookie, id_signing = sk\<rparr>, w))))))))"

definition proof_header :: "externals \<Rightarrow> 'k key_crates \<Rightarrow> 'k identity \<Rightarrow> string \<Rightarrow> string \<Rightarrow> i64 \<Rightarrow> string" where
  "proof_header X K client method path ts =
     (let sig = kc_sign K (id_signing client) (as_bytes (method @ '' '' @ path @ '' '' @ int_str ts))
      in b64_encode X sig @ ''.'' @ int_str ts)"

subsection \<open>One request\<close>

datatype mode = Baseline | ChallengePage | Cleared | Proof

fun mode_name :: "mode \<Rightarrow> string" where
  "mode_name Baseline = ''baseline''"
| "mode_name ChallengePage = ''challenge''"
| "mode_name Cleared = ''cleared''"
| "mode_name Proof = ''proof''"

definition mode_parse :: "string \<Rightarrow> mode option" where
  "mode_parse s =
     (if s = ''baseline'' then Some Baseline
      else if s = ''challenge'' then Some ChallengePage
      else if s = ''cleared'' then Some Cleared
      else if s = ''proof'' then Some Proof
      else None)"

fun mode_request :: "externals \<Rightarrow> 'k key_crates \<Rightarrow> string \<Rightarrow> mode \<Rightarrow> 'k identity \<Rightarrow> i64 \<Rightarrow> http_request" where
  "mode_request X K base Baseline client now =
     \<lparr>hr_method = ''GET'', hr_url = base @ ''/healthz'', hr_headers = [], hr_body = []\<rparr>"
| "mode_request X K base ChallengePage client now =
     \<lparr>hr_method = ''GET'', hr_url = base @ ''/'', hr_headers = [(''User-Agent'', ''perf'')], hr_body = []\<rparr>"
| "mode_request X K base Cleared client now =
     \<lparr>hr_method = ''GET'', hr_url = base @ ''/'', hr_headers = [(''Cookie'', id_cookie client)], hr_body = []\<rparr>"
| "mode_request X K base Proof client now =
     \<lparr>hr_method = ''GET'', hr_url = base @ ''/'',
      hr_headers = [(''Cookie'', id_cookie client), (''X-Pow-Proof'', proof_header X K client ''GET'' ''/'' now)],
      hr_body = []\<rparr>"

fun marker :: "mode \<Rightarrow> bytes" where
  "marker Baseline = as_bytes ''ok''"
| "marker ChallengePage = as_bytes ''solver.js''"
| "marker Cleared = as_bytes ''upstream-content''"
| "marker Proof = as_bytes ''upstream-content''"

definition body_valid :: "mode \<Rightarrow> bytes \<Rightarrow> bool" where
  "body_valid mode preview =
     (case mode of
        Baseline \<Rightarrow> preview = as_bytes ''ok'' \<or> preview = as_bytes (''ok'' @ [CHR 0x0A])
      | _ \<Rightarrow> find_sub preview (marker mode) \<noteq> None)"

text \<open>
  The first read stops at 65536 bytes, at the end or at a break; the second drains what is left.
  The latency is in nanoseconds.
\<close>

definition one_request ::
  "externals \<Rightarrow> 'k key_crates \<Rightarrow> 'w net \<Rightarrow> string \<Rightarrow> mode \<Rightarrow> 'k identity \<Rightarrow> 'w \<Rightarrow> nat option \<times> 'w" where
  "one_request X K T base mode client w =
     (let t = nt_instant T w;
          (res, w) = nt_call T (mode_request X K base mode client (nt_unix T w)) w
      in case res of
           None \<Rightarrow> (None, w)
         | Some response \<Rightarrow>
             if rs_status response \<noteq> 200 then (None, w)
             else
               (case nt_body T response w of (body, broken, w) \<Rightarrow>
                (let preview = take 65536 body in
                 if broken \<and> length body < 65536 then (None, w)
                 else if broken then (None, w)
                 else if \<not> body_valid mode preview then (None, w)
                 else (Some (nt_instant T w - t), w))))"

subsection \<open>A run\<close>

text \<open>
  One thread: the stop flag is found unset \<open>rounds\<close> times. Latencies are in microseconds; the
  count of errors is a \<open>u64\<close>.
\<close>

fun client_loop ::
  "externals \<Rightarrow> 'k key_crates \<Rightarrow> 'w net \<Rightarrow> string \<Rightarrow> mode \<Rightarrow> 'k identity \<Rightarrow> nat \<Rightarrow> nat list \<Rightarrow> u64 \<Rightarrow> 'w \<Rightarrow> nat list \<times> u64" where
  "client_loop X K T base mode client 0 lats errors w = (lats, errors)"
| "client_loop X K T base mode client (Suc rounds) lats errors w =
     (case one_request X K T base mode client w of
        (Some d, w) \<Rightarrow> client_loop X K T base mode client rounds (lats @ [d div 1000]) errors w
      | (None, w) \<Rightarrow> client_loop X K T base mode client rounds lats (errors + 1) w)"

record stats =
  st_requests :: u64
  st_elapsed_secs :: f64
  st_errors :: u64
  st_rps :: f64
  st_p50 :: nat
  st_p95 :: nat
  st_p99 :: nat
  st_max :: nat

definition as_secs_f64 :: "nat \<Rightarrow> f64" where
  "as_secs_f64 ns = f64_add (f64_of_nat (ns div 1000000000)) (f64_div (f64_of_nat (ns mod 1000000000)) (f64_of_nat 1000000000))"

definition pct :: "nat list \<Rightarrow> f64 \<Rightarrow> nat" where
  "pct lats p =
     (if lats = [] then 0
      else lats ! min (f64_to_usize (f64_mul (f64_of_nat (length lats)) p)) (length lats - 1))"

text \<open>
  The threads are joined in the order they were started. \<open>sched\<close> says for the duration of the run
  how many rounds the \<open>i\<close>-th thread made and which network it saw; \<open>elapsed\<close> is read after the
  last one ended.
\<close>

definition run_mode ::
  "externals \<Rightarrow> 'k key_crates \<Rightarrow> 'w net \<Rightarrow> string \<Rightarrow> mode \<Rightarrow> u64 \<Rightarrow> usize \<Rightarrow> (u64 \<Rightarrow> nat \<Rightarrow> nat \<times> 'w) \<Rightarrow> nat \<Rightarrow>
   'k identity \<Rightarrow> stats" where
  "run_mode X K T base mode dur conc sched elapsed client =
     (let handles = map (\<lambda>i. case sched dur i of (rounds, w) \<Rightarrow> client_loop X K T base mode client rounds [] 0 w) [0..<conc];
          (lats, errors) = fold (\<lambda>(l, e) (lats, errors). (lats @ l, errors + e)) handles ([], 0);
          elapsed = as_secs_f64 elapsed;
          lats = sort lats
      in \<lparr>st_requests = of_nat (length lats), st_elapsed_secs = elapsed, st_errors = errors,
          st_rps = f64_div (f64_of_nat (length lats)) elapsed,
          st_p50 = pct lats (f64_round (50 / 100)), st_p95 = pct lats (f64_round (95 / 100)),
          st_p99 = pct lats (f64_round (99 / 100)), st_max = (if lats = [] then 0 else last lats)\<rparr>)"

text \<open>
  The whole program: a row per mode, with whether it is printed as JSON too, and the rate of the
  baseline. \<open>sched\<close> and \<open>elapsed\<close> are given for the \<open>k\<close>-th mode.
\<close>

fun mode_rows ::
  "externals \<Rightarrow> 'k key_crates \<Rightarrow> 'w net \<Rightarrow> (string \<Rightarrow> string option) \<Rightarrow> string \<Rightarrow> u64 \<Rightarrow> usize \<Rightarrow> 'k identity \<Rightarrow>
   (nat \<Rightarrow> u64 \<Rightarrow> nat \<Rightarrow> nat \<times> 'w) \<Rightarrow> (nat \<Rightarrow> nat) \<Rightarrow> nat \<Rightarrow> mode list \<Rightarrow> f64 option \<Rightarrow>
   (string \<times> stats \<times> bool) list \<times> f64 option" where
  "mode_rows X K T vars base dur conc client sched elapsed k [] baseline = ([], baseline)"
| "mode_rows X K T vars base dur conc client sched elapsed k (m # ms) baseline =
     (let s = run_mode X K T base m dur conc (sched k) (elapsed k) client;
          baseline = (if m = Baseline then Some (st_rps s) else baseline);
          row = (mode_name m, s, env_var vars ''PERF_JSON'' ''0'' = ''1'');
          (rows, baseline) = mode_rows X K T vars base dur conc client sched elapsed (k + 1) ms baseline
      in (row # rows, baseline))"

definition perf_main ::
  "externals \<Rightarrow> 'k key_crates \<Rightarrow> 'w net \<Rightarrow> (string \<Rightarrow> string option) \<Rightarrow> 'k \<Rightarrow>
   (nat \<Rightarrow> u64 \<Rightarrow> nat \<Rightarrow> nat \<times> 'w) \<Rightarrow> (nat \<Rightarrow> nat) \<Rightarrow> 'w \<Rightarrow>
   (string + (string \<times> stats \<times> bool) list \<times> f64 option) option" where
  "perf_main X K T vars sk sched elapsed w =
     (let base = env_var vars ''BASE_URL'' ''http://localhost:8080'';
          dur = (case parse_u64 (env_var vars ''PERF_DURATION'' ''5'') of Some n \<Rightarrow> n | None \<Rightarrow> 5);
          conc = (case parse_usize (env_var vars ''PERF_CONCURRENCY'' ''8'') of Some n \<Rightarrow> n | None \<Rightarrow> 8);
          modes = List.map_filter mode_parse
            (split_on (CHR '','') (env_var vars ''PERF_MODES'' ''baseline,challenge,cleared,proof''))
      in case handshake X K T base sk w of
           None \<Rightarrow> None
         | Some (Inl panic, _) \<Rightarrow> Some (Inl panic)
         | Some (Inr client, _) \<Rightarrow>
             Some (Inr (mode_rows X K T vars base dur conc client sched elapsed 0 modes None)))"

subsection \<open>Statistics\<close>

lemma client_loop_count:
  "client_loop X K T base mode client rounds lats errors w = (l, e) \<Longrightarrow>
   of_nat (length l) + e = of_nat (length lats) + errors + of_nat rounds"
proof (induction rounds arbitrary: lats errors w)
  case (Suc rounds)
  obtain res w' where one: "one_request X K T base mode client w = (res, w')" by fastforce
  with Suc.prems Suc.IH [of _ _ w'] show ?case by (cases res) auto
qed simp

lemma join_fold:
  "fold (\<lambda>(l, e) (lats, errors). (lats @ l, errors + e)) handles (lats, errors) =
     (lats @ concat (map fst handles), errors + sum_list (map snd handles :: u64 list))"
  by (induction handles arbitrary: lats errors) (auto simp: algebra_simps)

text \<open>The percentiles of sorted latencies.\<close>

lemma pct_index: "lats \<noteq> [] \<Longrightarrow> min k (length lats - 1) < length lats"
  by (simp add: min_less_iff_disj)

lemma pct_mono:
  assumes "sorted lats" "0 \<le> p" "p \<le> q" "q \<le> 1"
  shows "pct lats (f64_round p) \<le> pct lats (f64_round q)"
proof (cases "lats = []")
  case False
  have "ties_to_even 4503599627370496 = 4503599627370496" using ties_to_even_int [of 4503599627370496] by simp
  then have one: "round_f64 1 = 1" by (simp add: round_f64_def last_place_def binade_def bitlen_def floorlog_def)
  have "round_f64 p \<le> round_f64 q" "round_f64 q \<le> 1"
    using round_f64_mono [of p q] round_f64_mono [of q 1] assms by (simp_all add: one)
  then have "f64_round p = Fin (round_f64 p)" "f64_round q = Fin (round_f64 q)" by (simp_all add: f64_round_def)
  with scale_mono [OF assms(2,3) this] pct_index [OF False] show ?thesis
    by (simp add: pct_def False del: One_nat_def) (intro sorted_nth_mono [OF assms(1)] min.mono order_refl; simp)
qed (simp add: pct_def)

lemma pct_in: "lats \<noteq> [] \<Longrightarrow> pct lats p \<in> set lats"
  unfolding pct_def using nth_mem [OF pct_index] by (metis (no_types))

lemma pct_le_last: "sorted lats \<Longrightarrow> lats \<noteq> [] \<Longrightarrow> pct lats p \<le> last lats"
  by (simp add: pct_def last_conv_nth sorted_nth_mono)

subsection \<open>The client and the gate\<close>

text \<open>
  What the signing half of \<open>p256\<close> promises the verifying half: the verifying key is an
  uncompressed point that parses to itself, and a signature is 64 bytes that verify under it, with
  \<open>p256\<close> and with the fixed-width P-256 algorithm of \<open>ring\<close>.
\<close>

definition signing_laws :: "externals \<Rightarrow> 'k key_crates \<Rightarrow> bool" where
  "signing_laws X K \<longleftrightarrow>
     (\<forall>sk. length (kc_public K sk) = 65 \<and> kc_public K sk ! 0 = 4 \<and> p256_from_sec1 X (kc_public K sk) = Some (kc_public K sk)) \<and>
     (\<forall>sk msg. length (kc_sign K sk msg) = 64 \<and>
        (\<exists>sig. p256_signature X (kc_sign K sk msg) = Some sig \<and> p256_verify X (kc_public K sk) msg sig) \<and>
        ring_verify X (kc_public K sk) msg (kc_sign K sk msg))"

lemma signed_verifies:
  assumes "signing_laws X K"
  shows "verify_signature native X (kc_public K sk) msg (kc_sign K sk msg)"
proof -
  from assms obtain sig where "p256_signature X (kc_sign K sk msg) = Some sig" "p256_verify X (kc_public K sk) msg sig"
    unfolding signing_laws_def by blast
  with assms show ?thesis by (simp add: verify_signature_def signing_laws_def)
qed

lemma signing_key_valid: "signing_laws X K \<Longrightarrow> valid_public_key X (kc_public K sk)"
  by (simp add: valid_public_key_def signing_laws_def)

text \<open>The search finds the first solution from where it starts.\<close>

lemma search_nonce_finds:
  assumes "solution_valid X salt k d" "n \<le> k" "\<And>m. n \<le> m \<Longrightarrow> m < k \<Longrightarrow> \<not> solution_valid X salt m d"
  shows "search_nonce X salt d n = Some k"
  using assms(2,3)
proof (induction "unat k - unat n" arbitrary: n)
  case 0
  then have "n = k" by (simp add: word_le_nat_alt word_unat_eq_iff)
  with assms(1) show ?case by (simp add: search_nonce.simps)
next
  case (Suc i)
  then have less: "n < k" by (simp add: word_less_nat_alt)
  then have up: "unat (n + 1) = unat n + 1" using u64_less [of k] by (simp add: word_less_nat_alt unat_plus_if')
  have "search_nonce X salt d (n + 1) = Some k"
  proof (rule Suc.hyps(1))
    show "i = unat k - unat (n + 1)" using Suc.hyps(2) up by simp
    show "n + 1 \<le> k" by (rule inc_le [OF less])
    show "\<not> solution_valid X salt m d" if "n + 1 \<le> m" "m < k" for m
      using that Suc.prems(2) [of m] up by (simp add: word_le_nat_alt)
  qed
  moreover have "\<not> solution_valid X salt n d" using Suc.prems(2) [of n] less by simp
  ultimately show ?case by (simp add: search_nonce.simps)
qed

lemma search_nonce_ends: "solution_valid X salt k d \<Longrightarrow> \<exists>n. search_nonce X salt d 0 = Some n \<and> solution_valid X salt n d"
proof -
  assume k: "solution_valid X salt k d"
  define n where "n = (LEAST n. solution_valid X salt n d)"
  have "solution_valid X salt n d" unfolding n_def by (rule LeastI [of _ k]) (rule k)
  moreover have "\<not> solution_valid X salt m d" if "m < n" for m using that not_less_Least unfolding n_def by blast
  ultimately show ?thesis using search_nonce_finds [of X salt n d 0] by auto
qed

lemma set_cookie_pair:
  assumes "cookie_ok (cc_name c, v)"
  shows "\<exists>rest. split_on (CHR '';'') (build_set_cookie v c) = cookie_header [(cc_name c, v)] # rest"
  using split_on_first [OF cookie_pair_trim(4) [OF assms]] by (simp add: build_set_cookie_def)

text \<open>A submission made from an issued challenge and a solution passes every check of the engine.\<close>

lemma solved_is_earned:
  assumes laws: "base64_laws X" "signing_laws X K"
    and issue: "pow_issue X rng (cf_key c) (kc_public K sk) ctx d issued CHALLENGE_GRACE = Some ch" "0 < d"
      "in_i64 (issued + CHALLENGE_GRACE)" "solution_valid X (ch_salt ch) nonce d"
    and gate: "cf_key_ok c" "request_body_limited (ge_pread E) VERIFY_LIMIT r = Some body"
      "de_submission X body = Some (solved X K sk ch nonce)" "client_context X (issuer w) c r = Some ctx"
      "required_assurance (ge_nginx E) lc c
         (record_outcome (ge_nginx E) ''rejected'' ''invalid_submission'' (cf_difficulty c) r) = Pow d"
      "ge_now E AtVerify < issued + CHALLENGE_GRACE"
  shows "pow_earned X E lc c w r (ch_token ch) (ch_exp ch)
    \<lparr>rg_cookie = build_set_cookie (clearance_issue X (cf_key c) (kc_public K sk) ctx (Pow d) (ge_now E AtVerify)
       (cf_clearance_ttl c)) (cf_cookie c), rg_redirect = None, rg_difficulty = d, rg_kind = ''pow''\<rparr>"
proof -
  note ch = issued_authentic [OF issue(1)]
  have "submitted_challenge (solved X K sk ch nonce) = ch" by (simp add: submitted_challenge_def solved_def)
  moreover have "verify_solution X (cf_key c) ch nonce (kc_public K sk) ctx d (ge_now E AtVerify) = PowOk"
    using ch issue(2-4) gate(6) by (simp add: verify_solution_eq i64_add_exact word_neq_0_conv)
  moreover have "verify_challenge (ge_native E) X (kc_public K sk) (ch_token ch)
      (kc_sign K sk (as_bytes (challenge_message (ch_token ch))))"
    by (simp add: verify_challenge_def signed_verifies [OF laws(2)])
  ultimately show ?thesis
    unfolding pow_earned_def using gate laws signing_key_valid [OF laws(2), of sk]
    by (intro exI [of _ body] exI [of _ "solved X K sk ch nonce"] exI [of _ d] exI [of _ "kc_public K sk"] exI [of _ ctx]
        exI [of _ "kc_sign K sk (as_bytes (challenge_message (ch_token ch)))"])
      (simp add: solved_def unb64url_def)
qed

subsection \<open>Properties\<close>

text \<open>
  C7. The client's handshake opens the gate. Let the gate issue a challenge for the client's key
  and context, solvable at its difficulty, and let the client receive it intact. Then the search
  for a nonce ends; and when nginx hands the posted body to the verify endpoint, in a worker with
  a usable key whose zone accepts the redemption, before the challenge expires, and the client
  gets the cookie of that response, the handshake returns the clearance cookie of this client.
\<close>

theorem handshake_obtains_clearance:
  fixes ngx :: "http_request \<Rightarrow> request"
  assumes laws: "base64_laws X" "signing_laws X K"
    and issue: "pow_issue X rng (cf_key c) (kc_public K sk) ctx d issued CHALLENGE_GRACE = Some ch" "0 < d"
      "in_i64 (issued + CHALLENGE_GRACE)" "solution_valid X (ch_salt ch) k d"
    and challenge: "nt_call T (key_request X base (kc_public K sk)) w = (Some res, w1)"
      "nt_body T res w1 = (ser_challenge X ch t, False, w2)" "kc_challenge K (ser_challenge X ch t) = Some ch"
    and post: "sub = solved X K sk ch" "post = (\<lambda>nonce. solution_request K base (sub nonce))"
    and posted: "\<And>nonce. request_body_limited (ge_pread E) VERIFY_LIMIT (ngx (post nonce)) = Some (kc_submission K (sub nonce))"
      "\<And>nonce. de_submission X (kc_submission K (sub nonce)) = Some (sub nonce)"
      "\<And>nonce. client_context X (issuer wk') c (ngx (post nonce)) = Some ctx" "\<And>nonce. set_cookies (ngx (post nonce)) = []"
      "\<And>nonce. required_assurance (ge_nginx E) lc c
         (record_outcome (ge_nginx E) ''rejected'' ''invalid_submission'' (cf_difficulty c) (ngx (post nonce))) = Pow d"
    and gate: "resolve_worker X E lc wk = (c, wk')" "cf_key_ok c" "wk_cluster wk = None" "healthy (ge_nginx E)"
      "zone_outcome X E (ch_token ch) (ch_exp ch) wk = Accepted" "ge_now E AtVerify < issued + CHALLENGE_GRACE"
    and token: "token = clearance_issue X (cf_key c) (kc_public K sk) ctx (Pow d) (ge_now E AtVerify) (cf_clearance_ttl c)"
      "cookie_ok (cc_name (cf_cookie c), token)"
    and answer: "\<And>nonce v. set (set_cookies (snd (verify_body X E (Some lc) wk (ngx (post nonce))))) = {v} \<Longrightarrow>
      \<exists>res w3. nt_call T (post nonce) w2 = (Some res, w3) \<and> rs_header res ''set-cookie'' = Some v"
  shows "\<exists>w3. handshake X K T base sk w =
    Some (Inr \<lparr>id_cookie = cookie_header [(cc_name (cf_cookie c), token)], id_signing = sk\<rparr>, w3)"
proof -
  have d: "ch_difficulty ch = d" using issued_authentic [OF issue(1)] by simp
  from search_nonce_ends [OF issue(4)] obtain nonce
    where nonce: "search_nonce X (ch_salt ch) (ch_difficulty ch) 0 = Some nonce" "solution_valid X (ch_salt ch) nonce d"
    by (auto simp: d)
  let ?r = "ngx (post nonce)"
  obtain g where g: "pow_earned X E lc c wk' ?r (ch_token ch) (ch_exp ch) g" "rg_cookie g = build_set_cookie token (cf_cookie c)"
    using solved_is_earned [OF laws issue(1-3) nonce(2) gate(2) posted(1) _ posted(3,5) gate(6)] posted(2) that
    unfolding token(1) post(1) by force
  have w1: "wk_cluster wk' = None" "zone_outcome X E (ch_token ch) (ch_exp ch) wk' = Accepted"
    using resolve_worker_fields(1) [of X E lc wk] resolve_worker_store(2,4) [where X = X and E = E and lc = lc and w = wk]
      gate(3,5) by (simp_all add: gate(1))
  note run = verify_body_earned [OF gate(1) g(1)]
  have "set (set_cookies (snd (verify_body X E (Some lc) wk ?r))) = {rg_cookie g}"
    using redeem_accepted [OF gate(4) w1, of g] posted(4) unfolding run
    by (auto simp: set_cookies_record dest!: redeem_cookies)
  from answer [OF this] obtain res' w3 where last: "nt_call T (post nonce) w2 = (Some res', w3)"
    "rs_header res' ''set-cookie'' = Some (build_set_cookie token (cf_cookie c))" by (auto simp: g(2))
  from set_cookie_pair [OF token(2)] obtain rest
    where "split_on (CHR '';'') (build_set_cookie token (cf_cookie c)) = cookie_header [(cc_name (cf_cookie c), token)] # rest" by blast
  then show ?thesis
    using challenge nonce(1) last by (simp add: handshake_def Let_def post)
qed

text \<open>
  The report of a run is consistent: the three percentiles are in order and below the
  maximum, each of the four is a latency that some thread measured (or 0 when nothing succeeded),
  however the products of the percentile index are rounded; and every request a thread made is
  counted once, as a success or as an error.
\<close>

theorem run_mode_report:
  "let s = run_mode X K T base mode dur conc sched elapsed client;
       measured = concat (map (\<lambda>i. fst (client_loop X K T base mode client (fst (sched dur i)) [] 0 (snd (sched dur i)))) [0..<conc])
   in st_p50 s \<le> st_p95 s \<and> st_p95 s \<le> st_p99 s \<and> st_p99 s \<le> st_max s \<and>
      {st_p50 s, st_p95 s, st_p99 s, st_max s} \<subseteq> (if measured = [] then {0} else set measured) \<and>
      st_requests s + st_errors s = of_nat (\<Sum>i<conc. fst (sched dur i))"
proof -
  define run where "run i = client_loop X K T base mode client (fst (sched dur i)) [] 0 (snd (sched dur i))" for i
  define measured where "measured = concat (map (\<lambda>i. fst (run i)) [0..<conc])"
  define errors where "errors = (\<Sum>i\<leftarrow>[0..<conc]. snd (run i))"
  let ?s = "run_mode X K T base mode dur conc sched elapsed client" and ?l = "sort measured"
  have s: "?s = \<lparr>st_requests = of_nat (length ?l), st_elapsed_secs = as_secs_f64 elapsed, st_errors = errors,
      st_rps = f64_div (f64_of_nat (length ?l)) (as_secs_f64 elapsed),
      st_p50 = pct ?l (f64_round (50 / 100)), st_p95 = pct ?l (f64_round (95 / 100)),
      st_p99 = pct ?l (f64_round (99 / 100)), st_max = (if ?l = [] then 0 else last ?l)\<rparr>"
    by (simp add: run_mode_def join_fold case_prod_beta run_def measured_def errors_def comp_def Let_def)
  have "of_nat (length (concat (map (\<lambda>i. fst (run i)) is))) + (\<Sum>i\<leftarrow>is. snd (run i)) = (of_nat (\<Sum>i\<leftarrow>is. fst (sched dur i)) :: u64)" for "is"
  proof (induction "is")
    case (Cons i js)
    have "of_nat (length (fst (run i))) + snd (run i) = (of_nat (fst (sched dur i)) :: u64)"
      using client_loop_count [of X K T base mode client "fst (sched dur i)" "[]" 0 "snd (sched dur i)" "fst (run i)" "snd (run i)"]
      by (simp add: run_def)
    with Cons show ?case by (simp add: algebra_simps)
  qed simp
  from this [of "[0..<conc]"] have "st_requests ?s + st_errors ?s = of_nat (\<Sum>i<conc. fst (sched dur i))"
    by (simp add: s measured_def errors_def interv_sum_list_conv_sum_set_nat atLeast0LessThan)
  moreover have "st_p50 ?s \<le> st_p95 ?s" "st_p95 ?s \<le> st_p99 ?s" by (simp_all add: s pct_mono)
  moreover have "st_p99 ?s \<le> st_max ?s" using pct_le_last [of ?l] by (simp add: s pct_def)
  moreover have "{st_p50 ?s, st_p95 ?s, st_p99 ?s, st_max ?s} \<subseteq> (if measured = [] then {0} else set measured)"
    using pct_in [of ?l] last_in_set [of ?l] set_empty [of ?l] by (auto simp: s pct_def [of "[]"])
  ultimately show ?thesis unfolding Let_def measured_def run_def by blast
qed

text \<open>
  C35. A proof header made by the client satisfies the gate. For every method, path and time stamp
  the gate's parser reads the signature and the time stamp back, and the check of the request
  proof succeeds under the client's key while the clocks differ by no more than the allowed skew.
\<close>

theorem proof_header_verifies:
  assumes "base64_laws X" "signing_laws X K" "in_i64 ts" "0 \<le> skew" "i64_abs_diff now ts \<le> nat skew"
  shows "\<exists>sig. parse_proof X (proof_header X K client method path ts) = Some (sig, ts) \<and>
    check native X (kc_public K (id_signing client)) method path ts sig now skew = Valid"
proof -
  let ?sig = "kc_sign K (id_signing client) (as_bytes (message method path ts))"
  have header: "proof_header X K client method path ts = b64_encode X ?sig @ CHR ''.'' # int_str ts"
    by (simp add: proof_header_def message_def)
  have "CHR ''.'' \<notin> set (int_str ts)"
    by (auto simp: int_str_def dest!: nat_str_digits is_ascii_digit_neq)
  then have "rsplit_once (CHR ''.'') (b64_encode X ?sig @ CHR ''.'' # int_str ts) = Some (b64_encode X ?sig, int_str ts)"
    by (simp add: rsplit_once_Some)
  moreover have "unb64url_fixed X 64 (b64_encode X ?sig) = Some ?sig"
    using assms(1,2) by (simp add: unb64url_fixed_Some unb64url_def signing_laws_def)
  ultimately have "parse_proof X (proof_header X K client method path ts) = Some (?sig, ts)"
    using assms(3) by (simp add: parse_proof_def header)
  moreover have "check native X (kc_public K (id_signing client)) method path ts ?sig now skew = Valid"
    using assms(4,5) signed_verifies [OF assms(2)] by (simp add: check_def)
  ultimately show ?thesis by blast
qed

end
