(* ===== verification/Scenario.thy ===== *)
theory Scenario
  imports Site Load
begin

text \<open>
  A worked example of the request path: a location, a worker with a small zone, a client that
  submits a solved challenge and comes back with the cookie. It shows that the hypotheses of the
  properties of \<open>Access\<close> and \<open>Site\<close> can hold together.
\<close>

definition demo_pk :: bytes where "demo_pk = 4 # replicate 64 0"

definition demo_key :: bytes where "demo_key = replicate 16 7"

definition demo_lc :: location_conf where
  "demo_lc =
     \<lparr>lc_resolved = 0, lc_enabled = 1, lc_trusted = None, lc_decision = None, lc_page_path = [],
      lc_page_cache = [], lc_nojs_page_path = [], lc_nojs_page_cache = [], lc_difficulty = 5,
      lc_hmac_key_file = ''k'', lc_clearance_ttl = 60, lc_proof_skew = 30, lc_require_proof = 0,
      lc_ipv4_prefix = 24, lc_ipv6_prefix = 64, lc_policy = [], lc_endpoint = ''/.pow/'', lc_replay = 0,
      lc_replay_max_body = 0, lc_cookie_name = ''pow'', lc_cookie_effective_name = ''pow'',
      lc_cookie_scope_suffix = 0, lc_cookie_domain = ''h'', lc_cookie_path = ''/'',
      lc_cookie_samesite = ''Lax'', lc_cookie_secure = 1, lc_cookie_httponly = 1\<rparr>"

definition demo_env :: "i64 \<Rightarrow> gate_env" where
  "demo_env now =
     \<lparr>ge_nginx = plain_nginx, ge_assets = \<lparr>as_page = [], as_nojs_page = [], as_solver = [], as_version = []\<rparr>,
      ge_fs = (\<lambda>_. Some demo_key), ge_pread = (\<lambda>_ _ _. []), ge_native = False, ge_now = (\<lambda>_. now),
      ge_instants = (0, 0), ge_spawned = (\<lambda>_. False), ge_rng = None,
      ge_cluster = \<lparr>ce_now = now, ce_done = (\<lambda>_. now), ce_msec = 0, ce_cleanup = True, ce_connect = (\<lambda>_. (True, 0))\<rparr>,
      ge_request = 0\<rparr>"

definition demo_worker :: worker where
  "demo_worker = new_worker\<lparr>wk_zone := Some (Some
     \<lparr>zs_issuer = replicate 32 7, zs_last_now = 0, zs_entries = [\<lparr>en_id = replicate 32 0, en_expires = 0\<rparr>]\<rparr>)\<rparr>"

definition demo_cfg :: cfg where
  "demo_cfg = fst (resolve_worker sample (demo_env 100) demo_lc demo_worker)"

definition demo_ctx :: string where
  "demo_ctx = the (client_context sample (Some (replicate 32 7)) demo_cfg blank_request)"

definition demo_token :: string where
  "demo_token = b64url sample (hmac sample demo_key (pow_binding sample ''00'' 160 5 demo_pk demo_ctx))"

definition demo_sub :: submission where
  "demo_sub =
     \<lparr>sb_version = 2, sb_signature = b64url sample (sample_sign (as_bytes (challenge_message demo_token))),
      sb_salt = ''00'', sb_exp = 160, sb_token = demo_token, sb_nonce = 0, sb_pubkey = b64url sample demo_pk,
      sb_difficulty = 5\<rparr>"

definition demo_post :: request where
  "demo_post = blank_request\<lparr>rq_method := ''POST'', rq_uri := ''/.pow/verify'',
     rq_body := Some [Some \<lparr>bf_in_file = False, bf_file = None, bf_file_pos = 0, bf_file_last = 0,
       bf_memory = True, bf_data = Some (sample_ser_submission demo_sub)\<rparr>]\<rparr>"

definition demo_clearance :: string where
  "demo_clearance = clearance_issue sample demo_key demo_pk demo_ctx (Pow 5) 100 60"

definition demo_grant :: redeem_grant where
  "demo_grant = \<lparr>rg_cookie = build_set_cookie demo_clearance (cf_cookie demo_cfg), rg_redirect = None,
     rg_difficulty = 5, rg_kind = ''pow''\<rparr>"

definition demo_get :: request where
  "demo_get = blank_request\<lparr>rq_headers_in := [(as_bytes ''cookie'', as_bytes (cookie_header [(''pow'', demo_clearance)]))]\<rparr>"

definition demo_w1 :: worker where
  "demo_w1 = snd (resolve_worker sample (demo_env 100) demo_lc demo_worker)"

lemma demo_resolve: "resolve_worker sample (demo_env 100) demo_lc demo_worker = (demo_cfg, demo_w1)"
  by (simp add: demo_cfg_def demo_w1_def)

lemma demo_cfg:
  "cf_key demo_cfg = demo_key" "cf_key_ok demo_cfg" "cf_difficulty demo_cfg = 5" "cf_clearance_ttl demo_cfg = 60"
  "cf_require_proof demo_cfg = False" "cf_endpoint demo_cfg = ''/.pow/''" "cc_name (cf_cookie demo_cfg) = ''pow''"
  "cf_address demo_cfg = \<lparr>ipv4_prefix = 24, ipv6_prefix = 64\<rparr>" "sc_domain (cf_scope demo_cfg) \<noteq> None"
  "sc_domain (cf_scope demo_cfg) \<noteq> Some []"
  by (simp_all add: demo_cfg_def resolve_worker_def resolve_def build_cfg_def load_key_def Let_def demo_env_def
      demo_lc_def demo_worker_def new_worker_def demo_key_def MIN_HMAC_KEY_LEN_def nonempty_def scope_new_def
      to_ascii_lowercase_def trim_start_matches_def)

lemma demo_ok: "worker_ok demo_worker"
  by (simp add: worker_ok_def demo_worker_def new_worker_def)

lemma demo_context: "client_context sample (issuer demo_w1) demo_cfg blank_request = Some demo_ctx"
proof -
  have "issuer demo_w1 = Some (replicate 32 7)"
    using resolve_worker_store(2) [of sample "demo_env 100" demo_lc demo_worker]
    by (simp add: demo_w1_def issuer_def zone_issuer_def zone_data_def demo_worker_def new_worker_def)
  moreover have "client_context sample (Some (replicate 32 7)) demo_cfg blank_request \<noteq> None"
    using demo_cfg(9,10)
    by (auto simp: client_context_def client_ip_def blank_request_def libc_af_inet_def for_host_def
        binding_prepared_def network_def demo_cfg(8) policy_valid_def split: option.splits)
  ultimately show ?thesis by (auto simp: demo_ctx_def)
qed

lemma demo_body: "request_body_limited pr VERIFY_LIMIT demo_post = Some (sample_ser_submission demo_sub)"
proof -
  have hm: "length (hmac_sha256 sample k m) = 32" for k m by (simp add: sample_def sample_digest_def)
  have "length (sample_ser_submission demo_sub) \<le> 8192"
    by (simp add: sample_ser_submission_def length_esc_fields demo_sub_def demo_token_def b64url_def
        b64_length [OF sample_base64_laws] hm sample_sign_def demo_pk_def int_str_def nat_str.simps)
  then show ?thesis
    by (simp add: request_body_limited_def demo_post_def blank_request_def VERIFY_LIMIT_def)
qed

lemma demo_context_post: "client_context sample (issuer demo_w1) demo_cfg demo_post = Some demo_ctx"
  using context_cong [of demo_post blank_request sample "issuer demo_w1" demo_cfg] demo_context
  by (simp add: demo_post_def header_def blank_request_def)

lemma sample_unb64url: "unb64url sample (b64url sample b) = Some b"
  using sample_base64_laws by (simp add: b64url_def unb64url_def b64_encode_decode)

lemma demo_verdict:
  "verify_solution sample demo_key (submitted_challenge demo_sub) 0 demo_pk demo_ctx 5 100 = PowOk"
  using sample_solution_valid
  by (simp add: verify_solution_eq challenge_authentic_def submitted_challenge_def demo_sub_def demo_token_def)

lemma demo_signed:
  "verify_challenge False sample demo_pk demo_token (sample_sign (as_bytes (challenge_message demo_token)))"
  by (simp add: verify_challenge_def verify_signature_def sample_def sample_point_def demo_pk_def sample_sign_def)

lemma demo_key_valid: "valid_public_key sample demo_pk"
  by (simp add: valid_public_key_def demo_pk_def sample_def sample_point_def)

lemma demo_earned: "pow_earned sample (demo_env 100) demo_lc demo_cfg demo_w1 demo_post demo_token 160 demo_grant"
proof -
  have env: "ge_now (demo_env 100) s = 100" "ge_native (demo_env 100) = False" for s by (simp_all add: demo_env_def)
  have sub: "de_submission sample (sample_ser_submission demo_sub) = Some demo_sub"
    by (simp add: sample_def sample_submission_roundtrip in_i64_small demo_sub_def)
  have pol: "required_assurance N demo_lc demo_cfg r = Pow 5" for N r
    by (simp add: required_assurance_def assurance_for_def eval_complex_value_def demo_lc_def parse_def demo_cfg(3))
  show ?thesis
    unfolding pow_earned_def
    by (intro exI [of _ "sample_ser_submission demo_sub"] exI [of _ demo_sub] exI [of _ "5 :: u64"] exI [of _ demo_pk]
        exI [of _ demo_ctx] exI [of _ "sample_sign (as_bytes (challenge_message demo_token))"] conjI)
      (use demo_verdict demo_signed in \<open>simp_all add: demo_cfg demo_body sub pol demo_context_post env sample_unb64url
        demo_key_valid demo_grant_def demo_clearance_def, simp_all add: demo_sub_def sample_unb64url\<close>)
qed

lemma demo_redeemed: "zone_outcome sample (demo_env 100) demo_token 160 demo_worker = Accepted"
  by (simp add: zone_outcome_def zone_consume_def zone_data_def demo_worker_def new_worker_def demo_env_def
      consume_def probe_indices_def Let_def)

lemma demo_clearance_text: "cookie_ok (''pow'', demo_clearance)"
proof -
  have "b64_char ch \<Longrightarrow> cookie_char ch" for ch
    by (auto simp: b64_char_def cookie_char_def printable_def is_ascii_alphanumeric_def is_ascii_alphabetic_def
        is_ascii_digit_def Let_def)
  then have "list_all cookie_char (b64url sample b)" for b
    by (auto simp: list_all_iff b64url_def sample_def dest: base64url_alphabet)
  then show ?thesis
    by (simp add: cookie_ok_def demo_clearance_def clearance_issue_def Let_def cookie_char_def printable_def)
qed

lemma demo_cookie: "cookie ''pow'' demo_get = Some demo_clearance"
proof (rule cookie_read)
  show "\<forall>kv\<in>set [(''pow'', demo_clearance)]. cookie_ok kv" using demo_clearance_text by simp
  show "rq_headers_in demo_get = [] @ (as_bytes ''cookie'', as_bytes (cookie_header [(''pow'', demo_clearance)])) # []"
    by (simp add: demo_get_def)
qed (simp_all add: eq_ignore_ascii_case_u8_def)

lemma context_length:
  "base64_laws X \<Longrightarrow> digest_laws X \<Longrightarrow> client_context X iss c r = Some ctx \<Longrightarrow> length ctx = 43"
  by (auto simp: client_context_def binding_prepared_def Let_def b64url_def b64_length split: option.splits)

lemma demo_ctx_length: "length demo_ctx = 43"
  by (rule context_length [OF sample_base64_laws sample_digest_laws demo_context])

lemma demo_clearance_length: "length demo_clearance \<le> 4096"
  unfolding demo_clearance_def length_clearance_issue [OF sample_base64_laws sample_digest_laws]
  by (simp add: length_ser_clearance_sample issued_payload_def b64url_def demo_ctx_length demo_pk_def
      b64_length [OF sample_base64_laws] i64_add_exact in_i64_small int_str_def nat_str.simps)

text \<open>A site of workers like this one; the client comes back to another of them.\<close>

definition demo_site :: site where
  "demo_site = \<lparr>st_zone = zone_data demo_worker, st_worker = \<lambda>_. demo_worker\<rparr>"

definition demo_submit :: worker_event where
  "demo_submit = Submits (demo_env 100) demo_lc demo_post"

lemma demo_enter: "enter demo_site k = demo_worker"
  by (simp add: enter_def demo_site_def set_zone_data_def zone_data_def demo_worker_def new_worker_def)

lemma demo_zone_mode: "zone_mode demo_site"
  by (simp add: zone_mode_def demo_site_def demo_worker_def new_worker_def)

lemma demo_quiet: "set_cookies demo_post = []"
  by (simp add: set_cookies_def demo_post_def blank_request_def)

lemma demo_resolve_other:
  "wk_cells w = [] \<Longrightarrow> wk_keys w = [] \<Longrightarrow> fst (resolve_worker sample (demo_env t) demo_lc w) = demo_cfg"
  by (simp add: demo_cfg_def resolve_worker_def resolve_def demo_env_def demo_worker_def new_worker_def case_prod_beta Let_def)

theorem earned_clearance_passes_witness:
  "rg_cookie demo_grant \<in> set (site_cookies sample (0, demo_submit) demo_site) \<and>
   fst (pow_gate_access sample (demo_env 120) (Some demo_lc)
      (enter (fold (site_step sample) [(0, demo_submit), (2, BotsMove no_bots)] demo_site) 3) demo_get) = NGX_DECLINED"
proof -
  let ?s' = "fold (site_step sample) [(0, demo_submit), (2, BotsMove no_bots)] demo_site"
  have "st_worker ?s' 3 = demo_worker" by (simp add: site_step_def handle_def Let_def demo_site_def)
  then have "wk_cells (enter ?s' 3) = []" "wk_keys (enter ?s' 3) = []"
    by (simp_all add: enter_def set_zone_data_def demo_worker_def new_worker_def)
  from demo_resolve_other [OF this, of 120] obtain w2
    where res: "resolve_worker sample (demo_env 120) demo_lc (enter ?s' 3) = (demo_cfg, w2)" by (metis prod.collapse)
  have ok: "\<forall>k. worker_ok (st_worker demo_site k)" by (simp add: demo_site_def demo_ok)
  show ?thesis unfolding demo_submit_def
  proof (rule earned_clearance_passes [OF sample_base64_laws sample_digest_laws sample_serde_laws demo_zone_mode ok
        _ refl _ demo_earned _ _ demo_quiet, where v = demo_clearance and decision = "Challenge None"
        and evs = "[(2, BotsMove no_bots)]"])
    show "cookie (cc_name (cf_cookie demo_cfg)) demo_get = Some demo_clearance" by (simp add: demo_cfg demo_cookie)
    show "resolve_worker sample (demo_env 120) demo_lc (enter (fold (site_step sample)
        [(0, Submits (demo_env 100) demo_lc demo_post), (2, BotsMove no_bots)] demo_site) 3) = (demo_cfg, w2)"
      using res by (simp only: demo_submit_def)
  qed (simp_all add: demo_enter demo_resolve demo_redeemed demo_cfg demo_clearance_length demo_grant_def in_i64_small,
      simp_all add: in_i64_small demo_worker_def new_worker_def demo_env_def demo_get_def demo_post_def blank_request_def
        header_def can_carry_proof_def starts_with_def demo_lc_def eval_complex_value_def parse_def
        assurance_for_def demo_cfg eq_ignore_ascii_case_u8_def as_bytes_def u8_lower_def)
qed

text \<open>Two workers receive the same solution: one clearance leaves the site.\<close>

theorem one_clearance_per_token_witness:
  "acceptances (site_step sample) (hands_out sample) [(0, demo_submit), (3, demo_submit)] demo_site
     (redemption_id sample demo_token) 160 = 1"
proof -
  have w1: "wk_cluster demo_w1 = None" "zone_outcome sample (demo_env 100) demo_token 160 demo_w1 = Accepted"
    using demo_redeemed by (simp_all add: demo_w1_def, simp add: demo_worker_def new_worker_def)
  have "healthy (ge_nginx (demo_env 100))" by (simp add: demo_env_def)
  from redeem_accepted [OF this w1, of demo_grant]
  have "rg_cookie demo_grant \<in> set (site_cookies sample (0, demo_submit) demo_site)"
    by (simp add: site_cookies_def handle_def demo_submit_def demo_enter verify_body_earned [OF demo_resolve demo_earned]
        case_prod_beta new_cookies_def demo_quiet)
  moreover have "earned sample demo_submit (enter demo_site 0) demo_token 160 demo_grant"
    by (simp add: demo_submit_def demo_enter demo_resolve demo_earned)
  ultimately have "hands_out sample (0, demo_submit) demo_site (redemption_id sample demo_token) 160"
    unfolding hands_out_def by auto
  moreover have "list_all (zone_event \<circ> snd) [(0, demo_submit), (3 :: nat, demo_submit)]" by (simp add: demo_submit_def)
  note one_clearance_per_token [OF demo_zone_mode this, of sample "redemption_id sample demo_token" 160]
  ultimately show ?thesis by simp
qed

theorem clearance_is_earned_witness:
  "rg_cookie demo_grant \<in> set (set_cookies (snd (verify_body sample (demo_env 100) (Some demo_lc) demo_worker demo_post))) \<and>
   (\<exists>g token expires. rg_cookie demo_grant = rg_cookie g \<and>
      pow_earned sample (demo_env 100) demo_lc demo_cfg demo_w1 demo_post token expires g \<and>
      zone_outcome sample (demo_env 100) token expires demo_worker = Accepted)"
proof -
  have w1: "wk_cluster demo_w1 = None" "zone_outcome sample (demo_env 100) demo_token 160 demo_w1 = Accepted"
    using demo_redeemed by (simp_all add: demo_w1_def, simp add: demo_worker_def new_worker_def)
  have "healthy (ge_nginx (demo_env 100))" by (simp add: demo_env_def)
  from redeem_accepted [OF this w1, of demo_grant]
  have set: "rg_cookie demo_grant \<in> set (set_cookies (snd (verify_body sample (demo_env 100) (Some demo_lc) demo_worker demo_post)))"
    by (simp add: verify_body_earned [OF demo_resolve demo_earned])
  from demo_quiet set subsetD [OF conjunct1 [OF clearance_is_earned [OF demo_resolve refl, of demo_post "Some demo_lc"]] set]
  show ?thesis by auto
qed

theorem access_admits_only_witness:
  "\<exists>w' r'. pow_gate_access sample (demo_env 100)
       (Some (demo_lc\<lparr>lc_decision := Some \<lparr>cv_value = as_bytes ''allow'', cv_dynamic = False\<rparr>\<rparr>)) demo_worker blank_request
     = (NGX_DECLINED, w', r') \<and> \<not> cleared sample (demo_env 100) demo_cfg (Pow 5) demo_worker blank_request \<and>
     parse (from_utf8_lossy (as_bytes ''allow'')) = Allow"
proof -
  let ?lc = "demo_lc\<lparr>lc_decision := Some \<lparr>cv_value = as_bytes ''allow'', cv_dynamic = False\<rparr>\<rparr>"
  let ?E = "demo_env 100"
  have cfg: "resolve_worker sample ?E ?lc demo_worker = (demo_cfg, demo_w1)"
  proof -
    have "build_cfg X fs (lc\<lparr>lc_decision := d\<rparr>) keys = build_cfg X fs lc keys" for X fs lc d keys
      by (simp add: build_cfg_def Let_def cong: if_cong)
    then show ?thesis unfolding demo_resolve [symmetric] resolve_worker_def resolve_def by (simp cong: option.case_cong)
  qed
  have word: "from_utf8_lossy (as_bytes ''allow'') = ''allow''" by (rule ascii_lossy) simp
  have on: "lc_enabled ?lc \<noteq> 0" by (simp add: demo_lc_def)
  have "fst (pow_gate_access sample ?E (Some ?lc) demo_worker blank_request) = NGX_DECLINED"
    unfolding access_eq [OF on cfg, of blank_request]
    by (simp add: demo_cfg eval_complex_value_def word parse_def decide_def blank_request_def starts_with_def)
  then obtain w' r' where run: "pow_gate_access sample ?E (Some ?lc) demo_worker blank_request = (NGX_DECLINED, w', r')"
    by (metis prod.collapse)
  have none: "cookie ''pow'' blank_request = None" by (simp add: cookie_def blank_request_def)
  then have not: "\<not> cleared sample ?E demo_cfg required demo_worker blank_request" for required
    by (simp add: cleared_def demo_cfg)
  have "in_i64 (ge_now ?E AtClearance)" "in_i64 (cf_clearance_ttl demo_cfg)" by (simp_all add: demo_env_def demo_cfg in_i64_small)
  from access_admits_only [OF sample_base64_laws sample_digest_laws sample_serde_laws demo_ok this(1) run on cfg this(2) refl]
  have "parse (eval_complex_value (ge_nginx ?E) (lc_decision ?lc) blank_request) = Allow"
    using not by (auto simp: demo_cfg blank_request_def is_trusted_def demo_lc_def eval_complex_value_def word parse_def)
  with run not show ?thesis by (auto simp: eval_complex_value_def)
qed

text \<open>The same solution where the key file cannot be read: no cookie, and the ledger is untouched.\<close>

definition keyless_env :: gate_env where
  "keyless_env = (demo_env 100)\<lparr>ge_fs := \<lambda>_. None\<rparr>"

theorem unusable_key_fails_closed_witness:
  "\<not> cf_key_ok (fst (resolve_worker sample keyless_env demo_lc demo_worker)) \<and>
   set_cookies (snd (verify_body sample keyless_env (Some demo_lc) demo_worker demo_post)) = [] \<and>
   wk_zone (fst (verify_body sample keyless_env (Some demo_lc) demo_worker demo_post)) = wk_zone demo_worker"
proof -
  have key: "\<not> cf_key_ok (fst (resolve_worker sample keyless_env demo_lc demo_worker))"
    by (simp add: resolve_worker_def resolve_def build_cfg_def load_key_def Let_def keyless_env_def demo_lc_def
        demo_worker_def new_worker_def MIN_HMAC_KEY_LEN_def case_prod_beta)
  have on: "lc_enabled demo_lc \<noteq> 0" by (simp add: demo_lc_def)
  obtain c w1 where res: "resolve_worker sample keyless_env demo_lc demo_worker = (c, w1)" by fastforce
  obtain rc w' r' where acc: "pow_gate_access sample keyless_env (Some demo_lc) demo_worker demo_post = (rc, w', r')"
    by (cases "pow_gate_access sample keyless_env (Some demo_lc) demo_worker demo_post") auto
  obtain w'' q' where ver: "verify_body sample keyless_env (Some demo_lc) demo_worker demo_post = (w'', q')" by fastforce
  from key have "\<not> cf_key_ok c" by (simp add: res)
  from unusable_key_fails_closed [OF res this on acc ver refl] key demo_quiet show ?thesis by (simp add: ver)
qed

subsection \<open>The load generator against this site\<close>

text \<open>
  A network whose challenge endpoint answers with a challenge for the client's key, and which
  runs the verify endpoint of the worker on what is posted.
\<close>

definition demo_ch :: challenge where
  "demo_ch = \<lparr>ch_version = 2, ch_salt = ''00'', ch_exp = 160, ch_difficulty = 5, ch_token = demo_token\<rparr>"

definition demo_crates :: "unit key_crates" where
  "demo_crates =
     \<lparr>kc_public = (\<lambda>_. demo_pk), kc_sign = (\<lambda>_. sample_sign),
      kc_challenge = (\<lambda>b. if b = ser_challenge sample demo_ch 50 then Some demo_ch else None),
      kc_submission = sample_ser_submission\<rparr>"

definition demo_ngx :: "http_request \<Rightarrow> request" where
  "demo_ngx h = blank_request\<lparr>rq_method := hr_method h, rq_uri := ''/.pow/verify'',
     rq_body := Some [Some \<lparr>bf_in_file = False, bf_file = None, bf_file_pos = 0, bf_file_last = 0,
       bf_memory = True, bf_data = Some (hr_body h)\<rparr>]\<rparr>"

definition demo_net :: "unit net" where
  "demo_net =
     \<lparr>nt_call = (\<lambda>h w. (Some \<lparr>rs_status = 200, rs_header = (\<lambda>_.
        case set_cookies (snd (verify_body sample (demo_env 100) (Some demo_lc) demo_worker (demo_ngx h))) of
          [] \<Rightarrow> None | v # _ \<Rightarrow> Some v)\<rparr>, w)),
      nt_body = (\<lambda>_ w. (ser_challenge sample demo_ch 50, False, w)), nt_instant = (\<lambda>_. 0), nt_unix = (\<lambda>_. 100)\<rparr>"

lemma demo_signing: "signing_laws sample demo_crates"
  by (simp add: signing_laws_def)
    (simp add: demo_crates_def demo_pk_def sample_def sample_point_def sample_sign_def)

theorem proof_header_verifies_witness:
  "\<exists>sig. parse_proof sample (proof_header sample demo_crates \<lparr>id_cookie = [], id_signing = ()\<rparr> ''GET'' ''/'' 100) = Some (sig, 100) \<and>
     check False sample demo_pk ''GET'' ''/'' 100 sig 120 30 = Valid"
  using proof_header_verifies [OF sample_base64_laws demo_signing, of 100 30 120 "\<lparr>id_cookie = [], id_signing = ()\<rparr>" "''GET''" "''/''" False]
  by (simp add: demo_crates_def in_i64_small i64_abs_diff_def)

lemma demo_issue: "pow_issue sample (Some [0]) demo_key demo_pk demo_ctx 5 40 CHALLENGE_GRACE = Some demo_ch"
proof -
  have "hex [0] = ''00''" by code_simp
  then show ?thesis by (simp add: pow_issue_def demo_ch_def demo_token_def CHALLENGE_GRACE_def i64_add_exact in_i64_small Let_def)
qed

lemma demo_solved_body:
  "request_body_limited pr VERIFY_LIMIT (demo_ngx (solution_request demo_crates base (solved sample demo_crates () demo_ch nonce))) =
     Some (kc_submission demo_crates (solved sample demo_crates () demo_ch nonce))"
proof -
  have hm: "length (hmac_sha256 sample k m) = 32" for k m by (simp add: sample_def sample_digest_def)
  have "length (nat_str (unat nonce)) \<le> 20" using length_nat_str [of "unat nonce" 19] u64_less [of nonce] by simp
  then have "length (sample_ser_submission (solved sample demo_crates () demo_ch nonce)) \<le> 8192"
    by (simp add: sample_ser_submission_def length_esc_fields solved_def demo_ch_def demo_crates_def demo_token_def b64url_def
        b64_length [OF sample_base64_laws] hm sample_sign_def demo_pk_def int_str_def nat_str.simps [of 160] nat_str.simps [of 16]
        nat_str.simps [of "Suc 0"] nat_str.simps [of 2] nat_str.simps [of 5])
  then show ?thesis
    by (simp add: request_body_limited_def demo_ngx_def solution_request_def blank_request_def VERIFY_LIMIT_def demo_crates_def)
qed

lemma sample_de_solved:
  "de_submission sample (kc_submission demo_crates (solved sample demo_crates () demo_ch nonce)) =
     Some (solved sample demo_crates () demo_ch nonce)"
proof -
  have "de_submission sample = sample_de_submission" by (simp add: sample_def)
  moreover have "sb_exp (solved sample demo_crates () demo_ch nonce) = 160" by (simp add: solved_def demo_ch_def)
  moreover have "kc_submission demo_crates = sample_ser_submission" by (simp add: demo_crates_def)
  ultimately show ?thesis by (simp only:) (rule sample_submission_roundtrip, simp add: in_i64_small)
qed

lemma demo_net_answers:
  assumes "set (set_cookies (snd (verify_body sample (demo_env 100) (Some demo_lc) demo_worker (demo_ngx h)))) = {v}"
  shows "\<exists>res w'. nt_call demo_net h w = (Some res, w') \<and> rs_header res ''set-cookie'' = Some v"
proof -
  have "(case cs of [] \<Rightarrow> None | v # _ \<Rightarrow> Some v) = Some v" if "set cs = {v}" for cs using that by (cases cs) auto
  from this [OF assms] show ?thesis by (simp add: demo_net_def)
qed

theorem handshake_obtains_clearance_witness:
  "\<exists>w3. handshake sample demo_crates demo_net ''http://h'' () () =
     Some (Inr \<lparr>id_cookie = cookie_header [(''pow'', demo_clearance)], id_signing = ()\<rparr>, w3)"
proof -
  let ?post = "\<lambda>nonce. solution_request demo_crates ''http://h'' (solved sample demo_crates () demo_ch nonce)"
  have pk: "kc_public demo_crates sk = demo_pk" for sk by (simp add: demo_crates_def)
  have "\<exists>w3. handshake sample demo_crates demo_net ''http://h'' () () =
     Some (Inr \<lparr>id_cookie = cookie_header [(cc_name (cf_cookie demo_cfg), demo_clearance)], id_signing = ()\<rparr>, w3)"
  proof (rule handshake_obtains_clearance [OF sample_base64_laws demo_signing, where ngx = demo_ngx and sub = "solved sample demo_crates () demo_ch"
      and post = ?post and rng = "Some [0]" and issued = 40 and ch = demo_ch and ctx = demo_ctx and d = 5 and k = 0 and c = demo_cfg and t = 50
      and E = "demo_env 100" and lc = demo_lc and wk = demo_worker and wk' = demo_w1])
    show "pow_issue sample (Some [0]) (cf_key demo_cfg) (kc_public demo_crates ()) demo_ctx 5 40 CHALLENGE_GRACE = Some demo_ch"
      by (simp add: pk demo_cfg demo_issue)
    show "solution_valid sample (ch_salt demo_ch) 0 5" using sample_solution_valid by (simp add: demo_ch_def)
    show "resolve_worker sample (demo_env 100) demo_lc demo_worker = (demo_cfg, demo_w1)" by (rule demo_resolve)
    show "zone_outcome sample (demo_env 100) (ch_token demo_ch) (ch_exp demo_ch) demo_worker = Accepted"
      using demo_redeemed by (simp add: demo_ch_def)
    show "client_context sample (issuer demo_w1) demo_cfg (demo_ngx (?post nonce)) = Some demo_ctx" for nonce
      using context_cong [of "demo_ngx (?post nonce)" blank_request sample "issuer demo_w1" demo_cfg] demo_context
      by (simp add: demo_ngx_def header_def blank_request_def)
    show "de_submission sample (kc_submission demo_crates (solved sample demo_crates () demo_ch nonce)) =
        Some (solved sample demo_crates () demo_ch nonce)" for nonce
      by (rule sample_de_solved)
    show "required_assurance (ge_nginx (demo_env 100)) demo_lc demo_cfg (record_outcome (ge_nginx (demo_env 100))
        ''rejected'' ''invalid_submission'' (cf_difficulty demo_cfg) (demo_ngx (?post nonce))) = Pow 5" for nonce
      by (simp add: required_assurance_def assurance_for_def eval_complex_value_def demo_lc_def parse_def demo_cfg)
    show "\<exists>res w3. nt_call demo_net (?post nonce) () = (Some res, w3) \<and> rs_header res ''set-cookie'' = Some v"
      if "set (set_cookies (snd (verify_body sample (demo_env 100) (Some demo_lc) demo_worker (demo_ngx (?post nonce))))) = {v}" for nonce v
      by (rule demo_net_answers [OF that])
  qed (use demo_clearance_text in \<open>simp_all add: demo_cfg demo_solved_body CHALLENGE_GRACE_def in_i64_small demo_clearance_def pk,
      simp_all add: demo_env_def demo_ngx_def set_cookies_def blank_request_def demo_worker_def new_worker_def demo_net_def
        demo_crates_def key_request_def\<close>)
  then show ?thesis by (simp add: demo_cfg)
qed

end
