(* ===== verification/Cluster_Scenario.thy ===== *)
theory Cluster_Scenario
  imports Scenario Cluster_Site
begin

text \<open>
  The worked example of \<open>Scenario\<close> in cluster mode: the health check of a worker succeeds, the
  client submits its solution there, the Redis server runs the transaction, the worker reads the
  reply and answers the request; the client comes back to a worker on another machine.
\<close>

definition cl_env :: gate_env where
  "cl_env = (demo_env 100)\<lparr>ge_cluster := calm, ge_request := 7\<rparr>"

definition cl_main :: main_conf where
  "cl_main = \<lparr>mc_verifiers = None, mc_cluster = None, mc_zone = None\<rparr>"

definition cl_start :: "server cluster_site" where
  "cl_start = cluster_site_start cl_main small_config small_server"

abbreviation cl_step :: "cluster_site_event \<Rightarrow> server cluster_site \<Rightarrow> server cluster_site" where
  "cl_step \<equiv> cluster_site_step server_api sample small_config"

definition cl_before :: "cluster_site_event list" where
  "cl_before = [Network 0 plain_nginx calm (Polls False), Network 0 plain_nginx calm (Reads 0 True accept_reply)]"

definition cl_submit :: cluster_site_event where
  "cl_submit = Handles 0 (Submits cl_env demo_lc demo_post) (Some (demo_token, 160, demo_grant))"

definition cl_serve :: cluster_site_event where
  "cl_serve = Serves 0 1 demo_token 160 100"

definition cl_reply :: cluster_site_event where
  "cl_reply = Network 0 plain_nginx calm (Reads 1 True accept_reply)"

definition cl_ready :: "server cluster_site" where
  "cl_ready = fold cl_step cl_before cl_start"

definition cl_waiting :: "server cluster_site" where
  "cl_waiting = cl_step cl_serve (cl_step cl_submit cl_ready)"

lemma cl_fleet:
  "cs_fleet cl_ready = small_fleet demo_token demo_grant 2"
  "cs_fleet (cl_step cl_submit cl_ready) = small_fleet demo_token demo_grant 3"
  "cs_fleet cl_waiting = small_fleet demo_token demo_grant 4"
proof -
  have start: "cs_fleet cl_start = small_fleet demo_token demo_grant 0"
    by (simp add: cl_start_def cluster_site_start_def small_fleet_step(1))
  have "List.map_filter fleet_event_of cl_before = [Node 0 calm (Polls False), Node 0 calm (Reads 0 True accept_reply)]"
    by (simp add: cl_before_def map_filter_def)
  then show ready: "cs_fleet cl_ready = small_fleet demo_token demo_grant 2"
    by (simp add: cl_ready_def cs_fleet_run start small_fleet_step(2,3) del: fleet_step.simps One_nat_def)
  show submit: "cs_fleet (cl_step cl_submit cl_ready) = small_fleet demo_token demo_grant 3"
    unfolding small_fleet_step(4) ready [symmetric] by (rule cs_fleet_step) (simp add: cl_submit_def cl_env_def)
  show "cs_fleet cl_waiting = small_fleet demo_token demo_grant 4"
    unfolding small_fleet_step(5) submit [symmetric] cl_waiting_def by (rule cs_fleet_step) (simp add: cl_serve_def)
qed

lemma cl_start_worker: "wk_cells (cs_worker cl_start k) = []" "wk_keys (cs_worker cl_start k) = []"
  by (simp_all add: cl_start_def cluster_site_start_def cl_main_def init_process_def redemption_activate_def new_worker_def)

lemma cl_start_inv: "cluster_site_inv server_api sample small_config 3 cl_start"
  unfolding cl_start_def by (rule cluster_site_start_inv [OF small_server_inv])

lemma cl_before_ok: "admitted cl_step (cluster_site_ok sample small_config 3) cl_before cl_start"
proof -
  have start: "cs_fleet cl_start = small_fleet demo_token demo_grant 0"
    by (simp add: cl_start_def cluster_site_start_def small_fleet_step(1))
  then have "cs_fleet (cl_step (Network 0 plain_nginx calm (Polls False)) cl_start) = small_fleet demo_token demo_grant 1"
    unfolding small_fleet_step(2) start [symmetric] by (intro cs_fleet_step) simp
  with start show ?thesis
    using small_fleet_ok(1,2) [of demo_token demo_grant] by (simp add: cl_before_def admitted_def del: fleet_ok.simps One_nat_def)
qed

lemma cl_ready_worker:
  "wk_cells (cs_worker cl_ready k) = []" "wk_keys (cs_worker cl_ready k) = []" "wk_cluster (cs_worker cl_ready 0) = Some run2"
proof -
  show "wk_cells (cs_worker cl_ready k) = []" "wk_keys (cs_worker cl_ready k) = []"
    by (simp_all add: cl_ready_def cl_before_def cluster_site_step_def cl_start_worker del: cluster_step.simps)
  have "in_step cl_ready"
    using cluster_site_run(1) [OF cl_start_inv cl_before_ok] by (simp add: cl_ready_def cluster_site_inv_def)
  from in_stepD(1) [OF this, of 0] show "wk_cluster (cs_worker cl_ready 0) = Some run2" by (simp add: cl_fleet small_fleet_client)
qed

lemma cl_resolve: "fst (resolve_worker sample cl_env demo_lc (cs_worker cl_ready 0)) = demo_cfg"
  using demo_resolve_other [OF cl_ready_worker(1,2), of 100 0] by (simp add: resolve_worker_def cl_env_def case_prod_beta)

lemma cl_earned: "earned sample (Submits cl_env demo_lc demo_post) (cs_worker cl_ready 0) demo_token 160 demo_grant"
proof -
  define w1 where "w1 = snd (resolve_worker sample cl_env demo_lc (cs_worker cl_ready 0))"
  have "issuer w1 = Some (replicate 32 7)"
    using cl_ready_worker(3) by (simp add: w1_def issuer_def) (simp add: cluster_issuer_def run2_eq cluster_activate_def small_config_def)
  moreover have "issuer demo_w1 = Some (replicate 32 7)"
    using resolve_worker_store(2) [of sample "demo_env 100" demo_lc demo_worker]
    by (simp add: demo_w1_def issuer_def zone_issuer_def zone_data_def demo_worker_def new_worker_def)
  ultimately have "pow_earned sample cl_env demo_lc demo_cfg w1 demo_post demo_token 160 demo_grant"
    using demo_earned by (simp add: pow_earned_def cl_env_def)
  moreover have "resolve_worker sample cl_env demo_lc (cs_worker cl_ready 0) = (demo_cfg, w1)"
    by (simp add: w1_def flip: cl_resolve)
  ultimately show ?thesis by simp
qed

lemma cl_submit_ok: "cluster_site_ok sample small_config 3 cl_ready cl_submit"
  using submit_asks [OF cl_ready_worker(3) cl_earned] small_fleet_ok(3) [of demo_token demo_grant]
  by (simp add: cl_submit_def cl_fleet cl_env_def del: fleet_ok.simps)

lemma cl_admitted:
  "admitted cl_step (cluster_site_ok sample small_config 3) (cl_before @ cl_submit # [cl_serve] @ cl_reply # []) cl_start"
proof -
  have "cluster_site_ok sample small_config 3 (cl_step cl_submit cl_ready) cl_serve"
    using small_fleet_ok(4) [of demo_token demo_grant] by (simp add: cl_serve_def cl_fleet del: fleet_ok.simps One_nat_def)
  moreover have "cluster_site_ok sample small_config 3 cl_waiting cl_reply"
    using small_fleet_ok(5) [of demo_token demo_grant] by (simp add: cl_reply_def cl_fleet del: fleet_ok.simps One_nat_def)
  ultimately show ?thesis
    using cl_before_ok cl_submit_ok unfolding admitted_append
    by (simp add: cl_waiting_def admitted_def flip: cl_ready_def)
qed

text \<open>The request waits without a cookie until the reply.\<close>

lemma cl_parked: "\<exists>q. cs_parked cl_waiting (0, 7) = Some q \<and> set_cookies q = []"
proof -
  obtain w' r' where run: "verify_body sample cl_env (Some demo_lc) (cs_worker cl_ready 0) demo_post = (w', r')" by fastforce
  then have "handled sample (Submits cl_env demo_lc demo_post) (cs_worker cl_ready 0) = (w', Some (demo_post, r'))" by simp
  from handled_in_cluster(2) [OF cl_ready_worker(3) _ this] have "mute demo_post r'" by simp
  then have "set_cookies r' = []" by (simp add: mute_def demo_quiet)
  moreover have "cs_parked cl_waiting (0, 7) = Some r'"
    by (simp add: cl_waiting_def cl_serve_def cl_submit_def cluster_site_step_def own_request_def run cl_env_def [THEN arg_cong, of ge_request])
  ultimately show ?thesis by blast
qed

lemma cl_job:
  obtains job where "ct_jobs (fl_client (cs_fleet cl_waiting) 0) 1 = Some job" "jb_request job = Some 7"
    "read_result accept_reply job = Some (Accepted, False)" "ce_done calm 1 < jb_expires job"
  by (rule that [of "the (ct_jobs (run3 demo_token demo_grant) 1)"])
    (simp_all add: cl_fleet small_fleet_client run3_eq accept_result calm_def)

lemma cl_gives: "gives sample cl_reply cl_waiting (redemption_id sample demo_token) 160"
proof -
  obtain q where q: "cs_parked cl_waiting (0, 7) = Some q" "set_cookies q = []" using cl_parked by blast
  obtain job where job: "ct_jobs (fl_client (cs_fleet cl_waiting) 0) 1 = Some job" "jb_request job = Some 7"
    "read_result accept_reply job = Some (Accepted, False)" "ce_done calm 1 < jb_expires job" by (rule cl_job)
  have asked: "fl_asked (cs_fleet cl_waiting) (0, 7) = Some (demo_token, 160, demo_grant)"
    by (simp add: cl_fleet small_fleet_parts)
  note split = cl_admitted [unfolded admitted_append, simplified, folded cl_ready_def, folded cl_waiting_def]
  have "cluster_site_inv server_api sample small_config 3 cl_waiting"
    using cluster_site_run(1) [OF cl_start_inv, of "cl_before @ [cl_submit, cl_serve]"] split
    by (simp add: cl_waiting_def admitted_def trace_append flip: cl_ready_def)
  then obtain q' where "parked_after sample cl_reply cl_waiting (0, 7) = Some q'" "rg_cookie demo_grant \<in> set (set_cookies q')"
    using reply_answers [OF _ _ _ asked job healthy_plain, where R = server_api and X = sample and config = small_config and S = 3 and rearm = True] split q(1)
    by (auto simp: cl_reply_def cluster_site_step_def)
  then have "rg_cookie demo_grant \<in> set (sent sample cl_reply cl_waiting (0, 7))"
    using q by (simp add: sent_def cl_reply_def new_cookies_def del: parked_after.simps)
  with asked show ?thesis unfolding gives_def by blast
qed

theorem one_clearance_per_token_cluster_witness:
  "acceptances cl_step (gives sample) (cl_before @ cl_submit # [cl_serve] @ cl_reply # []) cl_start (redemption_id sample demo_token) 160 = 1"
proof (rule antisym)
  let ?evs = "cl_before @ cl_submit # [cl_serve] @ cl_reply # []"
  show "acceptances cl_step (gives sample) ?evs cl_start (redemption_id sample demo_token) 160 \<le> 1"
    using one_clearance_per_token_cluster [OF small_server_inv cl_start_def cl_admitted] by blast
  have "(cl_reply, cl_waiting) \<in> set (trace cl_step ?evs cl_start)"
    by (simp add: trace_append cl_waiting_def flip: cl_ready_def)
  then have "filter (\<lambda>(ev, s). gives sample ev s (redemption_id sample demo_token) 160) (trace cl_step ?evs cl_start) \<noteq> []"
    using cl_gives by (auto simp: filter_empty_conv)
  then show "1 \<le> acceptances cl_step (gives sample) ?evs cl_start (redemption_id sample demo_token) 160"
    unfolding acceptances_def by (simp add: Suc_le_eq)
qed

theorem earned_clearance_passes_cluster_witness:
  "(\<exists>p. cs_parked (cl_step cl_reply cl_waiting) (0, 7) = Some p \<and> rg_cookie demo_grant \<in> set (set_cookies p)) \<and>
   fst (pow_gate_access sample (demo_env 120) (Some demo_lc) (cs_worker (cl_step cl_reply cl_waiting) 3) demo_get) = NGX_DECLINED"
proof -
  obtain w1 where w1: "resolve_worker sample cl_env demo_lc (cs_worker cl_ready 0) = (demo_cfg, w1)"
    using cl_resolve by (metis prod.collapse)
  have "cs_worker (cl_step cl_reply cl_waiting) 3 = cs_worker cl_ready 3"
    by (simp add: cl_waiting_def cl_reply_def cl_serve_def cl_submit_def cluster_site_step_def)
  then obtain w2 where w2: "resolve_worker sample (demo_env 120) demo_lc (cs_worker (cl_step cl_reply cl_waiting) 3) = (demo_cfg, w2)"
    using demo_resolve_other [OF cl_ready_worker(1,2), of 120 3] by (metis prod.collapse)
  have fresh: "\<not> ct_fenced (fl_client (cs_fleet (cl_step cl_reply cl_waiting)) 3)"
    by (simp add: cl_reply_def cs_fleet_step cl_fleet small_fleet_step Let_def fleet_start_def cluster_activate_def del: cluster_step.simps One_nat_def)
  obtain job where job: "ct_jobs (fl_client (cs_fleet cl_waiting) 0) 1 = Some job" "jb_request job = Some 7"
    "read_result accept_reply job = Some (Accepted, False)" "ce_done calm 1 < jb_expires job" by (rule cl_job)
  have env: "ge_request cl_env = 7" by (simp add: cl_env_def)
  have "(\<exists>p. cs_parked (cl_step cl_reply cl_waiting) (0, ge_request cl_env) = Some p \<and> rg_cookie demo_grant \<in> set (set_cookies p)) \<and>
     fst (pow_gate_access sample (demo_env 120) (Some demo_lc) (cs_worker (cl_step cl_reply cl_waiting) 3) demo_get) = NGX_DECLINED"
  proof (rule earned_clearance_passes_cluster [OF sample_base64_laws sample_digest_laws sample_serde_laws small_server_inv
        cl_start_def cl_submit_def cl_reply_def cl_admitted cl_ready_def w1 _ job(1) _ job(3,4), where v = demo_clearance
        and decision = "Challenge None" and sl = "cl_step cl_reply cl_waiting"])
    show "cl_waiting = fold cl_step (cl_before @ cl_submit # [cl_serve]) cl_start"
      by (simp add: cl_waiting_def flip: cl_ready_def)
    show "cookie (cc_name (cf_cookie demo_cfg)) demo_get = Some demo_clearance" by (simp add: demo_cfg demo_cookie)
    show "resolve_worker sample (demo_env 120) demo_lc (cs_worker (cl_step cl_reply cl_waiting) 3) = (demo_cfg, w2)" by (rule w2)
  qed (use fresh in \<open>simp_all add: env job(2) demo_cfg demo_clearance_length demo_grant_def in_i64_small\<close>,
      simp_all add: in_i64_small cl_env_def demo_env_def demo_get_def demo_post_def blank_request_def
        header_def can_carry_proof_def starts_with_def demo_lc_def eval_complex_value_def parse_def
        assurance_for_def demo_cfg eq_ignore_ascii_case_u8_def as_bytes_def u8_lower_def)
  then show ?thesis by (simp add: env)
qed

end
