(* ===== verification/Refresh.thy ===== *)
theory Refresh
  imports Verifier Float64
begin

unbundle bit_operations_syntax

text \<open>
  The pause of a feed refresher between two rounds (\<open>spawn_refresher\<close> of
  \<open>ngx-http-pow-gate/src/verifier.rs\<close>): the configured interval times \<open>0.9 + (sample % 201) / 1000\<close>,
  computed in binary64 by \<open>Duration::mul_f64\<close>. The sample is the nanosecond part of the wall clock
  and the process number, exclusive-or. The theorem is that the pause is the interval with the
  documented jitter of ten per cent, up to 12 nanoseconds of rounding.
\<close>

text \<open>The standard library's duration arithmetic; \<open>from_secs_f64\<close> is \<open>None\<close> where it panics.\<close>

definition as_secs_f64 :: "duration \<Rightarrow> f64" where
  "as_secs_f64 d = f64_add (f64_of_nat (d div second)) (f64_div (f64_of_nat (d mod second)) (f64_of_nat second))"

fun from_secs_f64 :: "f64 \<Rightarrow> duration option" where
  "from_secs_f64 (Fin a) =
     (let d = nat (ties_to_even (a * of_nat second)) in if d div second < 2 ^ 64 then Some d else None)"
| "from_secs_f64 _ = None"

definition mul_f64 :: "duration \<Rightarrow> f64 \<Rightarrow> duration option" where
  "mul_f64 d rhs = from_secs_f64 (f64_mul rhs (as_secs_f64 d))"

definition jitter_sample :: "u32 \<Rightarrow> u32 \<Rightarrow> u64" where
  "jitter_sample subsec_nanos pid = ucast subsec_nanos XOR ucast pid"

definition refresh_sleep :: "u64 \<Rightarrow> duration \<Rightarrow> duration option" where
  "refresh_sleep jitter refresh =
     mul_f64 refresh
       (f64_add (f64_round (9 / 10)) (f64_div (f64_of_nat (unat (jitter mod 201))) (f64_of_nat 1000)))"

subsection \<open>The error of one rounding\<close>

lemma ties_to_even_error: "\<bar>of_int (ties_to_even x) - x\<bar> \<le> 1 / 2"
proof -
  define d where "d = x - of_int \<lfloor>x\<rfloor>"
  have "0 \<le> d" "d < 1" using floor_correct [of x] by (simp_all add: d_def)
  moreover have "ties_to_even x = \<lfloor>x\<rfloor> \<and> d \<le> 1 / 2 \<or> ties_to_even x = \<lfloor>x\<rfloor> + 1 \<and> 1 / 2 \<le> d"
    by (auto simp: ties_to_even_def d_def Let_def)
  moreover have "x = of_int \<lfloor>x\<rfloor> + d" by (simp add: d_def)
  ultimately show ?thesis by (auto simp: abs_if)
qed

lemma last_place_below:
  assumes "0 < x" "x < 2 powi g" "- 1000 \<le> g"
  shows "last_place x \<le> g - 53"
proof -
  have "(2 :: rat) powi binade x < 2 powi g" using binade_bounds [OF assms(1)] assms(2) by simp
  then have "binade x < g" using power_int_increasing [of g "binade x" "2 :: rat"] by linarith
  then show ?thesis using assms(3) by (simp add: last_place_def)
qed

lemma round_f64_error:
  assumes "0 \<le> x" "x < 2 powi g" "- 1000 \<le> g"
  shows "\<bar>round_f64 x - x\<bar> \<le> 2 powi (g - 54)"
proof (cases "x = 0")
  case False
  let ?u = "2 powi last_place x :: rat"
  have "\<bar>of_int (ties_to_even (x / ?u)) - x / ?u\<bar> * ?u \<le> 1 / 2 * ?u"
    by (intro mult_right_mono ties_to_even_error) simp
  moreover have "round_f64 x - x = (of_int (ties_to_even (x / ?u)) - x / ?u) * ?u"
    using assms(1) False by (simp add: round_f64_pos left_diff_distrib)
  ultimately have "\<bar>round_f64 x - x\<bar> \<le> ?u / 2" by (simp only: abs_mult) simp
  also have "\<dots> \<le> 2 powi (g - 53) / 2"
    using last_place_below [of x g] assms False by (intro divide_right_mono power_int_increasing) simp_all
  also have "\<dots> = 2 powi (g - 54)" using power_int_add [of "2 :: rat" "g - 54" 1] by simp
  finally show ?thesis .
qed (simp add: round_f64_def)

lemma round_f64_of_nat: "n < 2 ^ 53 \<Longrightarrow> round_f64 (of_nat n) = of_nat n"
proof (cases "n = 0")
  case False
  assume "n < 2 ^ 53"
  then have "(of_nat n :: rat) < 2 powi 53" by (simp del: of_nat_power add: of_nat_less_iff [of n "2 ^ 53", symmetric] power_int_def)
  then have le: "last_place (of_nat n) \<le> 0" using last_place_below [of "of_nat n" 53] False by simp
  let ?u = "2 powi last_place (of_nat n) :: rat"
  have "of_nat n / ?u = of_int (int n * 2 ^ nat (- last_place (of_nat n)))"
    using powi_quotient [OF le] by (simp add: divide_inverse)
  then have "of_int (ties_to_even (of_nat n / ?u)) = of_nat n / ?u" by (metis ties_to_even_int)
  then show ?thesis using False by (simp add: round_f64_def)
qed (simp add: round_f64_def)

subsection \<open>The pause\<close>

lemma f64_of_nat_exact: "n < 2 ^ 53 \<Longrightarrow> f64_of_nat n = Fin (of_nat n)"
proof -
  assume n: "n < 2 ^ 53"
  then have "(of_nat n :: rat) < of_nat (2 ^ 53)" by (simp only: of_nat_less_iff)
  then have "(of_nat n :: rat) < 2 ^ 1024" by simp
  with round_f64_of_nat [OF n] show ?thesis by (simp add: f64_of_nat_def f64_round_def)
qed

lemma powi_neg: "(2 :: rat) powi (- numeral m) = 1 / 2 ^ numeral m"
  by (simp only: power_int_minus power_int_numeral divide_inverse mult_1_left)

text \<open>A rounded number below \<open>2 powi g\<close> is finite and off by at most half of its last place.\<close>

lemma f64_round_error:
  assumes "0 \<le> x" "x < 2 powi g" "- 1000 \<le> g" "g \<le> 1000"
  obtains y where "f64_round x = Fin y" "0 \<le> y" "\<bar>y - x\<bar> \<le> 2 powi (g - 54)"
proof
  note error = round_f64_error [OF assms(1-3)]
  have "(2 :: rat) powi (g - 54) \<le> 2 powi 1000" "2 powi g \<le> (2 :: rat) powi 1000"
    using assms by (intro power_int_increasing; simp)+
  moreover have "(2 :: rat) powi 1000 = 2 ^ 1000" by (simp add: power_int_def)
  ultimately have "round_f64 x < 2 ^ 1024" using error assms(2) by (simp add: abs_le_iff) 
  then show "f64_round x = Fin (round_f64 x)" by (simp add: f64_round_def)
qed (use assms round_f64_error [of x g] round_f64_nonneg [of x] in simp_all)

lemma as_secs_f64_from_secs: "n < 2 ^ 53 \<Longrightarrow> as_secs_f64 (from_secs n) = Fin (of_nat n)"
proof -
  assume n: "n < 2 ^ 53"
  have "f64_round 0 = Fin 0" by (simp add: f64_round_def round_f64_def)
  moreover have "f64_round (of_nat n) = Fin (of_nat n)" using f64_of_nat_exact [OF n] by (simp add: f64_of_nat_def)
  ultimately show ?thesis
    using f64_of_nat_exact [OF n] f64_of_nat_exact [of 0] f64_of_nat_exact [of second]
    by (simp add: as_secs_f64_def from_secs_def second_def)
qed

lemma jitter_factor:
  fixes k :: nat
  assumes "k \<le> 200"
  obtains f where
    "f64_add (f64_round (9 / 10)) (f64_div (f64_of_nat k) (f64_of_nat 1000)) = Fin f"
    "0 \<le> f" "\<bar>f - (900 + of_nat k) / 1000\<bar> \<le> 1 / 4503599627370496"
proof -
  have k: "(of_nat k :: rat) \<le> 200" using assms by simp
  obtain a :: rat where a: "f64_round (9 / 10) = Fin a" "0 \<le> a" "\<bar>a - 9 / 10\<bar> \<le> 2 powi (0 - 54)"
    by (rule f64_round_error [of "9 / 10" 0]) simp_all
  obtain b :: rat where b: "f64_round (of_nat k / 1000) = Fin b" "0 \<le> b" "\<bar>b - of_nat k / 1000\<bar> \<le> 2 powi (- 2 - 54)"
    by (rule f64_round_error [of "of_nat k / 1000" "- 2"]) (use k in \<open>simp_all add: power_int_def power2_eq_square\<close>)
  have ab: "\<bar>a - 9 / 10\<bar> \<le> 1 / 18014398509481984" "\<bar>b - of_nat k / 1000\<bar> \<le> 1 / 72057594037927936"
    using a(3) b(3) by (simp_all add: powi_neg)
  then have "a + b < 2" using k by linarith
  then obtain f where f: "f64_round (a + b) = Fin f" "0 \<le> f" "\<bar>f - (a + b)\<bar> \<le> 2 powi (1 - 54)"
    using a(2) b(2) by (rule_tac f64_round_error [of "a + b" 1]) (simp_all add: power_int_def)
  have "\<bar>f - (a + b)\<bar> \<le> 1 / 9007199254740992" using f(3) by (simp add: powi_neg)
  with ab have "\<bar>f - (900 + of_nat k) / 1000\<bar> \<le> 1 / 4503599627370496"
    unfolding abs_le_iff add_divide_distrib by linarith
  moreover have "f64_add (f64_round (9 / 10)) (f64_div (f64_of_nat k) (f64_of_nat 1000)) = Fin f"
    using f64_of_nat_exact [of k] f64_of_nat_exact [of 1000] assms a(1) b(1) f(1) by simp
  ultimately show thesis using f(2) that by blast
qed

text \<open>
  The documented jitter: for every interval that \<open>parse_time\<close> accepts and every sample the thread
  pauses, for the interval times \<open>(900 + sample % 201) / 1000\<close> up to 12 nanoseconds: never shorter
  than nine tenths of the interval and never longer than eleven tenths of it, up to that rounding.
\<close>

lemma refresh_sleep_jitter:
  fixes jitter :: u64
  assumes "n \<le> 365 * 86400" "k = unat (jitter mod 201)"
  shows "\<exists>d. refresh_sleep jitter (from_secs n) = Some d \<and> k \<le> 200 \<and>
    \<bar>1000 * int d - (900 + int k) * int (from_secs n)\<bar> \<le> 12000"
proof -
  have "jitter mod 201 < 201" by (rule word_mod_less_divisor) simp
  then have k: "k \<le> 200" by (simp add: assms(2) word_less_nat_alt)
  have n: "(of_nat n :: rat) \<le> 31536000" using assms(1) by (simp add: of_nat_le_iff [of n 31536000, symmetric] del: of_nat_le_iff)
  obtain f where f: "f64_add (f64_round (9 / 10)) (f64_div (f64_of_nat k) (f64_of_nat 1000)) = Fin f"
    "0 \<le> f" "\<bar>f - (900 + of_nat k) / 1000\<bar> \<le> 1 / 4503599627370496" using jitter_factor [OF k] .
  define exact :: rat where "exact = (900 + of_nat k) / 1000 * of_nat n"
  have "\<bar>f * of_nat n - exact\<bar> = \<bar>f - (900 + of_nat k) / 1000\<bar> * of_nat n"
    by (simp only: exact_def left_diff_distrib [symmetric] abs_mult abs_of_nat)
  also have "\<dots> \<le> 1 / 4503599627370496 * 31536000" using f(3) n by (intro mult_mono) simp_all
  finally have scaled: "\<bar>f * of_nat n - exact\<bar> \<le> 31536000 / 4503599627370496" by simp
  have bound: "exact \<le> 11 / 10 * 31536000" using k n unfolding exact_def by (intro mult_mono) simp_all
  with scaled have "f * of_nat n < 67108864" by linarith
  then obtain y where y: "f64_round (f * of_nat n) = Fin y" "0 \<le> y" "\<bar>y - f * of_nat n\<bar> \<le> 2 powi (26 - 54)"
    using f(2) by (rule_tac f64_round_error [of "f * of_nat n" 26]) (simp_all add: power_int_def)
  define t where "t = ties_to_even (y * of_nat second)"
  have "\<bar>y - f * of_nat n\<bar> \<le> 1 / 268435456" using y(3) by (simp add: powi_neg)
  then have near: "\<bar>y - exact\<bar> \<le> 31536000 / 4503599627370496 + 1 / 268435456" using scaled by linarith
  have "\<bar>of_int t - y * 1000000000\<bar> \<le> 1 / 2" using ties_to_even_error [of "y * of_nat second"] by (simp add: t_def second_def)
  with near have close: "\<bar>of_int t - exact * 1000000000\<bar> \<le> 12" by linarith
  then have "\<bar>1000 * of_int t - 1000 * (exact * 1000000000)\<bar> \<le> 12000" by linarith
  moreover have "1000 * (exact * 1000000000) = of_int ((900 + int k) * int (from_secs n))"
    by (simp add: exact_def from_secs_def second_def)
  ultimately have "\<bar>of_int (1000 * t - (900 + int k) * int (from_secs n)) :: rat\<bar> \<le> of_int 12000" by simp
  then have "\<bar>1000 * t - (900 + int k) * int (from_secs n)\<bar> \<le> 12000" by (simp only: of_int_abs [symmetric] of_int_le_iff)
  moreover have "0 \<le> t" using ties_to_even_mono [of 0 "y * of_nat second"] ties_to_even_int [of 0] y(2) by (simp add: t_def)
  moreover have "nat t div second < 2 ^ 64"
  proof -
    have "of_int t < (of_int (10 ^ 17) :: rat)" using close bound by simp
    then have "nat t < 2 ^ 64" by (simp only: of_int_less_iff) simp
    then show ?thesis using div_le_dividend [of "nat t" second] by linarith
  qed
  moreover have "refresh_sleep jitter (from_secs n) = from_secs_f64 (Fin y)"
    using f(1) y(1) assms as_secs_f64_from_secs [of n] by (simp add: refresh_sleep_def mul_f64_def)
  ultimately show ?thesis using k by (simp add: t_def Let_def)
qed

text \<open>
  \<open>register\<close> asks for a staleness bound of at least the refresh interval, but the jitter can make
  the pause longer than that: with the two equal, for half of the samples a snapshot is stale
  before the round after it begins, although no fetch failed.
\<close>

lemma healthy_feed_goes_stale:
  fixes jitter :: u64
  assumes "0 < n" "n \<le> 365 * 86400" "bd_refresh b = from_secs n" "bd_max_stale b = from_secs n"
    and "length (bd_urls b) \<le> 32" "k = unat (jitter mod 201)" "100 < k"
    and feed: "feed_parse X body t = Some feed" and d: "refresh_sleep jitter (bd_refresh b) = Some d"
  shows "register b now True None \<noteq> None \<and> \<not> feed_fresh feed (t + d) (bd_max_stale b)"
proof -
  have "\<bar>1000 * int d - (900 + int k) * int (from_secs n)\<bar> \<le> 12000"
    using refresh_sleep_jitter [OF assms(2,6)] d assms(3) by auto
  moreover have "1001 * int (from_secs n) \<le> (900 + int k) * int (from_secs n)"
    using assms(7) by (intro mult_right_mono) simp_all
  moreover have "1000000000 \<le> int (from_secs n)" using assms(1) by (simp add: from_secs_def second_def)
  ultimately have "from_secs n \<le> d" by linarith
  moreover have "fs_updated feed = t" using feed by (auto simp: feed_parse_def split: prod.splits if_splits)
  ultimately show ?thesis using assms(3-5) by (simp add: register_def feed_fresh_def feed_age_def)
qed

end
