(* ===== verification/Spec2Isabelle.thy ===== *)
theory Spec2Isabelle
  imports Registration Cluster_Scenario Refresh
begin

text \<open>
  Verification of \<open>ngx_http_pow_gate\<close>, an nginx module that admits a client to a site after a
  proof of work. Paths below are relative to \<open>src/src/\<close>: \<open>pow-gate-core/src\<close> is the library
  without nginx, \<open>ngx-http-pow-gate/src\<close> the module; the load generator is \<open>src/perf/src/main.rs\<close>.

  \<^bold>\<open>The program.\<close> Every request of a guarded location goes through the access handler
  (\<open>access.rs\<close>). It reads the policy's decision, lets trusted networks, allowed clients, confirmed
  bots and holders of a clearance cookie through, refuses denied ones, and answers everyone else
  with a challenge page. The page asks \<open>challenge\<close> for a signed challenge, solves it and posts
  the solution to \<open>verify\<close>; a client without scripts waits and follows a link to \<open>pass\<close>. Both
  endpoints check the token, hand it to the one-use store (a shared-memory zone, or a Redis server
  reached by a small event-driven client) and only when the store accepts send the clearance
  cookie. Bots are confirmed in the background, from address feeds and by reverse and forward DNS.

  \<^bold>\<open>Theories and sources.\<close> Library theories:
  \<^item> \<open>Prelude\<close>: integer and byte types, wrapping 64-bit arithmetic, list lemmas, fact collections.
  \<^item> \<open>Rust_Std\<close>, \<open>Ip\<close>, \<open>Base64url\<close>: the standard library's text functions, addresses, and a
    base64url coder used as the concrete instance of the crate's.
  \<^item> \<open>Wire\<close>: structures with derived serialisers, and third-party code as the record \<open>externals\<close>
    with its documented laws; \<open>Sample\<close>: one value of that record which satisfies all the laws.
  \<^item> \<open>Nginx\<close>: the request as handlers see it and nginx's functions as the record \<open>nginx\<close>.

  The core library:
  \<^item> \<open>Target\<close> (\<open>target.rs\<close>), \<open>Codec\<close>, \<open>Mac\<close>, \<open>Uri\<close>, \<open>Cookie\<close>, \<open>Decision\<close>, \<open>Context\<close>: the files
    of the same names.
  \<^item> \<open>Token\<close>: the locale \<open>sealed_format\<close> for the text \<open>payload.tag\<close>, interpreted by \<open>Clearance\<close>
    (\<open>clearance.rs\<close>) and \<open>Nojs\<close> (\<open>nojs.rs\<close>); \<open>Pow_Challenge\<close> (\<open>pow.rs\<close>).
  \<^item> \<open>Ledger\<close>: the locale \<open>one_use_ledger\<close>, interpreted by \<open>Redemption\<close> (\<open>redemption.rs\<close> of both
    crates, the zone) and \<open>Redis\<close> (\<open>redis.rs\<close>, the Lua transactions and the RESP codec), and the
    locale \<open>ledger_client\<close>: a system whose events simulate the steps of a ledger is one itself.
  \<^item> \<open>Request_Proof\<close> (\<open>proof.rs\<close>), \<open>Ranges\<close> (\<open>ranges.rs\<close>, locale \<open>interval_set\<close>), \<open>Feeds\<close>,
    \<open>Verdict_Cache\<close>, \<open>Replay\<close>.

  The module:
  \<^item> \<open>Response\<close>, \<open>Observability\<close> (with \<open>body_limit.rs\<close>), \<open>Runtime\<close>, \<open>Pages\<close> (the pages of
    \<open>challenge.rs\<close>), \<open>Redeem\<close> (the answer to each outcome of the store).
  \<^item> \<open>Cluster_Config\<close> and \<open>Cluster\<close> (\<open>cluster.rs\<close>): the Redis block, and the client as a state
    machine whose events carry what the socket calls returned; the locale \<open>runtime_moves\<close> proves
    once that an invariant kept by the elementary moves is kept by every event.
  \<^item> \<open>Verifier\<close> (\<open>verifier.rs\<close>): registry, feeds, DNS queue, block parser;
    \<open>Refresh\<close>: the jittered pause of a refresher thread between two rounds.
  \<^item> \<open>Worker\<close> (\<open>redemption.rs\<close>, \<open>engine/mod.rs\<close>): what a worker keeps, its start, the choice of
    store. \<open>Engine\<close> (\<open>engine/*.rs\<close>, \<open>replay.rs\<close>, the routes of \<open>challenge.rs\<close>) and \<open>Access\<close>
    (\<open>access.rs\<close>): the handlers over the whole worker state. \<open>Config\<close> (\<open>config.rs\<close>): directive
    table and inheritance.

  The whole system:
  \<^item> \<open>Site\<close>: any number of workers that share the zone; an event runs one handler in one worker, or
    a worker dies and is started again. The site is a \<open>ledger_client\<close> of the zone.
  \<^item> \<open>Connection\<close>: one connection to Redis byte by byte, what the server may send on it and what a
    job has kept of it. \<open>Fleet\<close>: the Redis clients of all nodes with the server they share,
    \<open>one_use_ledger\<close> interpreted on all of them. A connection belongs to one job, the server
    runs the transaction it carries at most once, and what arrives is a prefix of what the server
    sends; nothing else is assumed of the network.
  \<^item> \<open>Cluster_Site\<close>: the workers of a cluster with their handlers, the fleet inside them and the
    requests that wait for a reply, from the submission to the cookie. The clients of the workers
    are proved to move as those of the fleet, and the cluster is a \<open>ledger_client\<close> of the fleet.
  \<^item> \<open>Registration\<close> (\<open>lib.rs\<close> and the \<open>install\<close> functions): the module's descriptors and what nginx finds
    through them, from the empty configuration to the first state of a \<open>Site\<close> or a \<open>Cluster_Site\<close>.
  \<^item> \<open>Load\<close> (\<open>perf/src/main.rs\<close>): the load generator, a client of the gate that takes, solves and
    posts a challenge, signs requests and reports latencies; \<open>Float64\<close>: the binary64 arithmetic of
    its report, which \<open>Refresh\<close> uses too.
  \<^item> \<open>Scenario\<close>, \<open>Cluster_Scenario\<close>: a concrete site, cluster, client and solution on which the
    handlers are evaluated.

  \<^bold>\<open>How the code is rendered.\<close> A \<open>&str\<close> or \<open>String\<close> is a \<open>string\<close> of its UTF-8 bytes, a
  \<open>Vec<u8>\<close> a list of \<open>u8\<close>; \<open>u64\<close> is a 64-bit word, \<open>i64\<close> an \<open>int\<close> with the wrap of a release
  build written out, \<open>usize\<close> a \<open>nat\<close>. A handler takes the request last and returns it updated;
  everything it makes nginx do is appended to \<open>rq_output\<close>, a panic included. Every reading of
  the wall clock is an argument of its own, so that no theorem assumes a clock that stands still
  or moves forward unless it says so. Files, random bytes, the resolver, HTTP and the socket calls
  are arguments. A mutex makes its critical section one step; the runs of several workers are
  sequences of such steps.

  \<^bold>\<open>What the theorems show.\<close> The gate: a request passes only for one of the stated reasons, a
  clearance cookie is sent only for a token that passed every check and was accepted by the store,
  and a client that earned one passes, in every worker of the site or the cluster and whatever
  happens meanwhile, until it expires; without a usable key nothing is handed out. The system: over
  all workers of a site, and over all workers of a cluster with their handlers, connections and
  timers, a token yields at most one clearance, in every interleaving, and only the request that
  earned it gets it; a start that nginx accepts leads to such a site, and a reload keeps its ledger. The client: its
  search ends when there is a solution, its submission passes the gate's checks and brings back the
  clearance, and its proof headers verify. The stores: each token with its
  expiry is accepted at most once, by the zone under every clock, by Redis as long as its clock never
  reads more than \<open>S\<close> seconds below its highest reading with \<open>2 S\<close> at most the configured skew plus
  one; a theorem shows that beyond this bound, which is about half the skew, a token can be accepted
  twice. The statements about a cluster assume the same of the Redis clock. The tokens: what
  is accepted is exactly what was issued for this client, up to a collision of the MAC that the
  statement exhibits. The Redis client: bounded queues, each request answered exactly once,
  acceptance only on the server's own reply, and a lost epoch is final. Verification of bots needs
  evidence; feeds and caches are bounded and never mix sources. Configuration:
  inheritance, and an enabled gate that starts is usable. Input: uploads and
  bodies are bounded, parsers and printers agree, template substitution ends.

  \<^bold>\<open>Bounds and fuel.\<close> No function runs on fuel. \<open>replace_all\<close> may loop on an empty placeholder and
  is a \<open>partial_function\<close>; it is proved to return for every nonempty one, and all callers pass
  nonempty literals. So is the client's \<open>search_nonce\<close>, which is proved to return whenever some
  64-bit nonce is a solution. \<open>pump\<close>, \<open>read_replies\<close> and \<open>read_file_range\<close> have termination proofs. The
  loops that end only when a socket call says so (\<open>write_loop\<close>, \<open>read_loop\<close>) recurse over the
  list of results of those calls.

  \<^bold>\<open>Not modelled.\<close> The build script and the module declarations, which do not run; the pointer
  plumbing of the FFI (an nginx string is its bytes: \<open>as_str\<close> does not check UTF-8);
  when a refresh round comes (only the length of the pause is, the rounds themselves may come at
  any time); the memory given back by \<open>drop\<close>
  handlers; the text the load generator prints, and a clock before 1970, at which it panics; the
  browser's side (\<open>assets/solver.js\<close>), benchmarks, the experiment and the integration tests.
  SHA-256, HMAC, ECDSA, base64, \<open>serde_json\<close> and \<open>ureq\<close> are parameters.
\<close>

end
